(* ===== verification/Initia_Prelude.thy ===== *)
theory Initia_Prelude
  imports Main "HOL-Library.DAList" "HOL-Library.List_Lexorder" "HOL-Library.Char_ord"
    "HOL-Library.Product_Lexorder"
begin

text \<open>
  Shared vocabulary of the development: Go's fixed-width integers, Go maps, byte strings,
  and the lemma collections the component theories extend.

  A Go \<open>uint64\<close> is a natural number below \<open>2 ^ 64\<close> and a Go \<open>int64\<close> an integer in
  \<open>[- 2 ^ 63, 2 ^ 63)\<close>; \<open>u64\<close> and \<open>i64\<close> are the reductions that the machine applies
  after an operation. A Go \<open>map\<close> is a finite association list with distinct keys; a
  \<open>range\<close> over it visits the pairs in list order, and since every theorem is about all such
  lists it holds for every iteration order the run time may choose.
\<close>

section \<open>Lemma collections\<close>

named_theorems gomap_simps \<open>laws of the Go map operations\<close>
named_theorems word_simps \<open>reductions of the fixed-width operations in range\<close>

section \<open>Byte strings and fixed-width integers\<close>

type_synonym bytes = string

definition u64 :: "nat \<Rightarrow> nat" where
  "u64 n = n mod 2 ^ 64"

definition i64 :: "int \<Rightarrow> int" where
  "i64 x = (x + 2 ^ 63) mod 2 ^ 64 - 2 ^ 63"

definition is_i64 :: "int \<Rightarrow> bool" where
  "is_i64 x \<longleftrightarrow> - (2 ^ 63) \<le> x \<and> x < 2 ^ 63"

lemma u64_id [word_simps]: "n < 2 ^ 64 \<Longrightarrow> u64 n = n"
  by (simp add: u64_def)

lemma u64_less: "u64 n < 2 ^ 64"
  by (simp add: u64_def)

lemma u64_succ [word_simps]: "n < 2 ^ 64 - 1 \<Longrightarrow> u64 (n + 1) = n + 1"
  by (simp add: u64_def)

lemma i64_id [word_simps]: "is_i64 x \<Longrightarrow> i64 x = x"
  by (simp add: i64_def is_i64_def)

lemma is_i64_i64: "is_i64 (i64 x)"
proof -
  have "0 \<le> (x + 2 ^ 63) mod 2 ^ 64" and "(x + 2 ^ 63) mod 2 ^ 64 < (2 ^ 64 :: int)"
    by simp_all
  then show ?thesis unfolding i64_def is_i64_def by simp
qed

section \<open>Strings of the standard library\<close>

text \<open>
  \<open>strings.Compare\<close> and \<open><\<close> on strings are lexicographic on bytes. \<open>strings.TrimSpace\<close> drops the
  UTF-8 encodings of the code points with the White Space property at both ends.
\<close>

definition stringsCompare :: "string \<Rightarrow> string \<Rightarrow> int" where
  "stringsCompare a b = (if a < b then -1 else if a = b then 0 else 1)"

definition whiteSpace :: "string list" where
  "whiteSpace =
     map (map char_of)
       ([[9], [10], [11], [12], [13], [32], [0xC2, 0x85], [0xC2, 0xA0], [0xE1, 0x9A, 0x80]] @
        map (\<lambda>b. [0xE2, 0x80, b]) [0x80 ..< 0x8B] @
        [[0xE2, 0x80, 0xA8], [0xE2, 0x80, 0xA9], [0xE2, 0x80, 0xAF], [0xE2, 0x81, 0x9F],
         [0xE3, 0x80, 0x80 :: nat]])"

function trimWith :: "string list \<Rightarrow> string \<Rightarrow> string" where
  "trimWith ws s =
     (case find (\<lambda>w. w \<noteq> [] \<and> take (length w) s = w) ws of
        None \<Rightarrow> s
      | Some w \<Rightarrow> trimWith ws (drop (length w) s))"
  by pat_completeness auto
termination
proof (relation "measure (\<lambda>(ws, s). length s)")
  fix ws s w
  assume "find (\<lambda>w. w \<noteq> [] \<and> take (length w) s = w) ws = Some w"
  then have "w \<noteq> []" and "take (length w) s = w"
    by (auto simp: find_Some_iff)
  then show "((ws, drop (length w) s), ws, s) \<in> measure (\<lambda>(ws, s). length s)"
    by (cases s) auto
qed simp

declare trimWith.simps [simp del]

definition TrimSpace :: "string \<Rightarrow> string" where
  "TrimSpace s = rev (trimWith (map rev whiteSpace) (rev (trimWith whiteSpace s)))"

fun itoa :: "nat \<Rightarrow> string" where
  "itoa n = (if n < 10 then [char_of (48 + n)] else itoa (n div 10) @ [char_of (48 + n mod 10)])"

declare itoa.simps [simp del]

section \<open>Go maps\<close>

type_synonym ('k, 'v) gomap = "('k, 'v) alist"

definition mempty :: "('k, 'v) gomap" where
  "mempty = DAList.empty"

definition mget :: "('k, 'v) gomap \<Rightarrow> 'k \<Rightarrow> 'v option" where
  "mget m k = DAList.lookup m k"

definition mput :: "('k, 'v) gomap \<Rightarrow> 'k \<Rightarrow> 'v \<Rightarrow> ('k, 'v) gomap" where
  "mput m k v = DAList.update k v m"

definition mdel :: "('k, 'v) gomap \<Rightarrow> 'k \<Rightarrow> ('k, 'v) gomap" where
  "mdel m k = DAList.delete k m"

definition mitems :: "('k, 'v) gomap \<Rightarrow> ('k \<times> 'v) list" where
  "mitems m = DAList.impl_of m"

definition mlen :: "('k, 'v) gomap \<Rightarrow> nat" where
  "mlen m = length (mitems m)"

abbreviation mkeys :: "('k, 'v) gomap \<Rightarrow> 'k list" where
  "mkeys m \<equiv> map fst (mitems m)"

abbreviation mdom :: "('k, 'v) gomap \<Rightarrow> 'k set" where
  "mdom m \<equiv> dom (mget m)"

text \<open>
  The contract every user of a map relies on: reading after writing, deleting, the number of
  keys, and that a \<open>range\<close> visits each pair once.
\<close>

locale go_map =
  fixes emp :: 'm
    and get :: "'m \<Rightarrow> 'k \<Rightarrow> 'v option"
    and put :: "'m \<Rightarrow> 'k \<Rightarrow> 'v \<Rightarrow> 'm"
    and del :: "'m \<Rightarrow> 'k \<Rightarrow> 'm"
    and items :: "'m \<Rightarrow> ('k \<times> 'v) list"
    and len :: "'m \<Rightarrow> nat"
  assumes get_emp: "get emp = Map.empty"
    and get_put: "get (put m k v) = (get m)(k \<mapsto> v)"
    and get_del: "get (del m k) = (get m)(k := None)"
    and items_get: "get m = map_of (items m)"
    and items_distinct: "distinct (map fst (items m))"
    and len_items: "len m = length (items m)"
begin

lemma finite_get: "finite (dom (get m))"
  by (simp add: items_get finite_dom_map_of)

lemma len_card: "len m = card (dom (get m))"
  using distinct_card [OF items_distinct, of m]
  by (simp add: len_items items_get dom_map_of_conv_image_fst)

lemma len_0: "len m = 0 \<longleftrightarrow> get m = Map.empty"
  by (simp add: len_card finite_get)

lemma len_put: "len (put m k v) = (if get m k = None then Suc (len m) else len m)"
  by (auto simp: len_card get_put finite_get insert_absorb domIff)

lemma len_del: "len (del m k) = (if get m k = None then len m else len m - 1)"
  by (auto simp: len_card get_del finite_get domIff card_Diff_singleton_if)

lemma len_pos: "get m k = Some v \<Longrightarrow> 0 < len m"
  by (auto simp: len_card finite_get card_gt_0_iff)

lemma items_iff: "(k, v) \<in> set (items m) \<longleftrightarrow> get m k = Some v"
  by (simp add: items_get items_distinct)

lemma keys_set: "fst ` set (items m) = dom (get m)"
  by (simp add: items_get dom_map_of_conv_image_fst)

lemma sum_items: "(\<Sum>x\<leftarrow>items m. f (fst x) (snd x)) = (\<Sum>k\<in>dom (get m). f k (the (get m k)))"
proof -
  have "(\<Sum>x\<leftarrow>items m. f (fst x) (snd x)) = (\<Sum>x\<in>set (items m). f (fst x) (snd x))"
    using items_distinct by (simp add: distinct_map sum_list_distinct_conv_sum_set)
  also have "\<dots> = (\<Sum>k\<in>fst ` set (items m). f k (the (get m k)))"
    using items_distinct by (subst sum.reindex) (auto simp: distinct_map items_iff intro!: sum.cong)
  finally show ?thesis by (simp add: keys_set)
qed

end

lemma mget_put: "mget (mput m k v) = (mget m)(k \<mapsto> v)"
  by (auto simp: mget_def mput_def DAList.lookup_update fun_eq_iff)

lemma mget_del: "mget (mdel m k) = (mget m)(k := None)"
  by (simp add: mget_def mdel_def fun_eq_iff)

lemma mget_items: "mget m = map_of (mitems m)"
  by (simp add: mget_def mitems_def DAList.lookup.rep_eq fun_eq_iff)

interpretation gm: go_map mempty mget mput mdel mitems mlen
proof unfold_locales
  show "mget mempty = Map.empty"
    by (simp add: mget_def mempty_def fun_eq_iff)
qed (simp_all add: mget_put mget_del mlen_def mget_items [symmetric], simp_all add: mget_items mitems_def)

lemmas [gomap_simps] = gm.get_emp gm.get_put gm.get_del gm.len_put gm.len_del gm.items_iff
lemmas [simp] = gm.get_emp gm.get_put gm.get_del gm.finite_get

end
