(* ===== verification/Mempool_Types.thy ===== *)
theory Mempool_Types
  imports Initia_Prelude
begin

text \<open>
  The data of \<open>abcipp\<close>: transactions and contexts as the mempool sees them, the parameters
  that stand for code outside the repository, the mempool's configuration, entries, sender
  states and state record (\<open>abcipp/mempool.go\<close>, \<open>abcipp/mempool_sender_state.go\<close>,
  \<open>abcipp/interface.go\<close>, \<open>abcipp/config.go\<close>), and the helpers of \<open>abcipp/utils.go\<close> and
  \<open>tx/extension.go\<close> that read them.
\<close>

section \<open>Transactions, contexts and the code outside the repository\<close>

text \<open>
  An \<open>sdk.Tx\<close> is an interface value. The record keeps the result of each method and type
  assertion that the mempool applies to it: whether it is a \<open>SigVerifiableTx\<close> and what
  \<open>GetSignaturesV2\<close> returns, the gas when it is a \<open>FeeTx\<close>, and the type URLs of its
  extension options when it has them (a nil \<open>Any\<close> is \<open>None\<close>).
\<close>

record sdk_sig =
  sig_PubKey :: "bytes option"  \<comment> \<open>\<open>PubKey.Address()\<close>, None when the key is nil\<close>
  sig_Sequence :: nat

record sdk_tx =
  tx_sigVerifiable :: bool
  tx_GetSignaturesV2 :: "string + sdk_sig list"
  tx_GetGas :: "nat option"
  tx_GetExtensionOptions :: "string option list option"

record block_params =
  MaxBytes :: int
  MaxGas :: int

text \<open>An \<open>sdk.Context\<close>; \<open>'s\<close> is the multistore behind it.\<close>

record 's sdk_ctx =
  ctx_Priority :: int
  ctx_TxBytes :: bytes
  ctx_Block :: "block_params option"
  ctx_IsReCheckTx :: bool
  ctx_store :: 's

type_synonym 's AnteHandler = "'s sdk_ctx \<Rightarrow> sdk_tx \<Rightarrow> bool \<Rightarrow> string + 's sdk_ctx"
type_synonym 's TierMatcher = "'s sdk_ctx \<Rightarrow> sdk_tx \<Rightarrow> bool"

section \<open>Entries and sender state\<close>

record txKey =
  sender :: string
  nonce :: nat

record txEntry =
  e_tx :: sdk_tx
  e_priority :: int
  e_size :: int
  e_key :: txKey
  e_sequence :: nat
  e_order :: int
  e_tier :: int
  e_gas :: nat
  e_bytes :: bytes
  e_clampedPriority :: int
  e_clampedOrder :: int

definition queuedTier :: int where
  "queuedTier = -1"

datatype RemovalReason =
    RemovalReasonCapacityEvicted
  | RemovalReasonCommittedInBlock
  | RemovalReasonAnteRejectedInPrepare

record senderState =
  onChainSeq :: nat
  gapSince :: "int option"  \<comment> \<open>nanoseconds; None is the zero \<open>time.Time\<close>\<close>
  activeMin :: nat
  activeMax :: nat
  active :: "(nat, txEntry) gomap"
  queuedMin :: nat
  queuedMax :: nat
  queued :: "(nat, txEntry) gomap"

section \<open>Configuration and tiers\<close>

record 's Tier =
  tier_Name :: string
  tier_Matcher :: "'s TierMatcher option"

record 's PriorityMempoolConfig =
  cfg_MaxTx :: int
  cfg_MaxQueuedPerSender :: int
  cfg_MaxQueuedTotal :: int
  cfg_QueuedGapTTL :: int
  cfg_Tiers :: "'s Tier list"
  cfg_AnteHandler :: "'s AnteHandler option"

record 's tierMatcher =
  tm_Name :: string
  tm_Matcher :: "'s TierMatcher option"

definition DefaultMaxQueuedPerSender :: int where
  "DefaultMaxQueuedPerSender = 64"

definition DefaultMaxQueuedTotal :: int where
  "DefaultMaxQueuedTotal = 1024"

definition DefaultQueuedGapTTL :: int where
  "DefaultQueuedGapTTL = 60 * 1000000000"

section \<open>Events\<close>

datatype AppMempoolEventType = EventTxInserted | EventTxRemoved | EventTxQueued

record AppMempoolEvent =
  ev_Type :: AppMempoolEventType
  ev_TxKey :: bytes
  ev_Tx :: bytes

section \<open>The mempool\<close>

text \<open>
  \<open>senders\<close> is a map to pointers: a sender state is an object of \<open>heap\<close>, named by its address,
  and a function that holds the pointer goes on using the object after the map has dropped it.
  \<open>freshRef\<close> is the next unused address. Entries are kept by value: the code changes an entry's
  fields only while it is in none of the pool's maps, and reads only the immutable fields of an
  entry it still holds after removing it. \<open>priorityIndex\<close> is the skip list, as the sequence of
  its values from \<open>Front\<close> to \<open>Back\<close>.
\<close>

record 's PriorityMempool =
  cfg :: "'s PriorityMempoolConfig"
  priorityIndex :: "txEntry list"
  entries :: "(txKey, txEntry) gomap"
  senders :: "(string, nat) gomap"
  heap :: "nat \<Rightarrow> senderState"
  freshRef :: nat
  orderSeq :: int
  tiers :: "'s tierMatcher list"
  tierDistribution :: "(string, nat) gomap"
  queuedCount :: int
  maxQueuedPerSender :: int
  maxQueuedTotal :: int
  queuedGapTTL :: int
  eventCh :: bool       \<comment> \<open>a channel has been stored\<close>
  appEventCh :: bool
  eventStop :: bool     \<comment> \<open>the stop channel is closed\<close>
  cometQueue :: "AppMempoolEvent list"
  appQueue :: "AppMempoolEvent list"
  cometNotify :: bool   \<comment> \<open>the one-slot notification channel holds a token\<close>
  appNotify :: bool

text \<open>
  The code outside the repository, as one record of parameters: bech32 encoding and decoding
  of an address, the account keeper's \<open>GetSequence\<close> (None is its error), the transaction
  encoder, CometBFT's transaction hash, and the two mutating operations of the skip list
  package, on the sequence of values from \<open>Front\<close> to \<open>Back\<close>.
\<close>

record 's env =
  AccAddress_String :: "bytes \<Rightarrow> string"
  AccAddressFromBech32 :: "string \<Rightarrow> bytes option"
  GetSequence :: "'s sdk_ctx \<Rightarrow> bytes \<Rightarrow> nat option"
  txEncoder :: "sdk_tx \<Rightarrow> string + bytes"
  Tx_Hash :: "bytes \<Rightarrow> bytes"
  skiplist_Set :: "txEntry \<Rightarrow> txEntry list \<Rightarrow> txEntry list"
  skiplist_Remove :: "txEntry \<Rightarrow> txEntry list \<Rightarrow> txEntry list"

section \<open>Errors\<close>

datatype mp_error =
    ErrNotSigVerifiableTx
  | ErrGetSignatures string
  | ErrNoSigner
  | ErrNilPubKey
  | ErrTxEncode string
  | ErrNotFeeTx
  | ErrFetchSequence string
  | ErrStaleNonce nat string nat
  | ErrFutureNonceNeedsExtension
  | ErrActiveTxHasPriority nat string int int
  | ErrQueuedTxHasPriority nat string int int
  | ErrMempoolTxMaxCapacity
  | ErrTxNotFound

section \<open>Helpers of utils.go and tx/extension.go\<close>

definition FirstSignature :: "sdk_tx \<Rightarrow> mp_error + (bytes \<times> nat)" where
  "FirstSignature tx =
     (if \<not> tx_sigVerifiable tx then Inl ErrNotSigVerifiableTx
      else case tx_GetSignaturesV2 tx of
        Inl err \<Rightarrow> Inl (ErrGetSignatures err)
      | Inr [] \<Rightarrow> Inl ErrNoSigner
      | Inr (sig # _) \<Rightarrow>
          (case sig_PubKey sig of
             None \<Rightarrow> Inl ErrNilPubKey
           | Some addr \<Rightarrow> Inr (addr, sig_Sequence sig)))"

definition txKeyFromTx :: "'s env \<Rightarrow> sdk_tx \<Rightarrow> mp_error + txKey" where
  "txKeyFromTx E tx =
     (case FirstSignature tx of
        Inl err \<Rightarrow> Inl err
      | Inr (addr, seq) \<Rightarrow> Inr \<lparr>sender = AccAddress_String E addr, nonce = seq\<rparr>)"

definition fetchSequence :: "'s env \<Rightarrow> 's sdk_ctx \<Rightarrow> string \<Rightarrow> nat \<times> bool" where
  "fetchSequence E ctx sndr =
     (case AccAddressFromBech32 E sndr of
        None \<Rightarrow> (0, False)
      | Some addr \<Rightarrow>
          (case GetSequence E ctx addr of
             None \<Rightarrow> (0, True)
           | Some seq \<Rightarrow> (seq, True)))"

definition ExtensionOptionQueuedTxTypeURL :: string where
  "ExtensionOptionQueuedTxTypeURL = ''/initia.tx.v1.ExtensionOptionQueuedTx''"

definition ExtensionOptionChecker :: "string option \<Rightarrow> bool" where
  "ExtensionOptionChecker any \<longleftrightarrow> any = Some ExtensionOptionQueuedTxTypeURL"

definition HasQueuedTxExtension :: "sdk_tx \<Rightarrow> bool" where
  "HasQueuedTxExtension tx =
     (case tx_GetExtensionOptions tx of
        None \<Rightarrow> False
      | Some opts \<Rightarrow> list_ex ExtensionOptionChecker opts)"

definition scoreByTierPriority :: "int \<Rightarrow> int \<Rightarrow> int" where
  "scoreByTierPriority tier priority = i64 (priority - i64 (tier * 2 ^ 50))"

end
