(* ===== verification/Mempool_Sender_State.thy ===== *)
theory Mempool_Sender_State
  imports Mempool_Types
begin

text \<open>
  Model of \<open>abcipp/mempool_sender_state.go\<close>: the sender cursor, the cached nonce ranges of the
  active and queued maps and their incremental maintenance, and the clamped rank. The lemmas
  show that the incremental bounds are exactly the minimum and maximum of the map's keys after
  every insertion and removal, whatever the gaps between the nonces, and count the steps of the
  boundary scan.
\<close>

section \<open>Operations\<close>

definition isEmpty :: "senderState \<Rightarrow> bool" where
  "isEmpty s \<longleftrightarrow> mlen (active s) = 0 \<and> mlen (queued s) = 0"

definition nextExpectedNonce :: "senderState \<Rightarrow> nat" where
  "nextExpectedNonce s =
     (if mlen (active s) = 0 then onChainSeq s
      else max (onChainSeq s) (u64 (activeMax s + 1)))"

definition setOnChainSeqLocked :: "senderState \<Rightarrow> nat \<Rightarrow> senderState" where
  "setOnChainSeqLocked s seq = s\<lparr>onChainSeq := max (onChainSeq s) seq\<rparr>"

definition resetActiveRangeLocked :: "senderState \<Rightarrow> senderState" where
  "resetActiveRangeLocked s = s\<lparr>activeMin := 0, activeMax := 0\<rparr>"

definition setActiveRangeOnInsertLocked :: "senderState \<Rightarrow> nat \<Rightarrow> senderState" where
  "setActiveRangeOnInsertLocked s n =
     (if mlen (active s) = 1 then s\<lparr>activeMin := n, activeMax := n\<rparr>
      else s\<lparr>activeMin := min (activeMin s) n, activeMax := max (activeMax s) n\<rparr>)"

text \<open>
  The two boundary scans: upwards \<open>for n := lo + 1; ; n++\<close> until a key is found or \<open>n\<close>
  reaches the upper bound, and downwards \<open>for n := hi - 1; ; n--\<close>. Inside the loops the
  counter moves towards the bound, so \<open>n + 1\<close> and \<open>n - 1\<close> do not wrap; the first value may,
  and the callers write the reduction out.
\<close>

function scanUp :: "(nat, 'v) gomap \<Rightarrow> nat \<Rightarrow> nat \<Rightarrow> nat" where
  "scanUp m n hi =
     (if mget m n \<noteq> None then n
      else if n \<ge> hi then hi
      else scanUp m (n + 1) hi)"
  by pat_completeness auto
termination by (relation "measure (\<lambda>(m, n, hi). hi - n)") auto

function scanDown :: "(nat, 'v) gomap \<Rightarrow> nat \<Rightarrow> nat \<Rightarrow> nat" where
  "scanDown m n lo =
     (if mget m n \<noteq> None then n
      else if n \<le> lo then lo
      else scanDown m (n - 1) lo)"
  by pat_completeness auto
termination by (relation "measure (\<lambda>(m, n, lo). n)") auto

declare scanUp.simps [simp del] scanDown.simps [simp del]

definition u64_pred :: "nat \<Rightarrow> nat" where
  "u64_pred n = (if n = 0 then 2 ^ 64 - 1 else n - 1)"

definition setActiveRangeOnRemoveLocked :: "senderState \<Rightarrow> nat \<Rightarrow> senderState" where
  "setActiveRangeOnRemoveLocked s removedNonce =
     (if mlen (active s) = 0 then resetActiveRangeLocked s
      else if removedNonce = activeMin s then
        s\<lparr>activeMin := scanUp (active s) (u64 (activeMin s + 1)) (activeMax s)\<rparr>
      else if removedNonce = activeMax s then
        s\<lparr>activeMax := scanDown (active s) (u64_pred (activeMax s)) (activeMin s)\<rparr>
      else s)"

definition resetQueuedRangeLocked :: "senderState \<Rightarrow> senderState" where
  "resetQueuedRangeLocked s = s\<lparr>queuedMin := 0, queuedMax := 0\<rparr>"

definition setQueuedRangeOnInsertLocked :: "senderState \<Rightarrow> nat \<Rightarrow> senderState" where
  "setQueuedRangeOnInsertLocked s n =
     (if mlen (queued s) = 1 then s\<lparr>queuedMin := n, queuedMax := n\<rparr>
      else s\<lparr>queuedMin := min (queuedMin s) n, queuedMax := max (queuedMax s) n\<rparr>)"

definition setQueuedRangeOnRemoveLocked :: "senderState \<Rightarrow> nat \<Rightarrow> senderState" where
  "setQueuedRangeOnRemoveLocked s removedNonce =
     (if mlen (queued s) = 0 then resetQueuedRangeLocked s
      else if removedNonce = queuedMin s then
        s\<lparr>queuedMin := scanUp (queued s) (u64 (queuedMin s + 1)) (queuedMax s)\<rparr>
      else if removedNonce = queuedMax s then
        s\<lparr>queuedMax := scanDown (queued s) (u64_pred (queuedMax s)) (queuedMin s)\<rparr>
      else s)"

text \<open>
  \<open>clampTo\<close> is the comparison the code writes out twice: the candidate takes the rank of the
  earlier entry when its own would be better.
\<close>

definition clampTo :: "txEntry \<Rightarrow> int \<Rightarrow> int \<Rightarrow> int \<times> int" where
  "clampTo prev cp co =
     (if cp > e_clampedPriority prev \<or> (cp = e_clampedPriority prev \<and> co < e_clampedOrder prev)
      then (e_clampedPriority prev, e_clampedOrder prev) else (cp, co))"

definition computeClampedRankLocked ::
    "senderState option \<Rightarrow> int \<Rightarrow> int \<Rightarrow> int \<Rightarrow> nat \<Rightarrow> int \<times> int" where
  "computeClampedRankLocked so tier priority order n =
     (let cp = scoreByTierPriority tier priority; co = order in
      case so of
        None \<Rightarrow> (cp, co)
      | Some s \<Rightarrow>
          (case (if n > 0 then mget (active s) (n - 1) else None) of
             Some prev \<Rightarrow> clampTo prev cp co
           | None \<Rightarrow>
               (if mlen (active s) > 0 \<and> n > activeMax s then
                  (case mget (active s) (activeMax s) of
                     Some tail \<Rightarrow> clampTo tail cp co
                   | None \<Rightarrow> (cp, co))
                else (cp, co))))"

section \<open>Exact bounds\<close>

definition range_ok :: "(nat, 'v) gomap \<Rightarrow> nat \<Rightarrow> nat \<Rightarrow> bool" where
  "range_ok m lo hi \<longleftrightarrow>
     (if mget m = Map.empty then lo = 0 \<and> hi = 0
      else lo \<in> mdom m \<and> hi \<in> mdom m \<and> (\<forall>n\<in>mdom m. lo \<le> n \<and> n \<le> hi))"

lemma range_okD:
  "range_ok m lo hi \<Longrightarrow> mget m n = Some v \<Longrightarrow> lo \<le> n \<and> n \<le> hi \<and> lo \<in> mdom m \<and> hi \<in> mdom m"
  by (auto simp: range_ok_def split: if_splits)

lemma range_okI:
  "lo \<in> mdom m \<Longrightarrow> hi \<in> mdom m \<Longrightarrow> (\<And>n. n \<in> mdom m \<Longrightarrow> lo \<le> n \<and> n \<le> hi) \<Longrightarrow> range_ok m lo hi"
  by (auto simp: range_ok_def)

lemma scanUp_least:
  "n \<le> hi \<Longrightarrow> hi \<in> mdom m \<Longrightarrow>
   scanUp m n hi \<in> mdom m \<and> n \<le> scanUp m n hi \<and> scanUp m n hi \<le> hi \<and>
   (\<forall>k\<in>mdom m. n \<le> k \<longrightarrow> scanUp m n hi \<le> k)"
proof (induction m n hi rule: scanUp.induct)
  case (1 m n hi)
  show ?case
  proof (cases "mget m n")
    case (Some v)
    then show ?thesis using 1(2) by (simp add: scanUp.simps [of m n hi] domIff)
  next
    case None
    then have "n < hi" using 1(2,3) by (metis domIff le_neq_implies_less)
    moreover have "n + 1 \<le> k" if "k \<in> mdom m" "n \<le> k" for k
      using None that by (cases "n = k") auto
    ultimately show ?thesis using None 1(1) 1(3) by (simp add: scanUp.simps [of m n hi])
  qed
qed

lemma scanDown_greatest:
  "lo \<le> n \<Longrightarrow> lo \<in> mdom m \<Longrightarrow>
   scanDown m n lo \<in> mdom m \<and> lo \<le> scanDown m n lo \<and> scanDown m n lo \<le> n \<and>
   (\<forall>k\<in>mdom m. k \<le> n \<longrightarrow> k \<le> scanDown m n lo)"
proof (induction m n lo rule: scanDown.induct)
  case (1 m n lo)
  show ?case
  proof (cases "mget m n")
    case (Some v)
    then show ?thesis using 1(2) by (simp add: scanDown.simps [of m n lo] domIff)
  next
    case None
    then have "lo < n" using 1(2,3) by (metis domIff le_neq_implies_less)
    moreover have "k \<le> n - 1" if "k \<in> mdom m" "k \<le> n" for k
      using None that by (cases "n = k") auto
    moreover have "lo \<le> n - 1" using \<open>lo < n\<close> by simp
    ultimately show ?thesis using None 1(1) 1(3) by (auto simp: scanDown.simps [of m n lo] intro: le_trans)
  qed
qed

text \<open>
  The contract between a map with cached bounds and its incremental maintenance, as the code
  has it twice: once for the active and once for the queued nonces.
\<close>

locale cached_range =
  fixes mp :: "'s \<Rightarrow> (nat, 'v) gomap"
    and lo hi :: "'s \<Rightarrow> nat"
    and on_insert on_remove :: "'s \<Rightarrow> nat \<Rightarrow> 's"
  assumes mp_insert: "mp (on_insert s n) = mp s"
    and lo_insert: "lo (on_insert s n) = (if mlen (mp s) = 1 then n else min (lo s) n)"
    and hi_insert: "hi (on_insert s n) = (if mlen (mp s) = 1 then n else max (hi s) n)"
    and mp_remove: "mp (on_remove s n) = mp s"
    and lo_remove: "lo (on_remove s n) =
      (if mlen (mp s) = 0 then 0
       else if n = lo s then scanUp (mp s) (u64 (lo s + 1)) (hi s) else lo s)"
    and hi_remove: "hi (on_remove s n) =
      (if mlen (mp s) = 0 then 0
       else if n = lo s then hi s
       else if n = hi s then scanDown (mp s) (u64_pred (hi s)) (lo s) else hi s)"
begin

text \<open>After the map has gained the key \<open>n\<close>, the insertion hook makes the bounds exact again.\<close>

lemma insert_exact:
  assumes "range_ok m (lo s) (hi s)" and "mp s = mput m n v"
  shows "range_ok (mp (on_insert s n)) (lo (on_insert s n)) (hi (on_insert s n))"
proof (cases "mlen (mp s) = 1")
  case True
  have "mdom (mp s) = {n}"
  proof -
    from True obtain k where "mdom (mp s) = {k}" by (auto simp: gm.len_card card_1_singleton_iff)
    moreover have "n \<in> mdom (mp s)" using assms(2) by simp
    ultimately show ?thesis by simp
  qed
  then show ?thesis using True by (auto simp: range_ok_def mp_insert lo_insert hi_insert dom_def)
next
  case False
  have "mget m \<noteq> Map.empty"
  proof
    assume "mget m = Map.empty"
    then have "mlen (mp s) = 1" using assms(2) by (simp add: gm.len_put gm.len_0)
    with False show False by simp
  qed
  then have "lo s \<in> mdom m" "hi s \<in> mdom m" and b: "\<forall>k\<in>mdom m. lo s \<le> k \<and> k \<le> hi s"
    using assms(1) by (simp_all add: range_ok_def)
  then have "min (lo s) n \<in> mdom (mp s)" "max (hi s) n \<in> mdom (mp s)"
    using assms(2) by (auto simp: min_def max_def)
  moreover have "min (lo s) n \<le> k \<and> k \<le> max (hi s) n" if "k \<in> mdom (mp s)" for k
    using that b assms(2) by (cases "k = n") (auto simp: min_le_iff_disj le_max_iff_disj)
  ultimately show ?thesis using False
    by (simp add: range_okI mp_insert lo_insert hi_insert)
qed

text \<open>After the map has lost the key \<open>n\<close>, the removal hook makes the bounds exact again.\<close>

lemma remove_exact:
  assumes ok: "range_ok m (lo s) (hi s)" and mp: "mp s = mdel m n" and n: "n \<in> mdom m"
    and bound: "\<forall>k\<in>mdom m. k < 2 ^ 64"
  shows "range_ok (mp (on_remove s n)) (lo (on_remove s n)) (hi (on_remove s n))"
proof (cases "mlen (mp s) = 0")
  case True
  then show ?thesis by (simp add: range_ok_def mp_remove lo_remove hi_remove gm.len_0)
next
  case False
  then obtain k where k: "k \<in> mdom m" "k \<noteq> n" using mp by (auto simp: gm.len_0 fun_eq_iff split: if_splits)
  have dom: "mdom (mp s) = mdom m - {n}" using mp by auto
  have lohi: "lo s \<in> mdom m" "hi s \<in> mdom m" "\<forall>j\<in>mdom m. lo s \<le> j \<and> j \<le> hi s"
    using ok n by (auto simp: range_ok_def split: if_splits)
  have "lo s \<le> k" "k \<le> hi s" "lo s \<le> n" "n \<le> hi s" using lohi(3) k(1) n by blast+
  with k(2) have lt: "lo s < hi s" by linarith
  have below: "lo s \<le> k" and above: "k \<le> hi s" if "k \<in> mdom (mp s)" for k
    using that lohi(3) dom by auto
  consider "n = lo s" | "n = hi s" "n \<noteq> lo s" | "n \<noteq> lo s" "n \<noteq> hi s" by blast
  then show ?thesis
  proof cases
    case 1
    have "hi s < 2 ^ 64" using lohi(2) bound by blast
    then have u: "u64 (lo s + 1) = lo s + 1" using lt by (intro u64_id) simp
    have hi: "hi s \<in> mdom (mp s)" using 1 lt lohi dom by simp
    have "lo s + 1 \<le> k" if "k \<in> mdom (mp s)" for k
      using that below [OF that] 1 dom by (cases "k = lo s") auto
    then show ?thesis
      using scanUp_least [of "lo s + 1" "hi s" "mp s"] 1 False lt u hi above
      by (intro range_okI) (simp_all add: mp_remove lo_remove hi_remove)
  next
    case 2
    have u: "u64_pred (hi s) = hi s - 1" using lt by (simp add: u64_pred_def)
    have lo: "lo s \<in> mdom (mp s)" using 2 lohi dom by simp
    have "k \<le> hi s - 1" if "k \<in> mdom (mp s)" for k
      using that above [OF that] 2 dom by (cases "k = hi s") auto
    then show ?thesis
      using scanDown_greatest [of "lo s" "hi s - 1" "mp s"] 2 False lt u lo below
      by (intro range_okI) (simp_all add: mp_remove lo_remove hi_remove)
  next
    case 3
    then show ?thesis using False lohi dom below above
      by (intro range_okI) (simp_all add: mp_remove lo_remove hi_remove)
  qed
qed

end

text \<open>The two instances.\<close>

interpretation act: cached_range active activeMin activeMax setActiveRangeOnInsertLocked
  setActiveRangeOnRemoveLocked
  by unfold_locales
    (simp_all add: setActiveRangeOnInsertLocked_def setActiveRangeOnRemoveLocked_def resetActiveRangeLocked_def)

interpretation que: cached_range queued queuedMin queuedMax setQueuedRangeOnInsertLocked
  setQueuedRangeOnRemoveLocked
  by unfold_locales
    (simp_all add: setQueuedRangeOnInsertLocked_def setQueuedRangeOnRemoveLocked_def resetQueuedRangeLocked_def)

lemma setActiveRange_frame [simp]:
  "onChainSeq (setActiveRangeOnInsertLocked s n) = onChainSeq s"
  "onChainSeq (setActiveRangeOnRemoveLocked s n) = onChainSeq s"
  "queued (setActiveRangeOnInsertLocked s n) = queued s"
  "queued (setActiveRangeOnRemoveLocked s n) = queued s"
  "queuedMin (setActiveRangeOnInsertLocked s n) = queuedMin s"
  "queuedMin (setActiveRangeOnRemoveLocked s n) = queuedMin s"
  "queuedMax (setActiveRangeOnInsertLocked s n) = queuedMax s"
  "queuedMax (setActiveRangeOnRemoveLocked s n) = queuedMax s"
  by (simp_all add: setActiveRangeOnInsertLocked_def setActiveRangeOnRemoveLocked_def resetActiveRangeLocked_def)

lemma setQueuedRange_frame [simp]:
  "onChainSeq (setQueuedRangeOnInsertLocked s n) = onChainSeq s"
  "onChainSeq (setQueuedRangeOnRemoveLocked s n) = onChainSeq s"
  "active (setQueuedRangeOnInsertLocked s n) = active s"
  "active (setQueuedRangeOnRemoveLocked s n) = active s"
  "activeMin (setQueuedRangeOnInsertLocked s n) = activeMin s"
  "activeMin (setQueuedRangeOnRemoveLocked s n) = activeMin s"
  "activeMax (setQueuedRangeOnInsertLocked s n) = activeMax s"
  "activeMax (setQueuedRangeOnRemoveLocked s n) = activeMax s"
  by (simp_all add: setQueuedRangeOnInsertLocked_def setQueuedRangeOnRemoveLocked_def resetQueuedRangeLocked_def)

lemmas [simp] = act.mp_insert act.mp_remove que.mp_insert que.mp_remove

section \<open>Cost of the boundary scan\<close>

text \<open>The number of iterations of the upward scan.\<close>

function scanUp_steps :: "(nat, 'v) gomap \<Rightarrow> nat \<Rightarrow> nat \<Rightarrow> nat" where
  "scanUp_steps m n hi =
     (if mget m n \<noteq> None then 1
      else if n \<ge> hi then 1
      else 1 + scanUp_steps m (n + 1) hi)"
  by pat_completeness auto
termination by (relation "measure (\<lambda>(m, n, hi). hi - n)") auto

declare scanUp_steps.simps [simp del]

lemma scanUp_steps_eq: "n \<le> hi \<Longrightarrow> scanUp_steps m n hi = scanUp m n hi - n + 1 \<and> n \<le> scanUp m n hi"
proof (induction m n hi rule: scanUp_steps.induct)
  case (1 m n hi)
  then show ?case
    by (auto simp: scanUp_steps.simps [of m n hi] scanUp.simps [of m n hi])
qed

section \<open>The clamped rank\<close>

text \<open>\<open>rankWorse cp co e\<close>: the rank \<open>(cp, co)\<close> does not come before the rank of \<open>e\<close>.\<close>

definition rankWorse :: "int \<Rightarrow> int \<Rightarrow> txEntry \<Rightarrow> bool" where
  "rankWorse cp co e \<longleftrightarrow>
     cp < e_clampedPriority e \<or> (cp = e_clampedPriority e \<and> e_clampedOrder e \<le> co)"

lemma clampTo_worse: "clampTo prev cp co = (cp', co') \<Longrightarrow> rankWorse cp' co' prev"
  by (auto simp: clampTo_def rankWorse_def split: if_splits)

lemma clampTo_order: "clampTo prev cp co = (cp', co') \<Longrightarrow> co' = co \<or> co' = e_clampedOrder prev"
  by (auto simp: clampTo_def split: if_splits)

end
