(* ===== verification/Mempool_Tier.thy ===== *)
theory Mempool_Tier
  imports Mempool_Types
begin

text \<open>
  Model of \<open>abcipp/mempool_tier.go\<close>: the order of the active index, tier selection, and the
  canonical list of tiers. The comparator is shown to be the strict total order of the tuple
  (clamped priority descending, clamped order, sender, nonce); what the code relies on of the
  skip list package is stated over it.
\<close>

section \<open>Operations\<close>

definition compareEntries :: "txEntry \<Rightarrow> txEntry \<Rightarrow> int" where
  "compareEntries left right =
     (let leftScore = e_clampedPriority left; rightScore = e_clampedPriority right in
      if leftScore \<noteq> rightScore then (if leftScore > rightScore then -1 else 1)
      else if e_clampedOrder left \<noteq> e_clampedOrder right then
        (if e_clampedOrder left < e_clampedOrder right then -1 else 1)
      else if sender (e_key left) = sender (e_key right) \<and> nonce (e_key left) \<noteq> nonce (e_key right) then
        (if nonce (e_key left) < nonce (e_key right) then -1 else 1)
      else if sender (e_key left) \<noteq> sender (e_key right) then
        stringsCompare (sender (e_key left)) (sender (e_key right))
      else if nonce (e_key left) < nonce (e_key right) then -1
      else if nonce (e_key left) > nonce (e_key right) then 1
      else 0)"

text \<open>The loop of \<open>selectTier\<close> over the remaining matchers, from index \<open>idx\<close>.\<close>

fun selectTier_from :: "'s tierMatcher list \<Rightarrow> int \<Rightarrow> 's sdk_ctx \<Rightarrow> sdk_tx \<Rightarrow> int option" where
  "selectTier_from [] idx ctx tx = None"
| "selectTier_from (t # ts) idx ctx tx =
     (if (case tm_Matcher t of None \<Rightarrow> True | Some f \<Rightarrow> f ctx tx) then Some idx
      else selectTier_from ts (idx + 1) ctx tx)"

definition selectTier :: "'s PriorityMempool \<Rightarrow> 's sdk_ctx \<Rightarrow> sdk_tx \<Rightarrow> int" where
  "selectTier p ctx tx =
     (case selectTier_from (tiers p) 0 ctx tx of
        Some idx \<Rightarrow> idx
      | None \<Rightarrow> int (length (tiers p)) - 1)"

definition tierName :: "'s PriorityMempool \<Rightarrow> int \<Rightarrow> string" where
  "tierName p idx =
     (if idx < 0 \<or> idx \<ge> int (length (tiers p)) then '''' else tm_Name (tiers p ! nat idx))"

fun buildTierMatchers_from :: "'s Tier list \<Rightarrow> nat \<Rightarrow> 's tierMatcher list" where
  "buildTierMatchers_from [] idx = []"
| "buildTierMatchers_from (tier # rest) idx =
     (case tier_Matcher tier of
        None \<Rightarrow> buildTierMatchers_from rest (idx + 1)
      | Some f \<Rightarrow>
          (let trimmed = TrimSpace (tier_Name tier);
               name = (if trimmed = '''' then ''tier-'' @ itoa idx else trimmed)
           in \<lparr>tm_Name = name, tm_Matcher = Some f\<rparr> # buildTierMatchers_from rest (idx + 1)))"

definition buildTierMatchers :: "'s PriorityMempoolConfig \<Rightarrow> 's tierMatcher list" where
  "buildTierMatchers c =
     buildTierMatchers_from (cfg_Tiers c) 0 @
     [\<lparr>tm_Name = ''default'', tm_Matcher = Some (\<lambda>ctx tx. True)\<rparr>]"

definition initTierDistribution :: "'s tierMatcher list \<Rightarrow> (string, nat) gomap" where
  "initTierDistribution ts =
     fold (\<lambda>t dist. if tm_Name t = '''' then dist else mput dist (tm_Name t) 0) ts mempty"

definition isBetterThan :: "txEntry \<Rightarrow> int \<Rightarrow> int \<Rightarrow> bool" where
  "isBetterThan entry clampedPriority clampedOrder =
     (if clampedPriority \<noteq> e_clampedPriority entry then clampedPriority > e_clampedPriority entry
      else clampedOrder < e_clampedOrder entry)"

section \<open>The order of the index\<close>

definition rankOf :: "txEntry \<Rightarrow> int \<times> int \<times> string \<times> nat" where
  "rankOf e = (- e_clampedPriority e, e_clampedOrder e, sender (e_key e), nonce (e_key e))"

definition index_sorted :: "('a \<Rightarrow> 'a \<Rightarrow> int) \<Rightarrow> 'a list \<Rightarrow> bool" where
  "index_sorted cmp l \<longleftrightarrow> sorted_wrt (\<lambda>a b. cmp a b < 0) l"

fun insort_cmp :: "('a \<Rightarrow> 'a \<Rightarrow> int) \<Rightarrow> 'a \<Rightarrow> 'a list \<Rightarrow> 'a list" where
  "insort_cmp cmp e [] = [e]"
| "insort_cmp cmp e (x # xs) =
     (if cmp e x < 0 then e # x # xs else if cmp e x = 0 then e # xs
      else x # insort_cmp cmp e xs)"

text \<open>
  A comparison function in the style of \<open>strings.Compare\<close>, given by a key in a linear order.
  The lemmas are what a client of a sorted index needs.
\<close>

locale comparator =
  fixes cmp :: "'a \<Rightarrow> 'a \<Rightarrow> int"
    and key :: "'a \<Rightarrow> 'k :: linorder"
  assumes cmp_lt: "cmp a b < 0 \<longleftrightarrow> key a < key b"
    and cmp_gt: "cmp a b > 0 \<longleftrightarrow> key b < key a"
begin

lemma cmp_eq: "cmp a b = 0 \<longleftrightarrow> key a = key b"
  using cmp_lt [of a b] cmp_gt [of a b] by (cases "cmp a b" "0 :: int" rule: linorder_cases) auto

lemma cmp_antisym: "cmp a b < 0 \<longleftrightarrow> cmp b a > 0"
  by (simp add: cmp_lt cmp_gt)

lemma cmp_trans: "cmp a b < 0 \<Longrightarrow> cmp b c < 0 \<Longrightarrow> cmp a c < 0"
  by (simp add: cmp_lt)

lemma index_sorted_Cons:
  "index_sorted cmp (a # l) \<longleftrightarrow> (\<forall>x\<in>set l. key a < key x) \<and> index_sorted cmp l"
  by (simp add: index_sorted_def cmp_lt)

lemma index_sorted_keys: "index_sorted cmp l \<Longrightarrow> distinct (map key l)"
  by (induction l) (auto simp: index_sorted_Cons)

lemma index_sorted_distinct: "index_sorted cmp l \<Longrightarrow> distinct l"
  using index_sorted_keys by (auto simp: distinct_map)

lemma index_sorted_inj: "index_sorted cmp l \<Longrightarrow> a \<in> set l \<Longrightarrow> b \<in> set l \<Longrightarrow> key a = key b \<Longrightarrow> a = b"
  using index_sorted_keys [of l] by (auto simp: distinct_map dest: inj_onD)

lemma index_sorted_filter: "index_sorted cmp l \<Longrightarrow> index_sorted cmp (filter P l)"
  unfolding index_sorted_def by (rule sorted_wrt_filter)

text \<open>Two strictly sorted sequences with the same elements are the same sequence.\<close>

lemma index_sorted_unique:
  "index_sorted cmp l \<Longrightarrow> index_sorted cmp l' \<Longrightarrow> set l = set l' \<Longrightarrow> l = l'"
proof (induction l arbitrary: l')
  case (Cons a l)
  then obtain b m where l': "l' = b # m" by (cases l') auto
  have hd: "\<forall>x\<in>set l. key a < key x" "\<forall>x\<in>set m. key b < key x"
    using Cons.prems(1,2) by (simp_all add: index_sorted_Cons l')
  have sets: "insert a (set l) = insert b (set m)" using Cons.prems(3) l' by simp
  have "a = b"
  proof (rule ccontr)
    assume "a \<noteq> b"
    with sets have "a \<in> set m" "b \<in> set l" by auto
    with hd show False by (meson less_asym)
  qed
  from this sets hd have "set l = set m" by auto
  have "index_sorted cmp l" "index_sorted cmp m"
    using Cons.prems(1,2) by (simp_all add: index_sorted_Cons l')
  then have "l = m" using Cons.IH [of m] \<open>set l = set m\<close> by blast
  with \<open>a = b\<close> l' show ?case by simp
qed simp

lemma set_insort_cmp:
  "index_sorted cmp l \<Longrightarrow> set (insort_cmp cmp e l) = insert e {x \<in> set l. cmp x e \<noteq> 0}"
proof (induction l)
  case (Cons x l)
  then have l: "index_sorted cmp l" and x: "\<forall>y\<in>set l. key x < key y"
    by (simp_all add: index_sorted_Cons)
  show ?case
  proof (cases "cmp e x" "0 :: int" rule: linorder_cases)
    case less
    then have "\<forall>y\<in>set (x # l). cmp y e \<noteq> 0" using x by (auto simp: cmp_lt cmp_eq)
    with less show ?thesis by auto
  next
    case equal
    then have "\<forall>y\<in>set l. cmp y e \<noteq> 0" using x by (auto simp: cmp_eq)
    with equal show ?thesis by (auto simp: cmp_eq cmp_lt)
  next
    case greater
    then have "cmp x e \<noteq> 0" by (simp add: cmp_gt cmp_eq)
    with greater show ?thesis using Cons.IH [OF l] by auto
  qed
qed simp

lemma sorted_insort_cmp: "index_sorted cmp l \<Longrightarrow> index_sorted cmp (insort_cmp cmp e l)"
proof (induction l)
  case (Cons x l)
  then have l: "index_sorted cmp l" and x: "\<forall>y\<in>set l. key x < key y"
    by (simp_all add: index_sorted_Cons)
  show ?case
  proof (cases "cmp e x" "0 :: int" rule: linorder_cases)
    case greater
    then show ?thesis using Cons.IH [OF l] x set_insort_cmp [OF l, of e]
      by (auto simp: index_sorted_Cons cmp_gt cmp_lt cmp_eq)
  qed (use l x in \<open>auto simp: index_sorted_Cons cmp_lt cmp_eq\<close>)
qed (simp add: index_sorted_def)

end

lemma compareEntries_cases:
  "compareEntries a b = (if rankOf a < rankOf b then -1 else if rankOf a = rankOf b then 0 else 1)"
proof (cases "e_clampedPriority a = e_clampedPriority b \<and> e_clampedOrder a = e_clampedOrder b")
  case True
  then show ?thesis
    by (cases "sender (e_key a)" "sender (e_key b)" rule: linorder_cases)
      (auto simp: compareEntries_def rankOf_def stringsCompare_def Let_def)
next
  case False
  then show ?thesis by (auto simp: compareEntries_def rankOf_def Let_def)
qed

interpretation ce: comparator compareEntries rankOf
  by unfold_locales (auto simp: compareEntries_cases)

text \<open>
  What the code relies on of \<open>skiplist\<close> with this comparator: \<open>Set\<close> keeps the list ordered,
  replaces the element with an equal key if there is one and adds the new element otherwise;
  \<open>Remove\<close> drops the element with an equal key.
\<close>

definition skiplist_ok :: "'s env \<Rightarrow> bool" where
  "skiplist_ok E \<longleftrightarrow>
     (\<forall>e l. index_sorted compareEntries l \<longrightarrow>
        index_sorted compareEntries (skiplist_Set E e l) \<and>
        set (skiplist_Set E e l) = insert e {x \<in> set l. compareEntries x e \<noteq> 0} \<and>
        skiplist_Remove E e l = filter (\<lambda>x. compareEntries x e \<noteq> 0) l)"

lemma skiplist_ok_reference:
  "skiplist_Set E = insort_cmp compareEntries \<Longrightarrow>
   skiplist_Remove E = (\<lambda>e. filter (\<lambda>x. compareEntries x e \<noteq> 0)) \<Longrightarrow> skiplist_ok E"
  by (simp add: skiplist_ok_def ce.sorted_insort_cmp ce.set_insort_cmp)

section \<open>Tiers\<close>

lemma selectTier_from_bounds:
  "selectTier_from ts i ctx tx = Some k \<Longrightarrow> i \<le> k \<and> k < i + int (length ts)"
proof (induction ts arbitrary: i)
  case (Cons t ts)
  show ?case
  proof (cases "case tm_Matcher t of None \<Rightarrow> True | Some f \<Rightarrow> f ctx tx")
    case False
    with Cons.prems have "selectTier_from ts (i + 1) ctx tx = Some k" by simp
    from Cons.IH [OF this] show ?thesis by simp
  qed (use Cons.prems in simp)
qed simp

lemma selectTier_bounds:
  assumes "tiers p \<noteq> []"
  shows "0 \<le> selectTier p ctx tx \<and> selectTier p ctx tx < int (length (tiers p))"
proof (cases "selectTier_from (tiers p) 0 ctx tx")
  case None
  moreover have "0 < length (tiers p)" using assms by simp
  ultimately show ?thesis by (simp add: selectTier_def)
next
  case (Some k)
  with selectTier_from_bounds [OF Some] show ?thesis by (simp add: selectTier_def)
qed

end
