(* ===== verification/Mempool_Core.thy ===== *)
theory Mempool_Core
  imports Mempool_Sender_State Mempool_Tier
begin

text \<open>
  Model of the shared building blocks of \<open>abcipp/mempool.go\<close> and \<open>abcipp/mempool_insert.go\<close>:
  construction, event queues (\<open>enqueueEvent\<close> of \<open>abcipp/mempool_event.go\<close>), the bookkeeping of
  one entry in the active index, the capacity check, and the queued pool of one sender. A
  \<open>*senderState\<close> argument is the address of the object in the heap.
\<close>

section \<open>Construction\<close>

definition emptySender :: senderState where
  "emptySender =
     \<lparr>onChainSeq = 0, gapSince = None, activeMin = 0, activeMax = 0, active = mempty,
      queuedMin = 0, queuedMax = 0, queued = mempty\<rparr>"

definition NewPriorityMempool :: "'s PriorityMempoolConfig \<Rightarrow> 's PriorityMempool" where
  "NewPriorityMempool c =
     (let ts = buildTierMatchers c;
          maxQPS = (if cfg_MaxQueuedPerSender c \<le> 0 then DefaultMaxQueuedPerSender
                    else cfg_MaxQueuedPerSender c);
          maxQT = (if cfg_MaxQueuedTotal c \<le> 0 then DefaultMaxQueuedTotal
                   else cfg_MaxQueuedTotal c);
          gapTTL = (if cfg_QueuedGapTTL c \<le> 0 then DefaultQueuedGapTTL else cfg_QueuedGapTTL c)
      in \<lparr>cfg = c, priorityIndex = [], entries = mempty, senders = mempty,
          heap = (\<lambda>_. emptySender), freshRef = 0, orderSeq = 0, tiers = ts,
          tierDistribution = initTierDistribution ts, queuedCount = 0,
          maxQueuedPerSender = maxQPS, maxQueuedTotal = maxQT, queuedGapTTL = gapTTL,
          eventCh = False, appEventCh = False, eventStop = False,
          cometQueue = [], appQueue = [], cometNotify = False, appNotify = False\<rparr>)"

definition SetMaxQueuedPerSender :: "'s PriorityMempool \<Rightarrow> int \<Rightarrow> 's PriorityMempool" where
  "SetMaxQueuedPerSender p n = p\<lparr>maxQueuedPerSender := n\<rparr>"

definition updSender ::
    "'s PriorityMempool \<Rightarrow> nat \<Rightarrow> (senderState \<Rightarrow> senderState) \<Rightarrow> 's PriorityMempool" where
  "updSender p r f = p\<lparr>heap := (heap p)(r := f (heap p r))\<rparr>"

definition getOrCreateSenderLocked :: "'s PriorityMempool \<Rightarrow> string \<Rightarrow> 's PriorityMempool \<times> nat" where
  "getOrCreateSenderLocked p s =
     (case mget (senders p) s of
        Some r \<Rightarrow> (p, r)
      | None \<Rightarrow>
          (let r = freshRef p in
           (p\<lparr>heap := (heap p)(r := emptySender), freshRef := r + 1,
              senders := mput (senders p) s r\<rparr>, r)))"

definition cleanupSenderLocked :: "'s PriorityMempool \<Rightarrow> string \<Rightarrow> 's PriorityMempool" where
  "cleanupSenderLocked p s =
     (case mget (senders p) s of
        None \<Rightarrow> p
      | Some r \<Rightarrow> if isEmpty (heap p r) then p\<lparr>senders := mdel (senders p) s\<rparr> else p)"

definition nextOrder :: "'s PriorityMempool \<Rightarrow> 's PriorityMempool \<times> int" where
  "nextOrder p = (let n = i64 (orderSeq p + 1) in (p\<lparr>orderSeq := n\<rparr>, n))"

section \<open>Event queues\<close>

definition enqueueEvent ::
    "'s env \<Rightarrow> 's PriorityMempool \<Rightarrow> AppMempoolEventType \<Rightarrow> bytes \<Rightarrow> 's PriorityMempool" where
  "enqueueEvent E p eventType txBytes =
     (let hasCometCh = eventCh p; hasAppCh = appEventCh p in
      if \<not> hasCometCh \<and> \<not> hasAppCh then p
      else
        let ev = \<lparr>ev_Type = eventType, ev_TxKey = Tx_Hash E txBytes, ev_Tx = txBytes\<rparr> in
        if eventStop p then p
        else
          let toComet = hasCometCh \<and> eventType \<noteq> EventTxQueued in
          p\<lparr>cometQueue := (if toComet then cometQueue p @ [ev] else cometQueue p),
            appQueue := (if hasAppCh then appQueue p @ [ev] else appQueue p),
            cometNotify := (cometNotify p \<or> toComet),
            appNotify := (appNotify p \<or> hasAppCh)\<rparr>)"

definition enqueueRemovedEvents ::
    "'s env \<Rightarrow> 's PriorityMempool \<Rightarrow> txEntry list \<Rightarrow> 's PriorityMempool" where
  "enqueueRemovedEvents E p es = fold (\<lambda>e q. enqueueEvent E q EventTxRemoved (e_bytes e)) es p"

definition enqueueInsertedEvents ::
    "'s env \<Rightarrow> 's PriorityMempool \<Rightarrow> txEntry list \<Rightarrow> 's PriorityMempool" where
  "enqueueInsertedEvents E p es = fold (\<lambda>e q. enqueueEvent E q EventTxInserted (e_bytes e)) es p"

section \<open>One entry in the active index\<close>

text \<open>
  A tier counter counts entries of \<open>entries\<close>, so it stays far below \<open>2 ^ 64\<close> and its increment
  is written without a reduction; the same holds for \<open>queuedCount\<close>.
\<close>

definition addEntryLocked :: "'s env \<Rightarrow> 's PriorityMempool \<Rightarrow> txEntry \<Rightarrow> 's PriorityMempool" where
  "addEntryLocked E p e =
     (let p1 = p\<lparr>priorityIndex := skiplist_Set E e (priorityIndex p),
                 entries := mput (entries p) (e_key e) e\<rparr>;
          (p2, r) = getOrCreateSenderLocked p1 (sender (e_key e));
          n = nonce (e_key e);
          p3 = updSender p2 r (\<lambda>ss. setActiveRangeOnInsertLocked (ss\<lparr>active := mput (active ss) n e\<rparr>) n);
          name = tierName p3 (e_tier e)
      in if name = '''' then p3
         else p3\<lparr>tierDistribution :=
                   mput (tierDistribution p3) name
                     ((case mget (tierDistribution p3) name of Some c \<Rightarrow> c | None \<Rightarrow> 0) + 1)\<rparr>)"

definition removeEntryLocked :: "'s env \<Rightarrow> 's PriorityMempool \<Rightarrow> txEntry \<Rightarrow> 's PriorityMempool" where
  "removeEntryLocked E p e =
     (let p1 = p\<lparr>priorityIndex := skiplist_Remove E e (priorityIndex p),
                 entries := mdel (entries p) (e_key e)\<rparr>;
          n = nonce (e_key e);
          p2 = (case mget (senders p1) (sender (e_key e)) of
                  None \<Rightarrow> p1
                | Some r \<Rightarrow>
                    (if mget (active (heap p1 r)) n = None then p1
                     else updSender p1 r (\<lambda>ss.
                            setActiveRangeOnRemoveLocked (ss\<lparr>active := mdel (active ss) n\<rparr>) n)));
          name = tierName p2 (e_tier e)
      in if name = '''' then p2
         else (case mget (tierDistribution p2) name of
                 Some count \<Rightarrow>
                   (if count > 0
                    then p2\<lparr>tierDistribution := mput (tierDistribution p2) name (count - 1)\<rparr>
                    else p2)
               | None \<Rightarrow> p2))"

section \<open>Capacity\<close>

text \<open>
  The eviction loop of \<open>canAcceptLocked\<close>: \<open>nodes\<close> is what is left of the index from \<open>Back\<close>
  towards \<open>Front\<close>.
\<close>

fun evictLoop ::
    "txKey option \<Rightarrow> int \<Rightarrow> int \<Rightarrow> int \<Rightarrow> int \<Rightarrow> txEntry list \<Rightarrow> txEntry list \<Rightarrow> bool \<times> txEntry list" where
  "evictLoop exclude cp co targetLen curLen nodes evictList =
     (if curLen > targetLen then
        (case nodes of
           [] \<Rightarrow> (False, evictList)
         | e # rest \<Rightarrow>
             (if exclude = Some (e_key e) then
                evictLoop exclude cp co targetLen curLen rest evictList
              else if \<not> isBetterThan e cp co then (False, evictList)
              else evictLoop exclude cp co targetLen (curLen - 1) rest (evictList @ [e])))
      else (True, evictList))"

declare evictLoop.simps [simp del]

definition canAcceptLocked ::
    "'s PriorityMempool \<Rightarrow> 's sdk_ctx \<Rightarrow> int \<Rightarrow> int \<Rightarrow> int \<Rightarrow> nat \<Rightarrow> txEntry option \<Rightarrow> bool \<times> txEntry list" where
  "canAcceptLocked p ctx clampedPriority clampedOrder sz gas exclude =
     (if (case ctx_Block ctx of
            None \<Rightarrow> False
          | Some b \<Rightarrow> (MaxBytes b > 0 \<and> sz > MaxBytes b) \<or> (MaxGas b > 0 \<and> int gas > MaxGas b))
      then (False, [])
      else if cfg_MaxTx (cfg p) > 0 then
        (let targetLen = cfg_MaxTx (cfg p) - 1;
             curLen = int (mlen (entries p)) -
               (case exclude of
                  Some ex \<Rightarrow> if mget (entries p) (e_key ex) \<noteq> None then 1 else 0
                | None \<Rightarrow> 0)
         in evictLoop (map_option e_key exclude) clampedPriority clampedOrder targetLen curLen
              (rev (priorityIndex p)) [])
      else (True, []))"

section \<open>The queued pool of one sender\<close>

definition highestQueuedNonce :: "senderState \<Rightarrow> nat" where
  "highestQueuedNonce ss = foldl (\<lambda>h n. if n > h then n else h) 0 (mkeys (queued ss))"

definition dropQueuedNonce :: "'s PriorityMempool \<Rightarrow> nat \<Rightarrow> nat \<Rightarrow> 's PriorityMempool" where
  "dropQueuedNonce p r n =
     (updSender p r (\<lambda>ss. setQueuedRangeOnRemoveLocked (ss\<lparr>queued := mdel (queued ss) n\<rparr>) n))
       \<lparr>queuedCount := queuedCount p - 1\<rparr>"

definition putQueuedNonce :: "'s PriorityMempool \<Rightarrow> nat \<Rightarrow> nat \<Rightarrow> txEntry \<Rightarrow> 's PriorityMempool" where
  "putQueuedNonce p r n e =
     (updSender p r (\<lambda>ss. setQueuedRangeOnInsertLocked (ss\<lparr>queued := mput (queued ss) n e\<rparr>) n))
       \<lparr>queuedCount := queuedCount p + 1\<rparr>"

text \<open>The result is the pool, whether the entry went in, the entry it displaced, and the error.\<close>

definition insertQueuedLocked ::
    "'s PriorityMempool \<Rightarrow> nat \<Rightarrow> txKey \<Rightarrow> txEntry \<Rightarrow>
     's PriorityMempool \<times> bool \<times> txEntry option \<times> mp_error option" where
  "insertQueuedLocked p r key e =
     (let ss = heap p r; n = nonce key in
      case mget (queued ss) n of
        Some existing \<Rightarrow>
          (if e_priority e \<le> e_priority existing
           then (p, False, None,
                 Some (ErrQueuedTxHasPriority n (sender key) (e_priority existing) (e_priority e)))
           else (updSender p r (\<lambda>ss. ss\<lparr>queued := mput (queued ss) n e\<rparr>), True, Some existing, None))
      | None \<Rightarrow>
          (if maxQueuedPerSender p > 0 \<and> int (mlen (queued ss)) \<ge> maxQueuedPerSender p then
             (let h = highestQueuedNonce ss in
              if n \<ge> h then (p, False, None, Some ErrMempoolTxMaxCapacity)
              else (putQueuedNonce (dropQueuedNonce p r h) r n e, True, mget (queued ss) h, None))
           else if maxQueuedTotal p > 0 \<and> queuedCount p \<ge> maxQueuedTotal p then
             (p, False, None, Some ErrMempoolTxMaxCapacity)
           else (putQueuedNonce p r n e, True, None, None)))"

text \<open>
  The loop of \<open>collectPromotableLocked\<close>. The object it works on is not in the pool's maps by
  value, so the loop threads the whole pool.
\<close>

function collectLoop :: "'s PriorityMempool \<Rightarrow> nat \<Rightarrow> nat \<Rightarrow> 's PriorityMempool \<times> txEntry list" where
  "collectLoop p r n =
     (case mget (queued (heap p r)) n of
        None \<Rightarrow> (p, [])
      | Some e \<Rightarrow>
          (let (p', es) = collectLoop (dropQueuedNonce p r n) r (u64 (n + 1)) in (p', e # es)))"
  by pat_completeness auto
termination
  by (relation "measure (\<lambda>(p, r, n). mlen (queued (heap p r)))")
    (auto simp: dropQueuedNonce_def updSender_def gm.len_del gm.len_pos)

declare collectLoop.simps [simp del]

definition collectPromotableLocked :: "'s PriorityMempool \<Rightarrow> nat \<Rightarrow> 's PriorityMempool \<times> txEntry list" where
  "collectPromotableLocked p r =
     (if mlen (queued (heap p r)) = 0 then (p, [])
      else collectLoop p r (nextExpectedNonce (heap p r)))"

definition requeueEntriesLocked ::
    "'s PriorityMempool \<Rightarrow> nat \<Rightarrow> txEntry list \<Rightarrow> 's PriorityMempool" where
  "requeueEntriesLocked p r es = fold (\<lambda>e q. putQueuedNonce q r (nonce (e_key e)) e) es p"

end
