(* ===== verification/Mempool_Remove.thy ===== *)
theory Mempool_Remove
  imports Mempool_Core
begin

text \<open>
  Model of \<open>abcipp/mempool_remove.go\<close>: stale removal, demotion of an active suffix to the queue,
  and the reason-specific removal policy. Every function returns the new pool and the entries
  that have left it, in the order the code appends them.
\<close>

section \<open>Operations\<close>

text \<open>
  The range loops \<open>for nonce := lo; nonce <= hi; nonce++\<close> visit \<open>nonceRange lo hi\<close>. For
  \<open>hi = 2 ^ 64 - 1\<close> the source's condition never fails and the loop does not end; the theorems
  below assume nonces smaller than that.
\<close>

definition nonceRange :: "nat \<Rightarrow> nat \<Rightarrow> nat list" where
  "nonceRange lo hi = [lo ..< hi + 1]"

fun removeQueuedStale_loop ::
    "'s PriorityMempool \<Rightarrow> nat \<Rightarrow> nat list \<Rightarrow> 's PriorityMempool \<times> txEntry list" where
  "removeQueuedStale_loop p r [] = (p, [])"
| "removeQueuedStale_loop p r (n # ns) =
     (case mget (queued (heap p r)) n of
        None \<Rightarrow> removeQueuedStale_loop p r ns
      | Some e \<Rightarrow>
          (let (p', es) = removeQueuedStale_loop (dropQueuedNonce p r n) r ns in (p', e # es)))"

definition removeQueuedStaleLocked ::
    "'s PriorityMempool \<Rightarrow> nat \<Rightarrow> nat \<Rightarrow> 's PriorityMempool \<times> txEntry list" where
  "removeQueuedStaleLocked p r seq =
     (let ss = heap p r in
      if mlen (queued ss) = 0 \<or> seq = 0 \<or> queuedMin ss \<ge> seq then (p, [])
      else removeQueuedStale_loop p r (nonceRange (queuedMin ss) (min (seq - 1) (queuedMax ss))))"

definition removeAllQueuedLocked :: "'s PriorityMempool \<Rightarrow> nat \<Rightarrow> 's PriorityMempool \<times> txEntry list" where
  "removeAllQueuedLocked p r =
     (let ss = heap p r in
      if mlen (queued ss) = 0 then (p, [])
      else
        ((updSender p r (\<lambda>ss. resetQueuedRangeLocked (ss\<lparr>queued := mempty\<rparr>)))
           \<lparr>queuedCount := queuedCount p - int (mlen (queued ss))\<rparr>,
         map snd (mitems (queued ss))))"

definition removeNonceLocked ::
    "'s env \<Rightarrow> 's PriorityMempool \<Rightarrow> nat \<Rightarrow> nat \<Rightarrow> 's PriorityMempool \<times> txEntry option" where
  "removeNonceLocked E p r n =
     (case mget (active (heap p r)) n of
        Some e \<Rightarrow> (removeEntryLocked E p e, Some e)
      | None \<Rightarrow>
          (case mget (queued (heap p r)) n of
             Some e \<Rightarrow> (dropQueuedNonce p r n, Some e)
           | None \<Rightarrow> (p, None)))"

fun removeActiveStale_loop ::
    "'s env \<Rightarrow> 's PriorityMempool \<Rightarrow> nat \<Rightarrow> nat list \<Rightarrow> 's PriorityMempool \<times> txEntry list" where
  "removeActiveStale_loop E p r [] = (p, [])"
| "removeActiveStale_loop E p r (n # ns) =
     (case mget (active (heap p r)) n of
        None \<Rightarrow> removeActiveStale_loop E p r ns
      | Some e \<Rightarrow>
          (let (p', es) = removeActiveStale_loop E (removeEntryLocked E p e) r ns in (p', e # es)))"

definition removeActiveStaleLocked ::
    "'s env \<Rightarrow> 's PriorityMempool \<Rightarrow> nat \<Rightarrow> nat \<Rightarrow> 's PriorityMempool \<times> txEntry list" where
  "removeActiveStaleLocked E p r seq =
     (let ss = heap p r in
      if mlen (active ss) = 0 \<or> seq = 0 \<or> activeMin ss \<ge> seq then (p, [])
      else removeActiveStale_loop E p r (nonceRange (activeMin ss) (min (seq - 1) (activeMax ss))))"

definition removeStaleLocked ::
    "'s env \<Rightarrow> 's PriorityMempool \<Rightarrow> nat \<Rightarrow> nat \<Rightarrow> 's PriorityMempool \<times> txEntry list" where
  "removeStaleLocked E p r seq =
     (let (p1, removed) = removeActiveStaleLocked E p r seq;
          (p2, removed') = removeQueuedStaleLocked p1 r seq
      in (p2, removed @ removed'))"

fun demoteLoop ::
    "'s env \<Rightarrow> 's PriorityMempool \<Rightarrow> nat \<Rightarrow> nat \<Rightarrow> bool \<Rightarrow> nat list \<Rightarrow> 's PriorityMempool \<times> txEntry list" where
  "demoteLoop E p r seq hasSeq [] = (p, [])"
| "demoteLoop E p r seq hasSeq (n # ns) =
     (case mget (active (heap p r)) n of
        None \<Rightarrow> demoteLoop E p r seq hasSeq ns
      | Some e \<Rightarrow>
          (let p1 = removeEntryLocked E p e in
           if hasSeq \<and> n < seq then
             (let (p', es) = demoteLoop E p1 r seq hasSeq ns in (p', e # es))
           else
             (let e1 = e\<lparr>e_tier := queuedTier\<rparr>;
                  (p2, inserted, evicted, _) = insertQueuedLocked p1 r (e_key e1) e1;
                  (p', es) = demoteLoop E p2 r seq hasSeq ns
              in (p', (case evicted of Some v \<Rightarrow> [v] | None \<Rightarrow> []) @
                      (if inserted then [] else [e1]) @ es))))"

definition demoteActiveRangeLocked ::
    "'s env \<Rightarrow> 's PriorityMempool \<Rightarrow> nat \<Rightarrow> nat \<Rightarrow> bool \<Rightarrow> nat \<Rightarrow> bool \<Rightarrow> 's PriorityMempool \<times> txEntry list" where
  "demoteActiveRangeLocked E p r startNonce inclusive seq hasSeq =
     (let ss = heap p r in
      if mlen (active ss) = 0 then (p, [])
      else if \<not> inclusive \<and> startNonce = 2 ^ 64 - 1 then (p, [])
      else
        let start = (if inclusive then startNonce else startNonce + 1) in
        if start > activeMax ss then (p, [])
        else demoteLoop E p r seq hasSeq (nonceRange start (activeMax ss)))"

definition removeByReasonLocked ::
    "'s env \<Rightarrow> 's PriorityMempool \<Rightarrow> string \<Rightarrow> nat \<Rightarrow> RemovalReason \<Rightarrow> nat \<Rightarrow> bool \<Rightarrow>
     's PriorityMempool \<times> txEntry list" where
  "removeByReasonLocked E p s n reason seq hasSeq =
     (case mget (senders p) s of
        None \<Rightarrow> (p, [])
      | Some r \<Rightarrow>
          (let (p1, removed) =
                 (case reason of
                    RemovalReasonCapacityEvicted \<Rightarrow> demoteActiveRangeLocked E p r n True seq hasSeq
                  | RemovalReasonAnteRejectedInPrepare \<Rightarrow>
                      (let (q, eo) = removeNonceLocked E p r n;
                           (q', es) = demoteActiveRangeLocked E q r n False seq hasSeq
                       in (q', (case eo of Some e \<Rightarrow> [e] | None \<Rightarrow> []) @ es))
                  | _ \<Rightarrow>
                      (let (q, eo) = removeNonceLocked E p r n
                       in (q, case eo of Some e \<Rightarrow> [e] | None \<Rightarrow> [])));
               (p2, removed2) =
                 (if hasSeq then
                    (let (q, es) = removeStaleLocked E (updSender p1 r (\<lambda>ss. setOnChainSeqLocked ss seq)) r seq
                     in (q, removed @ es))
                  else (p1, removed))
           in (cleanupSenderLocked p2 s, removed2)))"

fun removeEntriesByReasonLocked ::
    "'s env \<Rightarrow> 's PriorityMempool \<Rightarrow> txEntry list \<Rightarrow> RemovalReason \<Rightarrow> 's PriorityMempool \<times> txEntry list" where
  "removeEntriesByReasonLocked E p [] reason = (p, [])"
| "removeEntriesByReasonLocked E p (e # es) reason =
     (if mget (entries p) (e_key e) = None then removeEntriesByReasonLocked E p es reason
      else
        let (p1, removed) =
              removeByReasonLocked E p (sender (e_key e)) (nonce (e_key e)) reason 0 False;
            (p2, removed') = removeEntriesByReasonLocked E p1 es reason
        in (p2, removed @ removed'))"

definition RemoveWithReason ::
    "'s env \<Rightarrow> 's PriorityMempool \<Rightarrow> sdk_tx \<Rightarrow> RemovalReason \<Rightarrow> 's PriorityMempool \<times> mp_error option" where
  "RemoveWithReason E p tx reason =
     (case txKeyFromTx E tx of
        Inl err \<Rightarrow> (p, Some err)
      | Inr key \<Rightarrow>
          (let (seq, hasSeq) =
                 (if reason = RemovalReasonCommittedInBlock then (u64 (nonce key + 1), True)
                  else (0, False));
               (p1, removed) = removeByReasonLocked E p (sender key) (nonce key) reason seq hasSeq
           in if removed \<noteq> [] then (enqueueRemovedEvents E p1 removed, None)
              else (p1, Some ErrTxNotFound)))"

definition Remove :: "'s env \<Rightarrow> 's PriorityMempool \<Rightarrow> sdk_tx \<Rightarrow> 's PriorityMempool \<times> mp_error option" where
  "Remove E p tx = RemoveWithReason E p tx RemovalReasonCommittedInBlock"

end
