(* ===== verification/Mempool_Insert.thy ===== *)
theory Mempool_Insert
  imports Mempool_Remove
begin

text \<open>
  Model of \<open>Insert\<close> (\<open>abcipp/mempool_insert.go\<close>) and \<open>PromoteQueued\<close> (\<open>abcipp/mempool.go\<close>).
  Both release the lock while they read account sequences. The part under the lock is a
  function of its own that takes what was read, so that the state machine can run other
  operations in between; \<open>Insert\<close> and \<open>PromoteQueued\<close> compose the parts without interference.
\<close>

section \<open>Promotion of queued entries\<close>

text \<open>
  The loop over \<open>toPromote\<close>, the same in \<open>Insert\<close> and \<open>PromoteQueued\<close>. The result is the pool,
  the promoted entries and the removed ones.
\<close>

fun promoteLoop ::
    "'s env \<Rightarrow> 's sdk_ctx \<Rightarrow> nat \<Rightarrow> 's PriorityMempool \<Rightarrow> txEntry list \<Rightarrow>
     's PriorityMempool \<times> txEntry list \<times> txEntry list" where
  "promoteLoop E ctx r p [] = (p, [], [])"
| "promoteLoop E ctx r p (pe # rest) =
     (let (p1, ord) = nextOrder p;
          peCtx = ctx\<lparr>ctx_TxBytes := e_bytes pe\<rparr>;
          tier = selectTier p1 peCtx (e_tx pe);
          (cp, co) = computeClampedRankLocked (Some (heap p1 r)) tier (e_priority pe) ord
                       (nonce (e_key pe));
          pe1 = pe\<lparr>e_order := ord, e_tier := tier, e_clampedPriority := cp, e_clampedOrder := co\<rparr>;
          (accepted, ev) = canAcceptLocked p1 peCtx cp co (e_size pe) (e_gas pe) None
      in if accepted then
           (let (p2, removed) = removeEntriesByReasonLocked E p1 ev RemovalReasonCapacityEvicted;
                p3 = addEntryLocked E p2 pe1;
                (p4, promoted, removed') = promoteLoop E ctx r p3 rest
            in (p4, pe1 # promoted, removed @ removed'))
         else (requeueEntriesLocked p1 r (pe1 # rest), [], []))"

section \<open>Insert\<close>

text \<open>The future-nonce branch: the transaction goes to the queued pool.\<close>

definition Insert_queued ::
    "'s env \<Rightarrow> 's sdk_ctx \<Rightarrow> 's PriorityMempool \<Rightarrow> nat \<Rightarrow> sdk_tx \<Rightarrow> txKey \<Rightarrow> bytes \<Rightarrow> nat \<Rightarrow>
     's PriorityMempool \<times> mp_error option" where
  "Insert_queued E ctx p r tx key bz gas =
     (if \<not> HasQueuedTxExtension tx then (p, Some ErrFutureNonceNeedsExtension)
      else
        let e = \<lparr>e_tx = tx, e_priority = ctx_Priority ctx, e_size = int (length bz), e_key = key,
                 e_sequence = nonce key, e_order = 0, e_tier = queuedTier, e_gas = gas,
                 e_bytes = bz, e_clampedPriority = 0, e_clampedOrder = 0\<rparr>;
            (p1, inserted, evicted, insertErr) = insertQueuedLocked p r key e
        in if \<not> inserted then
             (p1, Some (case insertErr of Some err \<Rightarrow> err | None \<Rightarrow> ErrMempoolTxMaxCapacity))
           else
             let p2 = (case evicted of
                         Some v \<Rightarrow> enqueueEvent E p1 EventTxRemoved (e_bytes v) | None \<Rightarrow> p1)
             in (enqueueEvent E p2 EventTxQueued (e_bytes e), None))"

text \<open>
  The admission of \<open>e\<close> to the active index once the priority checks have passed: capacity,
  removal of what it replaces and of what is evicted, insertion, promotion, events.
\<close>

definition Insert_admit ::
    "'s env \<Rightarrow> 's sdk_ctx \<Rightarrow> 's PriorityMempool \<Rightarrow> nat \<Rightarrow> txEntry \<Rightarrow> txEntry option \<Rightarrow> txEntry option \<Rightarrow>
     's PriorityMempool \<times> mp_error option" where
  "Insert_admit E ctx p r e0 existing queuedToRemove =
     (let n = nonce (e_key e0);
          (cp, co) = computeClampedRankLocked (Some (heap p r)) (e_tier e0) (e_priority e0)
                       (e_order e0) n;
          e = e0\<lparr>e_clampedPriority := cp, e_clampedOrder := co\<rparr>;
          (ok, ev) = canAcceptLocked p ctx cp co (e_size e) (e_gas e) existing
      in if \<not> ok then (p, Some ErrMempoolTxMaxCapacity)
         else
           let (p1, removed1) =
                 (case queuedToRemove of
                    Some q \<Rightarrow> (dropQueuedNonce p r n, [q])
                  | None \<Rightarrow> (p, []));
               (p2, removed2) =
                 (case existing of
                    Some x \<Rightarrow> (removeEntryLocked E p1 x, [x])
                  | None \<Rightarrow> (p1, []));
               (p3, removed3) = removeEntriesByReasonLocked E p2 ev RemovalReasonCapacityEvicted;
               p4 = addEntryLocked E p3 e;
               (p5, toPromote) = collectPromotableLocked p4 r;
               (p6, promoted, removed4) = promoteLoop E ctx r p5 toPromote;
               p7 = enqueueRemovedEvents E p6 (removed1 @ removed2 @ removed3 @ removed4);
               p8 = enqueueEvent E p7 EventTxInserted (e_bytes e)
           in (enqueueInsertedEvents E p8 promoted, None))"

definition Insert_active ::
    "'s env \<Rightarrow> 's sdk_ctx \<Rightarrow> 's PriorityMempool \<Rightarrow> nat \<Rightarrow> sdk_tx \<Rightarrow> txKey \<Rightarrow> bytes \<Rightarrow> nat \<Rightarrow>
     's PriorityMempool \<times> mp_error option" where
  "Insert_active E ctx p0 r tx key bz gas =
     (let (p, ord) = nextOrder p0;
          e = \<lparr>e_tx = tx, e_priority = ctx_Priority ctx, e_size = int (length bz), e_key = key,
               e_sequence = nonce key, e_order = ord, e_tier = selectTier p ctx tx, e_gas = gas,
               e_bytes = bz, e_clampedPriority = 0, e_clampedOrder = 0\<rparr>;
          existing = mget (entries p) key;
          queuedTx = mget (queued (heap p r)) (nonce key)
      in case existing of
           Some x \<Rightarrow>
             (if e_priority e \<le> e_priority x
              then (p, Some (ErrActiveTxHasPriority (nonce key) (sender key) (e_priority x) (e_priority e)))
              else Insert_admit E ctx p r e existing queuedTx)
         | None \<Rightarrow>
             (case queuedTx of
                Some q \<Rightarrow>
                  (if e_priority e \<le> e_priority q
                   then (p, Some (ErrQueuedTxHasPriority (nonce key) (sender key) (e_priority q) (e_priority e)))
                   else Insert_admit E ctx p r e existing queuedTx)
              | None \<Rightarrow> Insert_admit E ctx p r e existing queuedTx))"

text \<open>
  The part of \<open>Insert\<close> under the lock. \<open>fetched\<close> is the account sequence that was read outside
  it when the sender was not tracked.
\<close>

definition Insert_locked ::
    "'s env \<Rightarrow> 's sdk_ctx \<Rightarrow> 's PriorityMempool \<Rightarrow> sdk_tx \<Rightarrow> txKey \<Rightarrow> bytes \<Rightarrow> nat \<Rightarrow> nat \<Rightarrow>
     's PriorityMempool \<times> mp_error option" where
  "Insert_locked E ctx p0 tx key bz gas fetched =
     (let (p, r) =
            (case mget (senders p0) (sender key) of
               Some r \<Rightarrow> (p0, r)
             | None \<Rightarrow>
                 (let (q, r) = getOrCreateSenderLocked p0 (sender key)
                  in (updSender q r (\<lambda>ss. setOnChainSeqLocked ss fetched), r)));
          ss = heap p r;
          nextExpected = nextExpectedNonce ss
      in if nonce key < nextExpected \<and> mget (entries p) key = None \<and> mget (queued ss) (nonce key) = None
         then (p, Some (ErrStaleNonce (nonce key) (sender key) nextExpected))
         else if nonce key > nextExpected then Insert_queued E ctx p r tx key bz gas
         else Insert_active E ctx p r tx key bz gas)"

definition Insert ::
    "'s env \<Rightarrow> 's sdk_ctx \<Rightarrow> 's PriorityMempool \<Rightarrow> sdk_tx \<Rightarrow> 's PriorityMempool \<times> mp_error option" where
  "Insert E ctx0 p tx =
     (case txKeyFromTx E tx of
        Inl err \<Rightarrow> (p, Some err)
      | Inr key \<Rightarrow>
          (case (if ctx_TxBytes ctx0 = [] then txEncoder E tx else Inr (ctx_TxBytes ctx0)) of
             Inl err \<Rightarrow> (p, Some (ErrTxEncode err))
           | Inr bz \<Rightarrow>
               (let ctx = ctx0\<lparr>ctx_TxBytes := bz\<rparr> in
                case tx_GetGas tx of
                  None \<Rightarrow> (p, Some ErrNotFeeTx)
                | Some gas \<Rightarrow>
                    (if mget (senders p) (sender key) \<noteq> None
                     then Insert_locked E ctx p tx key bz gas 0
                     else
                       let (seq, seqOk) = fetchSequence E ctx (sender key) in
                       if \<not> seqOk then (p, Some (ErrFetchSequence (sender key)))
                       else Insert_locked E ctx p tx key bz gas seq))))"

section \<open>PromoteQueued\<close>

text \<open>The body of the loop over the senders whose sequence was read.\<close>

definition PromoteQueued_sender ::
    "'s env \<Rightarrow> 's sdk_ctx \<Rightarrow> 's PriorityMempool \<Rightarrow> string \<Rightarrow> nat \<Rightarrow>
     's PriorityMempool \<times> txEntry list \<times> txEntry list" where
  "PromoteQueued_sender E ctx p s seq =
     (case mget (senders p) s of
        None \<Rightarrow> (p, [], [])
      | Some r \<Rightarrow>
          (let p1 = updSender p r (\<lambda>ss. setOnChainSeqLocked ss seq);
               (p2, removed) = removeStaleLocked E p1 r seq;
               (p3, toPromote) = collectPromotableLocked p2 r;
               (p4, promoted, removed') = promoteLoop E ctx r p3 toPromote;
               ss = heap p4 r;
               p5 = (if mlen (queued ss) = 0 \<and> (seq \<ge> nextExpectedNonce ss \<or> mlen (active ss) = 0)
                     then cleanupSenderLocked p4 s else p4)
           in (p5, promoted, removed @ removed')))"

fun PromoteQueued_senders ::
    "'s env \<Rightarrow> 's sdk_ctx \<Rightarrow> 's PriorityMempool \<Rightarrow> (string \<times> nat) list \<Rightarrow>
     's PriorityMempool \<times> txEntry list \<times> txEntry list" where
  "PromoteQueued_senders E ctx p [] = (p, [], [])"
| "PromoteQueued_senders E ctx p ((s, seq) # rest) =
     (let (p1, promoted, removed) = PromoteQueued_sender E ctx p s seq;
          (p2, promoted', removed') = PromoteQueued_senders E ctx p1 rest
      in (p2, promoted @ promoted', removed @ removed'))"

definition cleanupActiveOnly :: "'s PriorityMempool \<Rightarrow> string \<Rightarrow> 's PriorityMempool" where
  "cleanupActiveOnly p s =
     (case mget (senders p) s of
        None \<Rightarrow> p
      | Some r \<Rightarrow> if mlen (active (heap p r)) = 0 then cleanupSenderLocked p s else p)"

definition PromoteQueued_locked ::
    "'s env \<Rightarrow> 's sdk_ctx \<Rightarrow> 's PriorityMempool \<Rightarrow> (string \<times> nat) list \<Rightarrow> string list \<Rightarrow> 's PriorityMempool" where
  "PromoteQueued_locked E ctx p seqs activeOnlySenders =
     (let (p1, promoted, removed) = PromoteQueued_senders E ctx p seqs;
          p2 = fold (\<lambda>s q. cleanupActiveOnly q s) activeOnlySenders p1;
          p3 = enqueueRemovedEvents E p2 removed
      in enqueueInsertedEvents E p3 promoted)"

definition queuedSenders :: "'s PriorityMempool \<Rightarrow> string list" where
  "queuedSenders p = [s. (s, r) \<leftarrow> mitems (senders p), mlen (queued (heap p r)) > 0]"

definition activeOnlySenders :: "'s PriorityMempool \<Rightarrow> string list" where
  "activeOnlySenders p = [s. (s, r) \<leftarrow> mitems (senders p), mlen (queued (heap p r)) = 0]"

definition fetchSequences :: "'s env \<Rightarrow> 's sdk_ctx \<Rightarrow> string list \<Rightarrow> (string \<times> nat) list" where
  "fetchSequences E ctx ss = [(s, fst (fetchSequence E ctx s)). s \<leftarrow> ss, snd (fetchSequence E ctx s)]"

definition PromoteQueued :: "'s env \<Rightarrow> 's sdk_ctx \<Rightarrow> 's PriorityMempool \<Rightarrow> 's PriorityMempool" where
  "PromoteQueued E ctx p =
     (if queuedSenders p = [] \<and> activeOnlySenders p = [] then p
      else PromoteQueued_locked E ctx p (fetchSequences E ctx (queuedSenders p)) (activeOnlySenders p))"

end
