(* ===== verification/Mempool_Cleanup.thy ===== *)
theory Mempool_Cleanup
  imports Mempool_Insert
begin

text \<open>
  Model of \<open>abcipp/mempool_cleanup.go\<close>: one run of the cleaning worker. The run takes the lock
  four times; each critical section is a function of its own. The ticker, the goroutine and the
  channels that stop it are not modelled.
\<close>

section \<open>Operations\<close>

text \<open>The first critical section: forget empty senders, list the others.\<close>

definition cleanUp_collect :: "'s PriorityMempool \<Rightarrow> 's PriorityMempool \<times> string list" where
  "cleanUp_collect p =
     (p\<lparr>senders := fold (\<lambda>(s, r) m. if isEmpty (heap p r) then mdel m s else m)
                     (mitems (senders p)) (senders p)\<rparr>,
      [s. (s, r) \<leftarrow> mitems (senders p), \<not> isEmpty (heap p r)])"

definition cleanUp_sequences :: "'s env \<Rightarrow> 's sdk_ctx \<Rightarrow> string list \<Rightarrow> (string \<times> nat) list" where
  "cleanUp_sequences E ctx ss =
     List.map_filter (\<lambda>s.
       case AccAddressFromBech32 E s of
         None \<Rightarrow> None
       | Some addr \<Rightarrow> map_option (Pair s) (GetSequence E ctx addr)) ss"

text \<open>
  \<open>now.Sub\<close> saturates at the ends of \<open>time.Duration\<close>; since the bound is a duration, comparing the
  exact difference with it gives the same answer.
\<close>

definition expireQueuedGapLocked ::
    "'s PriorityMempool \<Rightarrow> nat \<Rightarrow> int \<Rightarrow> 's PriorityMempool \<times> txEntry list" where
  "expireQueuedGapLocked p r now =
     (let ss = heap p r in
      if mlen (active ss) = 0 \<and> mlen (queued ss) > 0 \<and> queuedMin ss > onChainSeq ss then
        (case gapSince ss of
           None \<Rightarrow> (updSender p r (\<lambda>ss. ss\<lparr>gapSince := Some now\<rparr>), [])
         | Some t \<Rightarrow>
             (if now - t \<ge> queuedGapTTL p
              then removeAllQueuedLocked (updSender p r (\<lambda>ss. ss\<lparr>gapSince := None\<rparr>)) r
              else (p, [])))
      else (updSender p r (\<lambda>ss. ss\<lparr>gapSince := None\<rparr>), []))"

definition cleanUp_sender :: "'s env \<Rightarrow> int \<Rightarrow> string \<Rightarrow> nat \<Rightarrow> 's PriorityMempool \<Rightarrow> 's PriorityMempool" where
  "cleanUp_sender E now s seq p =
     (case mget (senders p) s of
        None \<Rightarrow> p
      | Some r \<Rightarrow>
          (let (p1, staled) = removeStaleLocked E (updSender p r (\<lambda>ss. setOnChainSeqLocked ss seq)) r seq;
               p2 = enqueueRemovedEvents E p1 staled;
               (p3, expired) = expireQueuedGapLocked p2 r now;
               p4 = enqueueRemovedEvents E p3 expired
           in cleanupSenderLocked p4 s))"

definition cleanUp_stale :: "'s env \<Rightarrow> int \<Rightarrow> (string \<times> nat) list \<Rightarrow> 's PriorityMempool \<Rightarrow> 's PriorityMempool" where
  "cleanUp_stale E now seqs p = fold (\<lambda>(s, seq) q. cleanUp_sender E now s seq q) seqs p"

definition cleanUp_heads :: "'s PriorityMempool \<Rightarrow> string list \<Rightarrow> txEntry list" where
  "cleanUp_heads p ss =
     List.map_filter (\<lambda>s.
       case mget (senders p) s of
         None \<Rightarrow> None
       | Some r \<Rightarrow> mget (active (heap p r)) (activeMin (heap p r))) ss"

text \<open>
  The ante run over the head entries. A successful run writes its cached store back to the
  context; a failed one is dropped and its entry listed.
\<close>

fun cleanUp_ante :: "'s AnteHandler \<Rightarrow> 's sdk_ctx \<Rightarrow> txEntry list \<Rightarrow> txEntry list" where
  "cleanUp_ante ante ctx [] = []"
| "cleanUp_ante ante ctx (e # es) =
     (case ante (ctx\<lparr>ctx_TxBytes := e_bytes e, ctx_IsReCheckTx := True\<rparr>) (e_tx e) False of
        Inl err \<Rightarrow> e # cleanUp_ante ante ctx es
      | Inr ctx' \<Rightarrow> cleanUp_ante ante (ctx\<lparr>ctx_store := ctx_store ctx'\<rparr>) es)"

definition cleanUp_remove :: "'s env \<Rightarrow> txEntry list \<Rightarrow> 's PriorityMempool \<Rightarrow> 's PriorityMempool" where
  "cleanUp_remove E es p =
     fold (\<lambda>e q. fst (RemoveWithReason E q (e_tx e) RemovalReasonAnteRejectedInPrepare)) es p"

text \<open>One run without interference; \<open>ctxo\<close> is None when \<open>safeGetContext\<close> recovered a panic.\<close>

definition cleanUpEntries ::
    "'s env \<Rightarrow> 's sdk_ctx option \<Rightarrow> int \<Rightarrow> 's PriorityMempool \<Rightarrow> 's PriorityMempool" where
  "cleanUpEntries E ctxo now p =
     (case ctxo of
        None \<Rightarrow> p
      | Some ctx \<Rightarrow>
          (let (p1, ss) = cleanUp_collect p;
               seqs = cleanUp_sequences E ctx ss
           in if seqs = [] then p1
              else
                let p2 = cleanUp_stale E now seqs p1 in
                case cfg_AnteHandler (cfg p2) of
                  None \<Rightarrow> p2
                | Some ante \<Rightarrow> cleanUp_remove E (cleanUp_ante ante ctx (cleanUp_heads p2 ss)) p2))"

end
