(* ===== verification/Mempool_Events.thy ===== *)
theory Mempool_Events
  imports Mempool_Cleanup
begin

text \<open>
  Model of the event side of \<open>abcipp/mempool_event.go\<close>: wiring and stopping the channels, and the
  two dispatcher goroutines. \<open>enqueueEvent\<close> is in the theory of the pool's building blocks.
\<close>

section \<open>Operations\<close>

definition SetEventCh :: "'s PriorityMempool \<Rightarrow> 's PriorityMempool" where
  "SetEventCh p = p\<lparr>eventCh := True, cometNotify := True\<rparr>"

definition SetAppEventCh :: "'s PriorityMempool \<Rightarrow> 's PriorityMempool" where
  "SetAppEventCh p = p\<lparr>appEventCh := True, appNotify := True\<rparr>"

text \<open>
  The stop signal. The call then waits for the dispatchers, which changes nothing: a second call
  returns at once.
\<close>

definition StopEventDispatch :: "'s PriorityMempool \<Rightarrow> 's PriorityMempool" where
  "StopEventDispatch p = (if eventStop p then p else p\<lparr>eventStop := True\<rparr>)"

text \<open>
  Where a dispatcher goroutine is: at the outer \<open>select\<close>, at the head of the inner loop, at the
  \<open>select\<close> that sends one event, or returned. A \<open>select\<close> whose two cases are ready takes either,
  so a dispatcher has a list of possible moves; each gives the dispatcher, the notification slot,
  the queue, and the event that went out. Compaction copies the queue and changes nothing here.
\<close>

datatype dispatcher = Waiting | Draining | Sending AppMempoolEvent | Exited

definition dispatchMoves ::
    "bool \<Rightarrow> bool \<Rightarrow> dispatcher \<Rightarrow> bool \<Rightarrow> AppMempoolEvent list \<Rightarrow>
     (dispatcher \<times> bool \<times> AppMempoolEvent list \<times> AppMempoolEvent option) list" where
  "dispatchMoves stop ch d notify queue =
     (case d of
        Waiting \<Rightarrow>
          (if stop then [(Exited, notify, queue, None)] else []) @
          (if notify then [(if ch then Draining else Waiting, False, queue, None)] else [])
      | Draining \<Rightarrow>
          (case queue of
             [] \<Rightarrow> [(Waiting, notify, [], None)]
           | ev # rest \<Rightarrow> [(Sending ev, notify, rest, None)])
      | Sending ev \<Rightarrow>
          [(Draining, notify, queue, Some ev)] @
          (if stop then [(Exited, notify, queue, None)] else [])
      | Exited \<Rightarrow> [])"

definition cometDispatchLoop ::
    "'s PriorityMempool \<Rightarrow> dispatcher \<Rightarrow> ('s PriorityMempool \<times> dispatcher \<times> AppMempoolEvent option) list" where
  "cometDispatchLoop p d =
     map (\<lambda>(d', n, q, sent). (p\<lparr>cometQueue := q, cometNotify := n\<rparr>, d', sent))
       (dispatchMoves (eventStop p) (eventCh p) d (cometNotify p) (cometQueue p))"

definition appDispatchLoop ::
    "'s PriorityMempool \<Rightarrow> dispatcher \<Rightarrow> ('s PriorityMempool \<times> dispatcher \<times> AppMempoolEvent option) list" where
  "appDispatchLoop p d =
     map (\<lambda>(d', n, q, sent). (p\<lparr>appQueue := q, appNotify := n\<rparr>, d', sent))
       (dispatchMoves (eventStop p) (appEventCh p) d (appNotify p) (appQueue p))"

section \<open>One dispatcher\<close>

text \<open>The event a dispatcher holds has left its queue and is not delivered yet.\<close>

definition inflight :: "dispatcher \<Rightarrow> AppMempoolEvent list" where
  "inflight d = (case d of Sending ev \<Rightarrow> [ev] | _ \<Rightarrow> [])"

lemma dispatchMoves_fifo:
  assumes "(d', n', q', sent) \<in> set (dispatchMoves stop ch d n q)" and "\<not> stop"
  shows "(case sent of None \<Rightarrow> [] | Some ev \<Rightarrow> [ev]) @ inflight d' @ q' = inflight d @ q"
  using assms
  by (auto simp: dispatchMoves_def inflight_def split: dispatcher.splits list.splits if_splits)

text \<open>No wake-up is lost: a dispatcher that waits while its queue is not empty has been notified.\<close>

definition awake :: "bool \<Rightarrow> dispatcher \<Rightarrow> bool \<Rightarrow> AppMempoolEvent list \<Rightarrow> bool" where
  "awake ch d n q \<longleftrightarrow> (q \<noteq> [] \<longrightarrow> ch) \<and> (d = Waiting \<and> q \<noteq> [] \<longrightarrow> n)"

lemma dispatchMoves_awake:
  "(d', n', q', sent) \<in> set (dispatchMoves stop ch d n q) \<Longrightarrow> awake ch d n q \<Longrightarrow> awake ch d' n' q'"
  by (auto simp: dispatchMoves_def awake_def split: dispatcher.splits list.splits if_splits)

text \<open>Running one dispatcher alone from an awake state delivers everything and ends at the outer select.\<close>

inductive drains :: "dispatcher \<Rightarrow> bool \<Rightarrow> AppMempoolEvent list \<Rightarrow> AppMempoolEvent list \<Rightarrow>
    dispatcher \<Rightarrow> bool \<Rightarrow> AppMempoolEvent list \<Rightarrow> bool" where
  drains_refl: "drains d n q [] d n q"
| drains_move: "(d', n', q', sent) \<in> set (dispatchMoves False True d n q) \<Longrightarrow> drains d' n' q' out d'' n'' q'' \<Longrightarrow>
    drains d n q ((case sent of None \<Rightarrow> [] | Some ev \<Rightarrow> [ev]) @ out) d'' n'' q''"

lemma drains_queue: "\<exists>n'. drains Draining n q q Waiting n' []"
proof (induction q)
  case Nil
  show ?case using drains_move [of Waiting n "[]" None Draining n "[]" "[]" Waiting n "[]"]
    by (auto simp: dispatchMoves_def intro: drains_refl)
next
  case (Cons ev q)
  then obtain n' where n: "drains Draining n q q Waiting n' []" by blast
  have "drains (Sending ev) n q (ev # q) Waiting n' []"
    using drains_move [OF _ n, of "Some ev" "Sending ev" n q] by (simp add: dispatchMoves_def)
  from drains_move [OF _ this, of None Draining n "ev # q"] show ?case by (auto simp: dispatchMoves_def)
qed

lemma drains_all:
  assumes "awake True d n q" and "d \<noteq> Exited"
  shows "\<exists>n'. drains d n q (inflight d @ q) Waiting n' []"
proof (cases d)
  case Waiting
  show ?thesis
  proof (cases "q = []")
    case True
    then show ?thesis using Waiting drains_refl by (auto simp: inflight_def)
  next
    case False
    obtain n' where n: "drains Draining False q q Waiting n' []" using drains_queue by blast
    have "n" using assms(1) Waiting False by (simp add: awake_def)
    then show ?thesis using Waiting drains_move [OF _ n, of None Waiting n q] by (auto simp: dispatchMoves_def inflight_def)
  qed
next
  case Draining
  then show ?thesis using drains_queue by (auto simp: inflight_def)
next
  case (Sending ev)
  obtain n' where n: "drains Draining n q q Waiting n' []" using drains_queue by blast
  show ?thesis using Sending drains_move [OF _ n, of "Some ev" "Sending ev" n q] by (auto simp: dispatchMoves_def inflight_def)
qed (use assms(2) in simp)

end
