(* ===== verification/Mempool_Inv.thy ===== *)
theory Mempool_Inv
  imports Mempool_Insert
begin

text \<open>
  The consistency of the mempool's structures, in two layers. \<open>consistent\<close> holds at every point
  between two primitive updates, also inside the loops: the cached ranges are exact, the global
  map, the per-sender maps and the index agree, and the counters count. The primitives that add,
  remove or move one entry each keep it; the lemmas also say what they do to the maps of the
  sender they work on and that they leave every other sender alone.
\<close>

section \<open>Views and frames\<close>

definition sview :: "'s PriorityMempool \<Rightarrow> string \<Rightarrow> senderState option" where
  "sview p s = map_option (heap p) (mget (senders p) s)"

definition static :: "'s PriorityMempool \<Rightarrow>
    's PriorityMempoolConfig \<times> 's tierMatcher list \<times> int \<times> int \<times> int" where
  "static p = (cfg p, tiers p, maxQueuedPerSender p, maxQueuedTotal p, queuedGapTTL p)"

definition heap_ok :: "'s PriorityMempool \<Rightarrow> bool" where
  "heap_ok p \<longleftrightarrow>
     (\<forall>s r. mget (senders p) s = Some r \<longrightarrow> r < freshRef p) \<and>
     (\<forall>s t r. mget (senders p) s = Some r \<and> mget (senders p) t = Some r \<longrightarrow> s = t)"

definition entry_static :: "'s env \<Rightarrow> string \<Rightarrow> nat \<Rightarrow> txEntry \<Rightarrow> bool" where
  "entry_static E s n e \<longleftrightarrow>
     e_key e = \<lparr>sender = s, nonce = n\<rparr> \<and> n < 2 ^ 64 - 1 \<and> e_sequence e = n \<and>
     txKeyFromTx E (e_tx e) = Inr (e_key e) \<and> e_size e = int (length (e_bytes e)) \<and>
     tx_GetGas (e_tx e) = Some (e_gas e)"

definition entry_active :: "'s PriorityMempool \<Rightarrow> txEntry \<Rightarrow> bool" where
  "entry_active p e \<longleftrightarrow>
     0 \<le> e_tier e \<and> e_tier e < int (length (tiers p)) \<and>
     e_clampedOrder e \<le> e_order e \<and> e_order e \<le> orderSeq p"

definition sender_core :: "'s env \<Rightarrow> 's PriorityMempool \<Rightarrow> string \<Rightarrow> senderState \<Rightarrow> bool" where
  "sender_core E p s ss \<longleftrightarrow>
     range_ok (active ss) (activeMin ss) (activeMax ss) \<and>
     range_ok (queued ss) (queuedMin ss) (queuedMax ss) \<and>
     (\<forall>n e. mget (active ss) n = Some e \<longrightarrow> entry_static E s n e \<and> entry_active p e) \<and>
     (\<forall>n e. mget (queued ss) n = Some e \<longrightarrow> entry_static E s n e) \<and>
     mdom (active ss) \<inter> mdom (queued ss) = {}"

definition entries_ok :: "'s PriorityMempool \<Rightarrow> bool" where
  "entries_ok p \<longleftrightarrow>
     (\<forall>k. mget (entries p) k =
        (case sview p (sender k) of None \<Rightarrow> None | Some ss \<Rightarrow> mget (active ss) (nonce k)))"

definition index_ok :: "'s PriorityMempool \<Rightarrow> bool" where
  "index_ok p \<longleftrightarrow>
     index_sorted compareEntries (priorityIndex p) \<and> set (priorityIndex p) = ran (mget (entries p))"

definition queuedTotal :: "'s PriorityMempool \<Rightarrow> int" where
  "queuedTotal p = (\<Sum>s\<in>dom (sview p). int (mlen (queued (the (sview p s)))))"

definition tierTotal :: "'s PriorityMempool \<Rightarrow> string \<Rightarrow> nat" where
  "tierTotal p name =
     card {k. \<exists>e. mget (entries p) k = Some e \<and> tierName p (e_tier e) = name}"

definition tier_ok :: "'s PriorityMempool \<Rightarrow> bool" where
  "tier_ok p \<longleftrightarrow> tiers p \<noteq> [] \<and> (\<forall>t\<in>set (tiers p). tm_Name t \<noteq> '''') \<and>
     (\<forall>i. 0 \<le> i \<and> i < int (length (tiers p)) \<longrightarrow>
        mget (tierDistribution p) (tierName p i) = Some (tierTotal p (tierName p i)))"

definition consistent :: "'s env \<Rightarrow> 's PriorityMempool \<Rightarrow> bool" where
  "consistent E p \<longleftrightarrow>
     heap_ok p \<and> (\<forall>s ss. sview p s = Some ss \<longrightarrow> sender_core E p s ss) \<and> entries_ok p \<and>
     index_ok p \<and> queuedCount p = queuedTotal p \<and> tier_ok p"

lemma consistentD:
  assumes "consistent E p"
  shows "heap_ok p" and "entries_ok p" and "index_ok p" and "queuedCount p = queuedTotal p"
    and "tier_ok p" and "sview p s = Some ss \<Longrightarrow> sender_core E p s ss"
  using assms by (auto simp: consistent_def)

lemma sview_None [simp]: "sview p s = None \<longleftrightarrow> mget (senders p) s = None"
  by (simp add: sview_def)

lemma sview_Some: "mget (senders p) s = Some r \<Longrightarrow> sview p s = Some (heap p r)"
  by (simp add: sview_def)

lemma dom_sview: "dom (sview p) = mdom (senders p)"
  by (auto simp: sview_def)

lemma finite_sview [simp]: "finite (dom (sview p))"
  by (simp add: dom_sview)

lemma sview_updSender:
  "heap_ok p \<Longrightarrow> mget (senders p) s = Some r \<Longrightarrow> sview (updSender p r f) = (sview p)(s \<mapsto> f (heap p r))"
  by (auto simp: sview_def updSender_def heap_ok_def fun_eq_iff map_option_case split: option.splits)

lemma updSender_frame [simp]:
  "senders (updSender p r f) = senders p" "entries (updSender p r f) = entries p"
  "priorityIndex (updSender p r f) = priorityIndex p" "freshRef (updSender p r f) = freshRef p"
  "orderSeq (updSender p r f) = orderSeq p" "queuedCount (updSender p r f) = queuedCount p"
  "tierDistribution (updSender p r f) = tierDistribution p"
  "static (updSender p r f) = static p" "tiers (updSender p r f) = tiers p" "cfg (updSender p r f) = cfg p"
  "heap (updSender p r f) r = f (heap p r)" "r' \<noteq> r \<Longrightarrow> heap (updSender p r f) r' = heap p r'"
  by (simp_all add: updSender_def static_def)

lemma static_upd [simp]:
  "static (p\<lparr>queuedCount := c\<rparr>) = static p" "static (p\<lparr>entries := e\<rparr>) = static p"
  "static (p\<lparr>priorityIndex := i\<rparr>) = static p" "static (p\<lparr>tierDistribution := d\<rparr>) = static p"
  "static (p\<lparr>senders := ss\<rparr>) = static p" "static (p\<lparr>heap := h\<rparr>) = static p"
  "static (p\<lparr>freshRef := r\<rparr>) = static p" "static (p\<lparr>orderSeq := oo\<rparr>) = static p"
  by (simp_all add: static_def)

lemma sview_upd [simp]:
  "sview (p\<lparr>queuedCount := c\<rparr>) = sview p" "sview (p\<lparr>entries := e\<rparr>) = sview p"
  "sview (p\<lparr>priorityIndex := i\<rparr>) = sview p" "sview (p\<lparr>tierDistribution := d\<rparr>) = sview p"
  "sview (p\<lparr>orderSeq := oo\<rparr>) = sview p"
  by (simp_all add: sview_def fun_eq_iff)

lemma staticD: "static p = static q \<Longrightarrow> tiers p = tiers q \<and> cfg p = cfg q \<and>
    maxQueuedPerSender p = maxQueuedPerSender q \<and> maxQueuedTotal p = maxQueuedTotal q"
  by (simp add: static_def)

lemma tierName_static: "static p = static q \<Longrightarrow> tierName p i = tierName q i"
  by (simp add: static_def tierName_def)

text \<open>A sum over the tracked senders changes by what one sender contributes.\<close>

lemma sum_view_upd:
  assumes "finite (dom v)" and "v s = Some a"
  shows "(\<Sum>x\<in>dom (v(s \<mapsto> b)). g (the ((v(s \<mapsto> b)) x))) = (\<Sum>x\<in>dom v. g (the (v x))) - g a + (g b :: int)"
proof -
  have s: "s \<in> dom v" using assms(2) by blast
  have "(\<Sum>x\<in>dom v - {s}. g (the ((v(s \<mapsto> b)) x))) = (\<Sum>x\<in>dom v - {s}. g (the (v x)))"
    by (rule sum.cong) auto
  then show ?thesis
    using s assms by (simp add: insert_absorb sum.remove [OF assms(1) s])
qed

section \<open>Primitive updates of the queue\<close>

text \<open>
  An update of one sender that leaves its active map alone keeps the consistency when the new
  sender state is sound and the counter moves with the queue.
\<close>

lemma consistent_queue_upd:
  assumes c: "consistent E p" and r: "mget (senders p) s = Some r"
    and act: "active (f (heap p r)) = active (heap p r)"
    and core: "sender_core E p s (f (heap p r))"
    and cnt: "cq = queuedCount p - int (mlen (queued (heap p r))) + int (mlen (queued (f (heap p r))))"
  shows "consistent E ((updSender p r f)\<lparr>queuedCount := cq\<rparr>)"
proof -
  note h = consistentD [OF c]
  let ?p = "(updSender p r f)\<lparr>queuedCount := cq\<rparr>"
  note sv = sview_updSender [OF h(1) r, of f]
  have core_eq: "sender_core E ?p t ss = sender_core E p t ss" for t ss
    by (simp add: sender_core_def entry_active_def)
  have "heap_ok ?p" using h(1) by (simp add: heap_ok_def)
  moreover have "\<forall>t ss. sview ?p t = Some ss \<longrightarrow> sender_core E ?p t ss"
    using h(6) core by (auto simp: sv core_eq split: if_splits)
  moreover have "entries_ok ?p"
    using h(2) act sview_Some [OF r] by (auto simp: entries_ok_def sv)
  moreover have "index_ok ?p" using h(3) by (simp add: index_ok_def)
  moreover have "queuedCount ?p = queuedTotal ?p"
    using h(4) cnt sum_view_upd [where g = "\<lambda>ss. int (mlen (queued ss))", OF finite_sview sview_Some [OF r]]
    by (simp add: queuedTotal_def sv)
  moreover have "tier_ok ?p" using h(5) by (simp add: tier_ok_def tierTotal_def tierName_def)
  ultimately show ?thesis by (simp add: consistent_def)
qed

lemma sender_core_drop:
  assumes core: "sender_core E p s ss" and n: "mget (queued ss) n = Some e"
  shows "sender_core E p s (setQueuedRangeOnRemoveLocked (ss\<lparr>queued := mdel (queued ss) n\<rparr>) n)"
proof -
  have bound: "\<forall>k\<in>mdom (queued ss). k < 2 ^ 64"
    using core by (fastforce simp: sender_core_def entry_static_def)
  have "range_ok (queued ss) (queuedMin (ss\<lparr>queued := mdel (queued ss) n\<rparr>))
          (queuedMax (ss\<lparr>queued := mdel (queued ss) n\<rparr>))"
    using core by (simp add: sender_core_def)
  from que.remove_exact [OF this, of n] bound n core show ?thesis
    by (auto simp: sender_core_def)
qed

lemma sender_core_put:
  assumes core: "sender_core E p s ss" and n: "n \<notin> mdom (active ss)" and e: "entry_static E s n e"
  shows "sender_core E p s (setQueuedRangeOnInsertLocked (ss\<lparr>queued := mput (queued ss) n e\<rparr>) n)"
proof -
  have "range_ok (queued ss) (queuedMin (ss\<lparr>queued := mput (queued ss) n e\<rparr>))
          (queuedMax (ss\<lparr>queued := mput (queued ss) n e\<rparr>))"
    using core by (simp add: sender_core_def)
  from que.insert_exact [OF this, of n e] n e core show ?thesis
    by (auto simp: sender_core_def split: if_splits)
qed

lemma sender_core_replace:
  assumes core: "sender_core E p s ss" and n: "mget (queued ss) n = Some e0" and e: "entry_static E s n e"
  shows "sender_core E p s (ss\<lparr>queued := mput (queued ss) n e\<rparr>)"
proof -
  have "mdom (mput (queued ss) n e) = mdom (queued ss)" using n by auto
  then have "range_ok (mput (queued ss) n e) (queuedMin ss) (queuedMax ss)"
    using core n by (auto simp: sender_core_def range_ok_def split: if_splits)
  with assms show ?thesis by (auto simp: sender_core_def split: if_splits)
qed

lemma dropQueued:
  assumes c: "consistent E p" and r: "mget (senders p) s = Some r" and n: "mget (queued (heap p r)) n = Some e"
  shows "consistent E (dropQueuedNonce p r n)"
proof -
  have "0 < mlen (queued (heap p r))" using n by (rule gm.len_pos)
  then show ?thesis unfolding dropQueuedNonce_def
    using consistentD(6) [OF c sview_Some [OF r]] n
    by (intro consistent_queue_upd [OF c r]) (auto simp: gm.len_del intro: sender_core_drop)
qed

lemma putQueued:
  assumes c: "consistent E p" and r: "mget (senders p) s = Some r" and n: "mget (queued (heap p r)) n = None"
    and a: "mget (active (heap p r)) n = None" and e: "entry_static E s n e"
  shows "consistent E (putQueuedNonce p r n e)"
  unfolding putQueuedNonce_def
  using consistentD(6) [OF c sview_Some [OF r]] n a e
  by (intro consistent_queue_upd [OF c r]) (auto simp: gm.len_put domIff intro: sender_core_put)

lemma replaceQueued:
  assumes c: "consistent E p" and r: "mget (senders p) s = Some r" and n: "mget (queued (heap p r)) n = Some e0"
    and e: "entry_static E s n e"
  shows "consistent E (updSender p r (\<lambda>ss. ss\<lparr>queued := mput (queued ss) n e\<rparr>))"
proof -
  have "consistent E ((updSender p r (\<lambda>ss. ss\<lparr>queued := mput (queued ss) n e\<rparr>))
          \<lparr>queuedCount := queuedCount p\<rparr>)"
    using consistentD(6) [OF c sview_Some [OF r]] n e
    by (intro consistent_queue_upd [OF c r]) (auto simp: gm.len_put intro: sender_core_replace)
  then show ?thesis by (simp add: updSender_def)
qed

text \<open>The frame of the queue primitives.\<close>

lemma dropQueued_frame [simp]:
  "senders (dropQueuedNonce p r n) = senders p" "entries (dropQueuedNonce p r n) = entries p"
  "priorityIndex (dropQueuedNonce p r n) = priorityIndex p" "freshRef (dropQueuedNonce p r n) = freshRef p"
  "orderSeq (dropQueuedNonce p r n) = orderSeq p" "static (dropQueuedNonce p r n) = static p"
  "queuedCount (dropQueuedNonce p r n) = queuedCount p - 1"
  "tiers (dropQueuedNonce p r n) = tiers p" "cfg (dropQueuedNonce p r n) = cfg p"
  "active (heap (dropQueuedNonce p r n) r) = active (heap p r)"
  "onChainSeq (heap (dropQueuedNonce p r n) r) = onChainSeq (heap p r)"
  "queued (heap (dropQueuedNonce p r n) r) = mdel (queued (heap p r)) n"
  "activeMax (heap (dropQueuedNonce p r n) r) = activeMax (heap p r)"
  "activeMin (heap (dropQueuedNonce p r n) r) = activeMin (heap p r)"
  "r' \<noteq> r \<Longrightarrow> heap (dropQueuedNonce p r n) r' = heap p r'"
  by (simp_all add: dropQueuedNonce_def)

lemma putQueued_frame [simp]:
  "senders (putQueuedNonce p r n e) = senders p" "entries (putQueuedNonce p r n e) = entries p"
  "priorityIndex (putQueuedNonce p r n e) = priorityIndex p" "freshRef (putQueuedNonce p r n e) = freshRef p"
  "orderSeq (putQueuedNonce p r n e) = orderSeq p" "static (putQueuedNonce p r n e) = static p"
  "queuedCount (putQueuedNonce p r n e) = queuedCount p + 1"
  "tiers (putQueuedNonce p r n e) = tiers p" "cfg (putQueuedNonce p r n e) = cfg p"
  "active (heap (putQueuedNonce p r n e) r) = active (heap p r)"
  "onChainSeq (heap (putQueuedNonce p r n e) r) = onChainSeq (heap p r)"
  "queued (heap (putQueuedNonce p r n e) r) = mput (queued (heap p r)) n e"
  "activeMax (heap (putQueuedNonce p r n e) r) = activeMax (heap p r)"
  "activeMin (heap (putQueuedNonce p r n e) r) = activeMin (heap p r)"
  "r' \<noteq> r \<Longrightarrow> heap (putQueuedNonce p r n e) r' = heap p r'"
  by (simp_all add: putQueuedNonce_def)

section \<open>Primitive updates of the active index\<close>

lemma tierTotal_del:
  assumes "mget (entries p) k = Some e"
  shows "card {j. \<exists>x. mget (mdel (entries p) k) j = Some x \<and> tierName p (e_tier x) = name} =
    (if tierName p (e_tier e) = name then tierTotal p name - 1 else tierTotal p name)"
proof -
  let ?S = "{j. \<exists>x. mget (entries p) j = Some x \<and> tierName p (e_tier x) = name}"
  have fin: "finite ?S" by (rule finite_subset [OF _ gm.finite_get [of "entries p"]]) auto
  have "{j. \<exists>x. mget (mdel (entries p) k) j = Some x \<and> tierName p (e_tier x) = name} = ?S - {k}"
    by auto
  moreover have "k \<in> ?S \<longleftrightarrow> tierName p (e_tier e) = name" using assms by auto
  ultimately show ?thesis using fin by (simp add: tierTotal_def card_Diff_singleton_if)
qed

lemma tierTotal_put:
  assumes "mget (entries p) k = None"
  shows "card {j. \<exists>x. mget (mput (entries p) k e) j = Some x \<and> tierName p (e_tier x) = name} =
    (if tierName p (e_tier e) = name then tierTotal p name + 1 else tierTotal p name)"
proof -
  let ?S = "{j. \<exists>x. mget (entries p) j = Some x \<and> tierName p (e_tier x) = name}"
  have fin: "finite ?S" by (rule finite_subset [OF _ gm.finite_get [of "entries p"]]) auto
  have "{j. \<exists>x. mget (mput (entries p) k e) j = Some x \<and> tierName p (e_tier x) = name} =
      (if tierName p (e_tier e) = name then insert k ?S else ?S)"
    using assms by auto
  moreover have "k \<notin> ?S" using assms by auto
  ultimately show ?thesis using fin by (simp add: tierTotal_def)
qed

lemma tierName_in_range:
  "tier_ok p \<Longrightarrow> 0 \<le> i \<Longrightarrow> i < int (length (tiers p)) \<Longrightarrow> tierName p i \<noteq> ''''"
  by (auto simp: tier_ok_def tierName_def)

text \<open>What \<open>removeEntryLocked\<close> does to each field when the entry is in the active map.\<close>

lemma removeEntry_fields:
  assumes r: "mget (senders p) (sender (e_key e)) = Some r"
    and n: "mget (active (heap p r)) (nonce (e_key e)) = Some e"
  shows "senders (removeEntryLocked E p e) = senders p"
    and "freshRef (removeEntryLocked E p e) = freshRef p"
    and "orderSeq (removeEntryLocked E p e) = orderSeq p"
    and "queuedCount (removeEntryLocked E p e) = queuedCount p"
    and "static (removeEntryLocked E p e) = static p"
    and "tiers (removeEntryLocked E p e) = tiers p"
    and "cfg (removeEntryLocked E p e) = cfg p"
    and "entries (removeEntryLocked E p e) = mdel (entries p) (e_key e)"
    and "priorityIndex (removeEntryLocked E p e) = skiplist_Remove E e (priorityIndex p)"
    and "heap (removeEntryLocked E p e) =
      (heap p)(r := setActiveRangeOnRemoveLocked
        ((heap p r)\<lparr>active := mdel (active (heap p r)) (nonce (e_key e))\<rparr>) (nonce (e_key e)))"
    and "tierName (removeEntryLocked E p e) i = tierName p i"
  using assms
  by (simp_all add: removeEntryLocked_def Let_def updSender_def tierName_def static_def split: option.splits)

lemma removeEntry_dist:
  assumes r: "mget (senders p) (sender (e_key e)) = Some r"
    and n: "mget (active (heap p r)) (nonce (e_key e)) = Some e"
    and t: "tierName p (e_tier e) \<noteq> ''''" "mget (tierDistribution p) (tierName p (e_tier e)) = Some c" "c > 0"
  shows "mget (tierDistribution (removeEntryLocked E p e)) =
    (mget (tierDistribution p))(tierName p (e_tier e) \<mapsto> c - 1)"
proof -
  let ?n = "nonce (e_key e)"
  let ?q = "updSender (p\<lparr>priorityIndex := skiplist_Remove E e (priorityIndex p), entries := mdel (entries p) (e_key e)\<rparr>)
      r (\<lambda>ss. setActiveRangeOnRemoveLocked (ss\<lparr>active := mdel (active ss) ?n\<rparr>) ?n)"
  have "tierName ?q (e_tier e) = tierName p (e_tier e)" by (simp add: tierName_def)
  then have "removeEntryLocked E p e =
      ?q\<lparr>tierDistribution := mput (tierDistribution p) (tierName p (e_tier e)) (c - 1)\<rparr>"
    using assms by (simp add: removeEntryLocked_def Let_def)
  then show ?thesis by simp
qed

lemma sender_core_deactivate:
  assumes core: "sender_core E p s ss" and n: "mget (active ss) n = Some e"
  shows "sender_core E p s (setActiveRangeOnRemoveLocked (ss\<lparr>active := mdel (active ss) n\<rparr>) n)"
proof -
  have bound: "\<forall>k\<in>mdom (active ss). k < 2 ^ 64"
    using core by (fastforce simp: sender_core_def entry_static_def)
  have "range_ok (active ss) (activeMin (ss\<lparr>active := mdel (active ss) n\<rparr>))
          (activeMax (ss\<lparr>active := mdel (active ss) n\<rparr>))"
    using core by (simp add: sender_core_def)
  from act.remove_exact [OF this, of n] bound n core show ?thesis
    by (auto simp: sender_core_def)
qed

lemma entries_ok_key:
  assumes "consistent E p" and "mget (entries p) k = Some e"
  shows "e_key e = k" and "mget (senders p) (sender k) \<noteq> None"
proof -
  from consistentD(2) [OF assms(1)] assms(2) obtain ss where ss: "sview p (sender k) = Some ss"
    and a: "mget (active ss) (nonce k) = Some e"
    by (auto simp: entries_ok_def split: option.splits)
  from consistentD(6) [OF assms(1) ss] a show "e_key e = k"
    by (auto simp: sender_core_def entry_static_def)
  from ss show "mget (senders p) (sender k) \<noteq> None" by (auto simp: sview_def)
qed

lemma index_removed:
  assumes c: "consistent E p" and sk: "skiplist_ok E" and k: "mget (entries p) (e_key e) = Some e"
  shows "index_sorted compareEntries (skiplist_Remove E e (priorityIndex p))"
    and "set (skiplist_Remove E e (priorityIndex p)) = ran (mget (mdel (entries p) (e_key e)))"
proof -
  have srt: "index_sorted compareEntries (priorityIndex p)"
    and set: "set (priorityIndex p) = ran (mget (entries p))"
    using consistentD(3) [OF c] by (simp_all add: index_ok_def)
  have rem: "skiplist_Remove E e (priorityIndex p) = filter (\<lambda>x. compareEntries x e \<noteq> 0) (priorityIndex p)"
    using sk srt by (simp add: skiplist_ok_def)
  show "index_sorted compareEntries (skiplist_Remove E e (priorityIndex p))"
    unfolding rem by (rule ce.index_sorted_filter [OF srt])
  have e: "e \<in> set (priorityIndex p)" using k set by (auto simp: ran_def)
  have "compareEntries x e \<noteq> 0 \<longleftrightarrow> x \<noteq> e" if "x \<in> set (priorityIndex p)" for x
    using ce.index_sorted_inj [OF srt that e] ce.cmp_eq by metis
  then have "set (filter (\<lambda>x. compareEntries x e \<noteq> 0) (priorityIndex p)) = set (priorityIndex p) - {e}"
    by auto
  also have "\<dots> = ran (mget (mdel (entries p) (e_key e)))"
  proof (intro equalityI subsetI)
    fix x assume "x \<in> set (priorityIndex p) - {e}"
    then obtain j where "mget (entries p) j = Some x" "x \<noteq> e" using set by (auto simp: ran_def)
    moreover from this k have "j \<noteq> e_key e" by auto
    ultimately show "x \<in> ran (mget (mdel (entries p) (e_key e)))" by (auto simp: ran_def)
  next
    fix x assume "x \<in> ran (mget (mdel (entries p) (e_key e)))"
    then obtain j where j: "mget (entries p) j = Some x" "j \<noteq> e_key e" by (auto simp: ran_def split: if_splits)
    from entries_ok_key(1) [OF c j(1)] j have "x \<noteq> e" by auto
    with j show "x \<in> set (priorityIndex p) - {e}" using set by (auto simp: ran_def)
  qed
  finally show "set (skiplist_Remove E e (priorityIndex p)) = ran (mget (mdel (entries p) (e_key e)))"
    unfolding rem .
qed

lemma tierTotal_pos:
  assumes "mget (entries p) k = Some e"
  shows "0 < tierTotal p (tierName p (e_tier e))"
proof -
  have "finite {j. \<exists>x. mget (entries p) j = Some x \<and> tierName p (e_tier x) = tierName p (e_tier e)}"
    by (rule finite_subset [OF _ gm.finite_get [of "entries p"]]) auto
  then show ?thesis using assms by (auto simp: tierTotal_def card_gt_0_iff)
qed

text \<open>
  \<open>consistent_upd\<close> collects what has to be shown after an update of the active map of one sender
  and of the global structures.
\<close>

lemma consistent_active_upd:
  assumes c: "consistent E p" and r: "mget (senders p) s = Some r"
    and q: "senders q = senders p" "freshRef q = freshRef p" "orderSeq q = orderSeq p"
      "queuedCount q = queuedCount p" "static q = static p" "heap q = (heap p)(r := ss')"
    and core: "sender_core E p s ss'" and que: "queued ss' = queued (heap p r)"
    and ent: "\<And>k. mget (entries q) k =
      (if sender k = s then mget (active ss') (nonce k) else mget (entries p) k)"
    and idx: "index_ok q" and tier: "tier_ok q"
  shows "consistent E q"
proof -
  note h = consistentD [OF c]
  have sv: "sview q = (sview p)(s \<mapsto> ss')"
    using h(1) r q(1,6) by (auto simp: sview_def heap_ok_def fun_eq_iff map_option_case split: option.splits)
  have core_eq: "sender_core E q t x = sender_core E p t x" for t x
    using q(3,5) by (simp add: sender_core_def entry_active_def static_def)
  have "heap_ok q" using h(1) q(1,2) by (simp add: heap_ok_def)
  moreover have "\<forall>t x. sview q t = Some x \<longrightarrow> sender_core E q t x"
    using h(6) core by (auto simp: sv core_eq split: if_splits)
  moreover have "entries_ok q"
    using h(2) ent by (auto simp: entries_ok_def sv)
  moreover have "queuedCount q = queuedTotal q"
    using h(4) q(4) que sum_view_upd [where g = "\<lambda>ss. int (mlen (queued ss))", OF finite_sview sview_Some [OF r]]
    by (simp add: queuedTotal_def sv)
  ultimately show ?thesis using idx tier by (simp add: consistent_def)
qed

lemma removeEntry:
  assumes c: "consistent E p" and sk: "skiplist_ok E"
    and r: "mget (senders p) s = Some r" and n: "mget (active (heap p r)) n = Some e"
  shows "consistent E (removeEntryLocked E p e)"
proof -
  note h = consistentD [OF c]
  have core: "sender_core E p s (heap p r)" using h(6) [OF sview_Some [OF r]] .
  then have key: "e_key e = \<lparr>sender = s, nonce = n\<rparr>" and ea: "entry_active p e"
    using n by (auto simp: sender_core_def entry_static_def)
  have k: "mget (entries p) (e_key e) = Some e"
    using h(2) n sview_Some [OF r] by (simp add: entries_ok_def key)
  have r': "mget (senders p) (sender (e_key e)) = Some r" and n': "mget (active (heap p r)) (nonce (e_key e)) = Some e"
    using r n key by simp_all
  note f = removeEntry_fields [OF r' n', where E = E]
  let ?q = "removeEntryLocked E p e"
  show ?thesis
  proof (rule consistent_active_upd [OF c r f(1) f(2) f(3) f(4) f(5) f(10)])
    show "sender_core E p s (setActiveRangeOnRemoveLocked
        ((heap p r)\<lparr>active := mdel (active (heap p r)) (nonce (e_key e))\<rparr>) (nonce (e_key e)))"
      using sender_core_deactivate [OF core n] by (simp add: key)
    show "index_ok ?q"
      using index_removed [OF c sk k] by (simp add: index_ok_def f(8) f(9))
    show "mget (entries ?q) j = (if sender j = s
        then mget (active (setActiveRangeOnRemoveLocked ((heap p r)\<lparr>active := mdel (active (heap p r)) (nonce (e_key e))\<rparr>)
               (nonce (e_key e)))) (nonce j)
        else mget (entries p) j)" for j
      using h(2) sview_Some [OF r] by (cases j) (auto simp: f(8) key entries_ok_def)
    show "tier_ok ?q"
    proof -
      have nm: "tierName p (e_tier e) \<noteq> ''''"
        using tierName_in_range [OF h(5)] ea by (simp add: entry_active_def)
      have d: "mget (tierDistribution p) (tierName p (e_tier e)) = Some (tierTotal p (tierName p (e_tier e)))"
        using h(5) ea by (simp add: tier_ok_def entry_active_def)
      note dist = removeEntry_dist [OF r' n' nm d tierTotal_pos [OF k], where E = E]
      have tot: "tierTotal ?q name = (if tierName p (e_tier e) = name then tierTotal p name - 1 else tierTotal p name)" for name
        using tierTotal_del [OF k, of name] unfolding tierTotal_def [of ?q] f(8) f(11) .
      show ?thesis using h(5) unfolding tier_ok_def f(6) f(11) dist tot by auto
    qed
  qed simp
qed

text \<open>What \<open>addEntryLocked\<close> does to each field when the sender is tracked.\<close>

lemma addEntry_fields:
  assumes r: "mget (senders p) (sender (e_key e)) = Some r"
  shows "senders (addEntryLocked E p e) = senders p"
    and "freshRef (addEntryLocked E p e) = freshRef p"
    and "orderSeq (addEntryLocked E p e) = orderSeq p"
    and "queuedCount (addEntryLocked E p e) = queuedCount p"
    and "static (addEntryLocked E p e) = static p"
    and "tiers (addEntryLocked E p e) = tiers p"
    and "cfg (addEntryLocked E p e) = cfg p"
    and "entries (addEntryLocked E p e) = mput (entries p) (e_key e) e"
    and "priorityIndex (addEntryLocked E p e) = skiplist_Set E e (priorityIndex p)"
    and "heap (addEntryLocked E p e) =
      (heap p)(r := setActiveRangeOnInsertLocked
        ((heap p r)\<lparr>active := mput (active (heap p r)) (nonce (e_key e)) e\<rparr>) (nonce (e_key e)))"
    and "tierName (addEntryLocked E p e) i = tierName p i"
  using assms
  by (simp_all add: addEntryLocked_def getOrCreateSenderLocked_def Let_def updSender_def tierName_def static_def)

lemma addEntry_dist:
  assumes r: "mget (senders p) (sender (e_key e)) = Some r"
    and t: "tierName p (e_tier e) \<noteq> ''''" "mget (tierDistribution p) (tierName p (e_tier e)) = Some c"
  shows "mget (tierDistribution (addEntryLocked E p e)) =
    (mget (tierDistribution p))(tierName p (e_tier e) \<mapsto> c + 1)"
proof -
  let ?n = "nonce (e_key e)"
  let ?q = "updSender (p\<lparr>priorityIndex := skiplist_Set E e (priorityIndex p), entries := mput (entries p) (e_key e) e\<rparr>)
      r (\<lambda>ss. setActiveRangeOnInsertLocked (ss\<lparr>active := mput (active ss) ?n e\<rparr>) ?n)"
  have "tierName ?q (e_tier e) = tierName p (e_tier e)" by (simp add: tierName_def)
  then have "addEntryLocked E p e =
      ?q\<lparr>tierDistribution := mput (tierDistribution p) (tierName p (e_tier e)) (c + 1)\<rparr>"
    using assms by (simp add: addEntryLocked_def getOrCreateSenderLocked_def Let_def)
  then show ?thesis by simp
qed

lemma sender_core_activate:
  assumes core: "sender_core E p s ss" and n: "n \<notin> mdom (queued ss)"
    and e: "entry_static E s n e" "entry_active p e"
  shows "sender_core E p s (setActiveRangeOnInsertLocked (ss\<lparr>active := mput (active ss) n e\<rparr>) n)"
proof -
  have "range_ok (active ss) (activeMin (ss\<lparr>active := mput (active ss) n e\<rparr>))
          (activeMax (ss\<lparr>active := mput (active ss) n e\<rparr>))"
    using core by (simp add: sender_core_def)
  from act.insert_exact [OF this, of n e] n e core show ?thesis
    by (auto simp: sender_core_def split: if_splits)
qed

lemma index_added:
  assumes c: "consistent E p" and sk: "skiplist_ok E" and k: "mget (entries p) (e_key e) = None"
  shows "index_sorted compareEntries (skiplist_Set E e (priorityIndex p))"
    and "set (skiplist_Set E e (priorityIndex p)) = ran (mget (mput (entries p) (e_key e) e))"
proof -
  have srt: "index_sorted compareEntries (priorityIndex p)"
    and set: "set (priorityIndex p) = ran (mget (entries p))"
    using consistentD(3) [OF c] by (simp_all add: index_ok_def)
  show "index_sorted compareEntries (skiplist_Set E e (priorityIndex p))"
    using sk srt by (simp add: skiplist_ok_def)
  have "compareEntries x e \<noteq> 0" if "x \<in> set (priorityIndex p)" for x
  proof
    assume "compareEntries x e = 0"
    then have "e_key x = e_key e" by (simp add: ce.cmp_eq rankOf_def)
    moreover from that set obtain j where "mget (entries p) j = Some x" by (auto simp: ran_def)
    ultimately show False using entries_ok_key(1) [OF c] k by fastforce
  qed
  then have "set (skiplist_Set E e (priorityIndex p)) = insert e (set (priorityIndex p))"
    using sk srt by (auto simp: skiplist_ok_def)
  also have "\<dots> = ran (mget (mput (entries p) (e_key e) e))"
    using k set by simp
  finally show "set (skiplist_Set E e (priorityIndex p)) = ran (mget (mput (entries p) (e_key e) e))" .
qed

lemma addEntry:
  assumes c: "consistent E p" and sk: "skiplist_ok E"
    and r: "mget (senders p) s = Some r" and n: "mget (active (heap p r)) n = None"
    and nq: "mget (queued (heap p r)) n = None"
    and e: "entry_static E s n e" "entry_active p e"
  shows "consistent E (addEntryLocked E p e)"
proof -
  note h = consistentD [OF c]
  have core: "sender_core E p s (heap p r)" using h(6) [OF sview_Some [OF r]] .
  have key: "e_key e = \<lparr>sender = s, nonce = n\<rparr>" using e by (simp add: entry_static_def)
  have k: "mget (entries p) (e_key e) = None"
    using h(2) n sview_Some [OF r] by (simp add: entries_ok_def key)
  have r': "mget (senders p) (sender (e_key e)) = Some r" using r key by simp
  note f = addEntry_fields [OF r', where E = E]
  let ?q = "addEntryLocked E p e"
  show ?thesis
  proof (rule consistent_active_upd [OF c r f(1) f(2) f(3) f(4) f(5) f(10)])
    show "sender_core E p s (setActiveRangeOnInsertLocked
        ((heap p r)\<lparr>active := mput (active (heap p r)) (nonce (e_key e)) e\<rparr>) (nonce (e_key e)))"
      using sender_core_activate [OF core _ e] nq by (simp add: key domIff)
    show "index_ok ?q"
      using index_added [OF c sk k] by (simp add: index_ok_def f(8) f(9))
    show "mget (entries ?q) j = (if sender j = s
        then mget (active (setActiveRangeOnInsertLocked ((heap p r)\<lparr>active := mput (active (heap p r)) (nonce (e_key e)) e\<rparr>)
               (nonce (e_key e)))) (nonce j)
        else mget (entries p) j)" for j
      using h(2) sview_Some [OF r] by (cases j) (auto simp: f(8) key entries_ok_def)
    show "tier_ok ?q"
    proof -
      have nm: "tierName p (e_tier e) \<noteq> ''''"
        using tierName_in_range [OF h(5)] e by (simp add: entry_active_def)
      have d: "mget (tierDistribution p) (tierName p (e_tier e)) = Some (tierTotal p (tierName p (e_tier e)))"
        using h(5) e by (simp add: tier_ok_def entry_active_def)
      note dist = addEntry_dist [OF r' nm d, where E = E]
      have tot: "tierTotal ?q name = (if tierName p (e_tier e) = name then tierTotal p name + 1 else tierTotal p name)" for name
        using tierTotal_put [OF k, of e name] unfolding tierTotal_def [of ?q] f(8) f(11) .
      show ?thesis using h(5) unfolding tier_ok_def f(6) f(11) dist tot by auto
    qed
  qed simp
qed

section \<open>Frame and content\<close>

text \<open>
  \<open>only r p q\<close>: going from \<open>p\<close> to \<open>q\<close> touched one sender object, and neither the set of senders,
  nor the counters of orders and addresses, nor the event queues.
\<close>

definition evs :: "'s PriorityMempool \<Rightarrow>
    bool \<times> bool \<times> bool \<times> AppMempoolEvent list \<times> AppMempoolEvent list \<times> bool \<times> bool" where
  "evs p = (eventCh p, appEventCh p, eventStop p, cometQueue p, appQueue p, cometNotify p, appNotify p)"

definition only :: "nat \<Rightarrow> 's PriorityMempool \<Rightarrow> 's PriorityMempool \<Rightarrow> bool" where
  "only r p q \<longleftrightarrow>
     senders q = senders p \<and> freshRef q = freshRef p \<and> orderSeq q = orderSeq p \<and>
     static q = static p \<and> evs q = evs p \<and> onChainSeq (heap q r) = onChainSeq (heap p r) \<and>
     (\<forall>r'. r' \<noteq> r \<longrightarrow> heap q r' = heap p r')"

lemma only_refl [simp]: "only r p p"
  by (simp add: only_def)

lemma only_trans [trans]: "only r p q \<Longrightarrow> only r q u \<Longrightarrow> only r p u"
  by (simp add: only_def)

lemma onlyD:
  assumes "only r p q"
  shows "senders q = senders p" "freshRef q = freshRef p" "orderSeq q = orderSeq p" "static q = static p"
    "evs q = evs p" "onChainSeq (heap q r) = onChainSeq (heap p r)" "r' \<noteq> r \<Longrightarrow> heap q r' = heap p r'"
    "tiers q = tiers p" "cfg q = cfg p" "maxQueuedPerSender q = maxQueuedPerSender p"
    "maxQueuedTotal q = maxQueuedTotal p"
  using assms by (simp_all add: only_def static_def)

lemma evs_upd [simp]:
  "evs (updSender p r f) = evs p" "evs (p\<lparr>queuedCount := c\<rparr>) = evs p" "evs (p\<lparr>senders := s\<rparr>) = evs p"
  "evs (p\<lparr>orderSeq := n\<rparr>) = evs p" "evs (p\<lparr>heap := h\<rparr>) = evs p" "evs (p\<lparr>freshRef := fr\<rparr>) = evs p"
  by (simp_all add: evs_def updSender_def)

lemma evs_entry [simp]: "evs (removeEntryLocked E p e) = evs p" "evs (addEntryLocked E p e) = evs p"
  by (simp_all add: evs_def removeEntryLocked_def addEntryLocked_def getOrCreateSenderLocked_def updSender_def
      Let_def split: option.splits prod.splits)

lemma only_drop: "only r p (dropQueuedNonce p r n)"
  and only_put: "only r p (putQueuedNonce p r n e)"
  and only_replace: "only r p (updSender p r (\<lambda>ss. ss\<lparr>queued := mput (queued ss) n e\<rparr>))"
  by (simp_all add: only_def) (simp_all add: dropQueuedNonce_def putQueuedNonce_def)

text \<open>
  \<open>held p\<close> is what the pool holds: for every key the transaction, its bytes and its priority,
  whether it is active or queued. A removal accounts for the entries it reports when they were
  held, are held no longer, and nothing else has changed.
\<close>

definition ident :: "txEntry \<Rightarrow> sdk_tx \<times> bytes \<times> int" where
  "ident e = (e_tx e, e_bytes e, e_priority e)"

definition sheld :: "senderState \<Rightarrow> nat \<Rightarrow> (sdk_tx \<times> bytes \<times> int) option" where
  "sheld ss n = map_option ident (case mget (active ss) n of Some e \<Rightarrow> Some e | None \<Rightarrow> mget (queued ss) n)"

definition held :: "'s PriorityMempool \<Rightarrow> txKey \<Rightarrow> (sdk_tx \<times> bytes \<times> int) option" where
  "held p k = (case sview p (sender k) of None \<Rightarrow> None | Some ss \<Rightarrow> sheld ss (nonce k))"

definition accounted :: "'s PriorityMempool \<Rightarrow> txEntry list \<Rightarrow> 's PriorityMempool \<Rightarrow> bool" where
  "accounted p removed q \<longleftrightarrow>
     distinct (map e_key removed) \<and> (\<forall>e\<in>set removed. held p (e_key e) = Some (ident e)) \<and>
     held q = held p |` (- e_key ` set removed)"

lemma accounted_Nil: "held q = held p \<Longrightarrow> accounted p [] q"
  by (simp add: accounted_def restrict_map_def)

lemma accounted_refl [simp]: "accounted p [] p"
  by (simp add: accounted_Nil)

lemma accounted_one:
  "held p (e_key e) = Some (ident e) \<Longrightarrow> held q = (held p)(e_key e := None) \<Longrightarrow> accounted p [e] q"
  by (auto simp: accounted_def restrict_map_def fun_eq_iff)

lemma accounted_append:
  assumes a: "accounted p R q" and b: "accounted q S u"
  shows "accounted p (R @ S) u"
proof -
  have S: "held p (e_key e) = Some (ident e) \<and> e_key e \<notin> e_key ` set R" if "e \<in> set S" for e
  proof -
    have "(held p |` (- e_key ` set R)) (e_key e) = Some (ident e)"
      using a b that unfolding accounted_def by metis
    then show ?thesis by (auto simp: restrict_map_def split: if_splits)
  qed
  have disj: "set (map e_key R) \<inter> set (map e_key S) = {}"
    unfolding set_map disjoint_iff using S by blast
  then have "distinct (map e_key (R @ S))" using a b by (simp add: accounted_def)
  moreover have "\<forall>e\<in>set (R @ S). held p (e_key e) = Some (ident e)"
    using a S by (auto simp: accounted_def)
  moreover have "held u = held p |` (- e_key ` set (R @ S))"
    using a b by (auto simp: accounted_def restrict_map_def fun_eq_iff)
  ultimately show ?thesis by (simp add: accounted_def)
qed

lemma held_only:
  assumes "heap_ok p" and "mget (senders p) s = Some r" and "only r p q"
  shows "held q k = (if sender k = s then sheld (heap q r) (nonce k) else held p k)"
proof (cases "sender k = s")
  case True
  then show ?thesis using assms by (simp add: held_def sview_def only_def)
next
  case False
  then have "mget (senders p) (sender k) \<noteq> Some r" using assms(1,2) by (auto simp: heap_ok_def)
  with False show ?thesis using assms(3)
    by (cases "mget (senders p) (sender k)") (auto simp: held_def sview_def only_def)
qed

lemma sender_core_disjoint:
  "sender_core E p s ss \<Longrightarrow> mget (active ss) n = Some e \<Longrightarrow> mget (queued ss) n = None"
  by (cases "mget (queued ss) n") (auto simp: sender_core_def)

lemma sender_core_key:
  assumes "sender_core E p s ss"
  shows "mget (active ss) n = Some e \<Longrightarrow> e_key e = \<lparr>sender = s, nonce = n\<rparr>"
    and "mget (queued ss) n = Some e \<Longrightarrow> e_key e = \<lparr>sender = s, nonce = n\<rparr>"
  using assms by (auto simp: sender_core_def entry_static_def)

lemma held_active: "mget (senders p) s = Some r \<Longrightarrow> mget (active (heap p r)) n = Some e \<Longrightarrow>
    held p \<lparr>sender = s, nonce = n\<rparr> = Some (ident e)"
  by (simp add: held_def sview_def sheld_def)

lemma held_queued: "mget (senders p) s = Some r \<Longrightarrow> mget (active (heap p r)) n = None \<Longrightarrow>
    held p \<lparr>sender = s, nonce = n\<rparr> = map_option ident (mget (queued (heap p r)) n)"
  by (simp add: held_def sview_def sheld_def)

lemma held_local:
  assumes c: "consistent E p" and r: "mget (senders p) s = Some r" and o: "only r p q"
    and sh: "\<And>m. sheld (heap q r) m = (if m = n then v else sheld (heap p r) m)"
  shows "held q = (held p)(\<lparr>sender = s, nonce = n\<rparr> := v)"
proof
  fix k :: txKey
  have k: "k = \<lparr>sender = s, nonce = n\<rparr> \<longleftrightarrow> sender k = s \<and> nonce k = n" by (cases k) simp
  have "held q k = (if sender k = s then sheld (heap q r) (nonce k) else held p k)"
    and "held p k = (if sender k = s then sheld (heap p r) (nonce k) else held p k)"
    using held_only [OF consistentD(1) [OF c] r] o by (blast, simp add: held_def sview_def r)
  then show "held q k = ((held p)(\<lparr>sender = s, nonce = n\<rparr> := v)) k"
    unfolding fun_upd_apply k sh by (cases "sender k = s"; cases "nonce k = n") simp_all
qed

lemma removeEntry_step:
  assumes c: "consistent E p" and sk: "skiplist_ok E"
    and r: "mget (senders p) s = Some r" and n: "mget (active (heap p r)) n = Some e"
  shows "only r p (removeEntryLocked E p e)"
    and "active (heap (removeEntryLocked E p e) r) = mdel (active (heap p r)) n"
    and "queued (heap (removeEntryLocked E p e) r) = queued (heap p r)"
    and "accounted p [e] (removeEntryLocked E p e)"
proof -
  have core: "sender_core E p s (heap p r)" using consistentD(6) [OF c sview_Some [OF r]] .
  have key: "e_key e = \<lparr>sender = s, nonce = n\<rparr>" using sender_core_key(1) [OF core n] .
  have r': "mget (senders p) (sender (e_key e)) = Some r" and n': "mget (active (heap p r)) (nonce (e_key e)) = Some e"
    using r n key by simp_all
  note f = removeEntry_fields [OF r' n', where E = E]
  show o: "only r p (removeEntryLocked E p e)" using f by (simp add: only_def)
  show a: "active (heap (removeEntryLocked E p e) r) = mdel (active (heap p r)) n"
    and q: "queued (heap (removeEntryLocked E p e) r) = queued (heap p r)"
    by (simp_all add: f(10) key)
  have "held (removeEntryLocked E p e) = (held p)(\<lparr>sender = s, nonce = n\<rparr> := None)"
    using sender_core_disjoint [OF core n] by (intro held_local [OF c r o]) (simp add: sheld_def a q split: option.split)
  then show "accounted p [e] (removeEntryLocked E p e)"
    using held_active [OF r n] key by (intro accounted_one) simp_all
qed

lemma dropQueued_accounted:
  assumes c: "consistent E p" and r: "mget (senders p) s = Some r" and n: "mget (queued (heap p r)) n = Some e"
  shows "accounted p [e] (dropQueuedNonce p r n)"
proof -
  have core: "sender_core E p s (heap p r)" using consistentD(6) [OF c sview_Some [OF r]] .
  have key: "e_key e = \<lparr>sender = s, nonce = n\<rparr>" using sender_core_key(2) [OF core n] .
  have a: "mget (active (heap p r)) n = None"
    using sender_core_disjoint [OF core, of n] n by (cases "mget (active (heap p r)) n") auto
  have "held (dropQueuedNonce p r n) = (held p)(\<lparr>sender = s, nonce = n\<rparr> := None)"
    using a by (intro held_local [OF c r only_drop]) (simp add: sheld_def split: option.split)
  then show ?thesis using held_queued [OF r a] n key by (intro accounted_one) simp_all
qed

lemma putQueued_held:
  assumes c: "consistent E p" and r: "mget (senders p) s = Some r" and n: "mget (active (heap p r)) n = None"
  shows "held (putQueuedNonce p r n e) = (held p)(\<lparr>sender = s, nonce = n\<rparr> \<mapsto> ident e)"
  using n by (intro held_local [OF c r only_put]) (simp add: sheld_def split: option.split)

lemma replaceQueued_held:
  assumes c: "consistent E p" and r: "mget (senders p) s = Some r" and n: "mget (active (heap p r)) n = None"
  shows "held (updSender p r (\<lambda>ss. ss\<lparr>queued := mput (queued ss) n e\<rparr>)) =
    (held p)(\<lparr>sender = s, nonce = n\<rparr> \<mapsto> ident e)"
  using n by (intro held_local [OF c r only_replace]) (simp add: sheld_def split: option.split)

lemma addEntry_step:
  assumes c: "consistent E p" and r: "mget (senders p) s = Some r" and key: "e_key e = \<lparr>sender = s, nonce = n\<rparr>"
  shows "only r p (addEntryLocked E p e)"
    and "active (heap (addEntryLocked E p e) r) = mput (active (heap p r)) n e"
    and "queued (heap (addEntryLocked E p e) r) = queued (heap p r)"
    and "held (addEntryLocked E p e) = (held p)(\<lparr>sender = s, nonce = n\<rparr> \<mapsto> ident e)"
proof -
  have r': "mget (senders p) (sender (e_key e)) = Some r" using r key by simp
  note f = addEntry_fields [OF r', where E = E]
  show o: "only r p (addEntryLocked E p e)" using f by (simp add: only_def)
  show a: "active (heap (addEntryLocked E p e) r) = mput (active (heap p r)) n e"
    and q: "queued (heap (addEntryLocked E p e) r) = queued (heap p r)"
    by (simp_all add: f(10) key)
  show "held (addEntryLocked E p e) = (held p)(\<lparr>sender = s, nonce = n\<rparr> \<mapsto> ident e)"
    by (intro held_local [OF c r o]) (simp add: sheld_def a q split: option.split)
qed

section \<open>Senders that come and go\<close>

text \<open>An update of the cursor or the timer of a sender.\<close>

lemma updScalar:
  assumes c: "consistent E p" and r: "mget (senders p) s = Some r"
    and f: "active (f (heap p r)) = active (heap p r)" "activeMin (f (heap p r)) = activeMin (heap p r)"
      "activeMax (f (heap p r)) = activeMax (heap p r)" "queued (f (heap p r)) = queued (heap p r)"
      "queuedMin (f (heap p r)) = queuedMin (heap p r)" "queuedMax (f (heap p r)) = queuedMax (heap p r)"
  shows "consistent E (updSender p r f)" and "held (updSender p r f) = held p"
proof -
  have "consistent E ((updSender p r f)\<lparr>queuedCount := queuedCount p\<rparr>)"
    using consistentD(6) [OF c sview_Some [OF r]] f
    by (intro consistent_queue_upd [OF c r]) (simp_all add: sender_core_def)
  then show "consistent E (updSender p r f)" by (simp add: updSender_def)
  show "held (updSender p r f) = held p"
    using f sview_Some [OF r]
    by (auto simp: held_def sview_updSender [OF consistentD(1) [OF c] r] sheld_def fun_eq_iff split: option.split)
qed

lemma isEmpty_iff: "isEmpty ss \<longleftrightarrow> mget (active ss) = Map.empty \<and> mget (queued ss) = Map.empty"
  by (simp add: isEmpty_def gm.len_0)

text \<open>\<open>pruned p q\<close>: some senders without entries have been forgotten, and nothing else happened.\<close>

definition pruned :: "'s PriorityMempool \<Rightarrow> 's PriorityMempool \<Rightarrow> bool" where
  "pruned p q \<longleftrightarrow>
     (\<exists>m. q = p\<lparr>senders := m\<rparr> \<and>
       (\<forall>s. mget m s = mget (senders p) s \<or>
         (mget m s = None \<and> (\<exists>r. mget (senders p) s = Some r \<and> isEmpty (heap p r)))))"

lemma pruned_refl [simp]: "pruned p p"
  unfolding pruned_def by (rule exI [where x = "senders p"]) simp

lemma cleanupSender_pruned: "pruned p (cleanupSenderLocked p s)"
  unfolding pruned_def cleanupSenderLocked_def
  by (rule exI [where x = "senders (cleanupSenderLocked p s)"])
    (auto simp: cleanupSenderLocked_def split: option.split)

lemma pruned_consistent:
  assumes c: "consistent E p" and pr: "pruned p q"
  shows "consistent E q" and "held q = held p"
proof -
  note h = consistentD [OF c]
  from pr obtain m where q: "q = p\<lparr>senders := m\<rparr>"
    and m: "\<And>s. mget m s = mget (senders p) s \<or>
        (mget m s = None \<and> (\<exists>r. mget (senders p) s = Some r \<and> isEmpty (heap p r)))"
    unfolding pruned_def by blast
  have sv: "sview q s = sview p s \<or> (sview q s = None \<and> (\<exists>ss. sview p s = Some ss \<and> isEmpty ss))" for s
    using m [of s] by (auto simp: q sview_def)
  have sub: "mget m s = Some r \<Longrightarrow> mget (senders p) s = Some r" for s r using m [of s] by auto
  have core: "sender_core E q = sender_core E p"
    by (simp add: q sender_core_def entry_active_def fun_eq_iff)
  have ent: "entries q = entries p" by (simp add: q)
  have "heap_ok q" using h(1) sub by (simp add: heap_ok_def q) blast
  moreover have "\<forall>s ss. sview q s = Some ss \<longrightarrow> sender_core E q s ss"
    using h(6) sv by (metis core option.distinct(1))
  moreover have "entries_ok q"
    unfolding entries_ok_def
  proof
    fix k
    show "mget (entries q) k = (case sview q (sender k) of None \<Rightarrow> None | Some ss \<Rightarrow> mget (active ss) (nonce k))"
      using h(2) sv [of "sender k"] ent by (auto simp: entries_ok_def isEmpty_iff simp del: sview_None)
  qed
  moreover have "index_ok q" using h(3) by (simp add: index_ok_def q)
  moreover have "queuedTotal q = queuedTotal p"
    unfolding queuedTotal_def
  proof (rule sum.mono_neutral_cong_left)
    show "dom (sview q) \<subseteq> dom (sview p)"
      using sv by (metis domIff subsetI)
    show "\<forall>s\<in>dom (sview p) - dom (sview q). int (mlen (queued (the (sview p s)))) = 0"
      using sv by (metis DiffD2 domIff isEmpty_def of_nat_0 option.sel DiffD1)
    show "int (mlen (queued (the (sview q s)))) = int (mlen (queued (the (sview p s))))" if "s \<in> dom (sview q)" for s
      using sv [of s] that by (auto simp del: sview_None)
  qed simp
  moreover have "tier_ok q" using h(5) by (simp add: tier_ok_def tierTotal_def tierName_def q)
  ultimately show "consistent E q" using h(4) by (simp add: consistent_def q)
  show "held q = held p"
  proof
    fix k show "held q k = held p k"
      using sv [of "sender k"] by (auto simp: held_def sheld_def isEmpty_iff simp del: sview_None)
  qed
qed

lemma newSender:
  assumes c: "consistent E p" and n: "mget (senders p) s = None" and g: "getOrCreateSenderLocked p s = (q, r)"
  shows "consistent E q" and "held q = held p" and "mget (senders q) s = Some r" and "heap q r = emptySender"
    and "sview q = (sview p)(s \<mapsto> emptySender)" and "entries q = entries p" and "orderSeq q = orderSeq p"
    and "static q = static p" and "evs q = evs p"
proof -
  note h = consistentD [OF c]
  have q: "q = p\<lparr>heap := (heap p)(freshRef p := emptySender), freshRef := freshRef p + 1,
      senders := mput (senders p) s (freshRef p)\<rparr>" and r: "r = freshRef p"
    using g n by (auto simp: getOrCreateSenderLocked_def Let_def)
  have fresh: "mget (senders p) t \<noteq> Some (freshRef p)" for t using h(1) by (fastforce simp: heap_ok_def)
  show sv: "sview q = (sview p)(s \<mapsto> emptySender)"
    using fresh by (fastforce simp: sview_def q map_option_case split: option.split)
  have "heap_ok q" using h(1) fresh by (auto simp: heap_ok_def q less_Suc_eq)
  moreover have "sender_core E q t ss" if "sview q t = Some ss" for t ss
  proof -
    have core: "sender_core E q = sender_core E p"
      by (simp add: q sender_core_def entry_active_def fun_eq_iff)
    have "sender_core E p t emptySender" by (simp add: sender_core_def range_ok_def emptySender_def)
    then show ?thesis using h(6) [of t ss] that by (auto simp: core sv split: if_splits)
  qed
  moreover have "entries_ok q"
  proof -
    have "entries q = entries p" by (simp add: q)
    moreover have "sview p s = None" using n by simp
    ultimately show ?thesis using h(2) by (auto simp: entries_ok_def sv emptySender_def simp del: sview_None)
  qed
  moreover have "index_ok q" using h(3) by (simp add: index_ok_def q)
  moreover have "queuedTotal q = queuedTotal p"
  proof -
    have "s \<notin> dom (sview p)" using n by (simp add: domIff)
    moreover have "(\<Sum>t\<in>dom (sview p). int (mlen (queued (the (((sview p)(s \<mapsto> emptySender)) t))))) =
        (\<Sum>t\<in>dom (sview p). int (mlen (queued (the (sview p t)))))"
      using calculation by (intro sum.cong) auto
    moreover have "mlen (queued emptySender) = 0" by (simp add: emptySender_def gm.len_0)
    ultimately show ?thesis unfolding queuedTotal_def sv by simp
  qed
  moreover have "tier_ok q" using h(5) by (simp add: tier_ok_def tierTotal_def tierName_def q)
  ultimately show "consistent E q" using h(4) by (simp add: consistent_def q)
  have "sview p s = None" using n by simp
  then show "held q = held p"
    by (auto simp: held_def sv sheld_def emptySender_def fun_eq_iff simp del: sview_None)
  show "mget (senders q) s = Some r" and "heap q r = emptySender" by (simp_all add: q r)
  show "entries q = entries p" "orderSeq q = orderSeq p" "static q = static p" "evs q = evs p"
    by (simp_all add: q static_def evs_def)
qed

text \<open>The pool that \<open>NewPriorityMempool\<close> returns.\<close>

lemma itoa_nonempty: "itoa n \<noteq> ''''"
  by (subst itoa.simps) simp

lemma buildTierMatchers_names: "t \<in> set (buildTierMatchers c) \<Longrightarrow> tm_Name t \<noteq> ''''"
proof -
  have "t \<in> set (buildTierMatchers_from ts i) \<Longrightarrow> tm_Name t \<noteq> ''''" for ts i
    by (induction ts i rule: buildTierMatchers_from.induct) (auto simp: Let_def itoa_nonempty split: option.splits if_splits)
  then show "t \<in> set (buildTierMatchers c) \<Longrightarrow> tm_Name t \<noteq> ''''" by (auto simp: buildTierMatchers_def)
qed

lemma initTierDistribution_get:
  "mget (initTierDistribution ts) name =
    (if name \<noteq> '''' \<and> name \<in> tm_Name ` set ts then Some 0 else None)"
proof -
  have a: "mget (fold (\<lambda>t dist. if tm_Name t = '''' then dist else mput dist (tm_Name t) 0) ts d) name =
      (if name \<noteq> '''' \<and> name \<in> tm_Name ` set ts then Some 0 else mget d name)" for d
    by (induction ts arbitrary: d) auto
  show ?thesis unfolding initTierDistribution_def a by simp
qed

lemma new_consistent: "consistent E (NewPriorityMempool c)"
proof -
  let ?p = "NewPriorityMempool c"
  have sv: "sview ?p = Map.empty" by (simp add: sview_def NewPriorityMempool_def Let_def fun_eq_iff)
  have f: "senders ?p = mempty" "entries ?p = mempty" "priorityIndex ?p = []" "queuedCount ?p = 0"
    "tiers ?p = buildTierMatchers c" "tierDistribution ?p = initTierDistribution (buildTierMatchers c)"
    by (simp_all add: NewPriorityMempool_def Let_def)
  have "buildTierMatchers c ! nat i \<in> set (buildTierMatchers c)"
    if "0 \<le> i" "i < int (length (buildTierMatchers c))" for i
    using that by (intro nth_mem) simp
  moreover have "buildTierMatchers c \<noteq> []" by (simp add: buildTierMatchers_def)
  ultimately have "tier_ok ?p"
    using buildTierMatchers_names [of _ c]
    by (auto simp: tier_ok_def tierTotal_def tierName_def f initTierDistribution_get)
  then show ?thesis
    by (simp add: consistent_def heap_ok_def f sv entries_ok_def index_ok_def index_sorted_def queuedTotal_def)
qed

end
