(* ===== verification/Mempool_Remove_Proofs.thy ===== *)
theory Mempool_Remove_Proofs
  imports Mempool_Inv
begin

text \<open>
  Correctness of the removal paths of \<open>Mempool_Remove\<close>: each keeps the pool consistent, reports
  exactly the entries that leave it, touches one sender, and does to that sender's active and
  queued nonces what the code's comments say. The second half states the invariant of one sender
  between two operations (contiguous active nonces from the cursor on, queued nonces above them,
  ranks that do not improve with the nonce, a bounded queue) and shows that the removal paths
  keep it.
\<close>

section \<open>Steps on one sender\<close>

definition local_step :: "'s env \<Rightarrow> nat \<Rightarrow> 's PriorityMempool \<Rightarrow> txEntry list \<Rightarrow> 's PriorityMempool \<Rightarrow> bool" where
  "local_step E r p removed q \<longleftrightarrow> consistent E q \<and> only r p q \<and> accounted p removed q"

lemma local_stepD:
  assumes "local_step E r p removed q"
  shows "consistent E q" and "only r p q" and "accounted p removed q" and "senders q = senders p"
  using assms by (simp_all add: local_step_def only_def)

lemma local_step_refl: "consistent E p \<Longrightarrow> local_step E r p [] p"
  by (simp add: local_step_def)

lemma local_step_trans:
  "local_step E r p R q \<Longrightarrow> local_step E r q S u \<Longrightarrow> local_step E r p (R @ S) u"
  unfolding local_step_def by (blast intro: only_trans accounted_append)

lemma local_remove:
  assumes "consistent E p" "skiplist_ok E" "mget (senders p) s = Some r" "mget (active (heap p r)) n = Some e"
  shows "local_step E r p [e] (removeEntryLocked E p e)"
  using removeEntry [OF assms] removeEntry_step [OF assms] by (simp add: local_step_def)

lemma local_drop:
  assumes "consistent E p" "mget (senders p) s = Some r" "mget (queued (heap p r)) n = Some e"
  shows "local_step E r p [e] (dropQueuedNonce p r n)"
  using dropQueued [OF assms] dropQueued_accounted [OF assms] only_drop by (simp add: local_step_def)

section \<open>Stale entries\<close>

lemma removeQueuedStale_loop_step:
  assumes "consistent E p" and "mget (senders p) s = Some r" and "removeQueuedStale_loop p r ns = (q, es)"
  shows "local_step E r p es q \<and> active (heap q r) = active (heap p r) \<and>
    mget (queued (heap q r)) = mget (queued (heap p r)) |` (- set ns)"
  using assms
proof (induction ns arbitrary: p q es)
  case Nil
  then show ?case by (simp add: local_step_refl restrict_map_def)
next
  case (Cons n ns)
  show ?case
  proof (cases "mget (queued (heap p r)) n")
    case None
    with Cons.prems Cons.IH [of p q es] show ?thesis
      by (auto simp: restrict_map_def fun_eq_iff)
  next
    case (Some e)
    with Cons.prems obtain es' where es: "es = e # es'"
      and q: "removeQueuedStale_loop (dropQueuedNonce p r n) r ns = (q, es')"
      by (auto split: prod.splits)
    have d: "local_step E r p [e] (dropQueuedNonce p r n)" using local_drop [OF Cons.prems(1,2) Some] .
    have "mget (senders (dropQueuedNonce p r n)) s = Some r" using Cons.prems(2) by simp
    note ih = Cons.IH [OF local_stepD(1) [OF d] this q]
    then have "local_step E r p ([e] @ es') q" by (blast intro: local_step_trans [OF d])
    with ih es show ?thesis by (auto simp: restrict_map_def fun_eq_iff)
  qed
qed

lemma removeQueuedStale_step:
  assumes c: "consistent E p" and r: "mget (senders p) s = Some r" and q: "removeQueuedStaleLocked p r seq = (q, es)"
  shows "local_step E r p es q" and "active (heap q r) = active (heap p r)"
    and "mget (queued (heap q r)) = mget (queued (heap p r)) |` {seq..}"
proof -
  let ?ss = "heap p r"
  have ok: "range_ok (queued ?ss) (queuedMin ?ss) (queuedMax ?ss)"
    using consistentD(6) [OF c sview_Some [OF r]] by (simp add: sender_core_def)
  have "local_step E r p es q \<and> active (heap q r) = active ?ss \<and> mget (queued (heap q r)) = mget (queued ?ss) |` {seq..}"
  proof (cases "mlen (queued ?ss) = 0 \<or> seq = 0 \<or> queuedMin ?ss \<ge> seq")
    case True
    then have "n \<ge> seq" if "mget (queued ?ss) n = Some e" for n e
      using range_okD [OF ok that] that by (auto simp: gm.len_0)
    then have "mget (queued ?ss) = mget (queued ?ss) |` {seq..}"
      by (fastforce simp: restrict_map_def fun_eq_iff)
    with True q c show ?thesis by (auto simp: removeQueuedStaleLocked_def Let_def local_step_refl)
  next
    case False
    then have l: "removeQueuedStale_loop p r (nonceRange (queuedMin ?ss) (min (seq - 1) (queuedMax ?ss))) = (q, es)"
      using q by (simp add: removeQueuedStaleLocked_def Let_def)
    have "n \<in> - set (nonceRange (queuedMin ?ss) (min (seq - 1) (queuedMax ?ss))) \<longleftrightarrow> n \<ge> seq"
      if "mget (queued ?ss) n = Some e" for n e
      using range_okD [OF ok that] False by (auto simp: nonceRange_def)
    then have "mget (queued ?ss) |` (- set (nonceRange (queuedMin ?ss) (min (seq - 1) (queuedMax ?ss)))) =
        mget (queued ?ss) |` {seq..}"
      by (intro ext) (case_tac "mget (queued ?ss) x", auto simp: restrict_map_def)
    with removeQueuedStale_loop_step [OF c r l] show ?thesis by simp
  qed
  then show "local_step E r p es q" "active (heap q r) = active (heap p r)"
    "mget (queued (heap q r)) = mget (queued (heap p r)) |` {seq..}" by simp_all
qed

lemma removeActiveStale_loop_step:
  assumes "consistent E p" and "skiplist_ok E" and "mget (senders p) s = Some r"
    and "removeActiveStale_loop E p r ns = (q, es)"
  shows "local_step E r p es q \<and> queued (heap q r) = queued (heap p r) \<and>
    mget (active (heap q r)) = mget (active (heap p r)) |` (- set ns)"
  using assms
proof (induction ns arbitrary: p q es)
  case Nil
  then show ?case by (simp add: local_step_refl restrict_map_def)
next
  case (Cons n ns)
  show ?case
  proof (cases "mget (active (heap p r)) n")
    case None
    with Cons.prems Cons.IH [of p q es] show ?thesis
      by (auto simp: restrict_map_def fun_eq_iff)
  next
    case (Some e)
    with Cons.prems obtain es' where es: "es = e # es'"
      and q: "removeActiveStale_loop E (removeEntryLocked E p e) r ns = (q, es')"
      by (auto split: prod.splits)
    note d = local_remove [OF Cons.prems(1-3) Some] and f = removeEntry_step [OF Cons.prems(1-3) Some]
    have "mget (senders (removeEntryLocked E p e)) s = Some r"
      using Cons.prems(3) local_stepD(4) [OF d] by simp
    note ih = Cons.IH [OF local_stepD(1) [OF d] Cons.prems(2) this q]
    then have "local_step E r p ([e] @ es') q" by (blast intro: local_step_trans [OF d])
    with ih es f(2,3) show ?thesis by (auto simp: restrict_map_def fun_eq_iff)
  qed
qed

lemma removeActiveStale_step:
  assumes c: "consistent E p" and sk: "skiplist_ok E" and r: "mget (senders p) s = Some r"
    and q: "removeActiveStaleLocked E p r seq = (q, es)"
  shows "local_step E r p es q" and "queued (heap q r) = queued (heap p r)"
    and "mget (active (heap q r)) = mget (active (heap p r)) |` {seq..}"
proof -
  let ?ss = "heap p r"
  have ok: "range_ok (active ?ss) (activeMin ?ss) (activeMax ?ss)"
    using consistentD(6) [OF c sview_Some [OF r]] by (simp add: sender_core_def)
  have "local_step E r p es q \<and> queued (heap q r) = queued ?ss \<and> mget (active (heap q r)) = mget (active ?ss) |` {seq..}"
  proof (cases "mlen (active ?ss) = 0 \<or> seq = 0 \<or> activeMin ?ss \<ge> seq")
    case True
    then have "n \<ge> seq" if "mget (active ?ss) n = Some e" for n e
      using range_okD [OF ok that] that by (auto simp: gm.len_0)
    then have "mget (active ?ss) = mget (active ?ss) |` {seq..}"
      by (fastforce simp: restrict_map_def fun_eq_iff)
    with True q c show ?thesis by (auto simp: removeActiveStaleLocked_def Let_def local_step_refl)
  next
    case False
    then have l: "removeActiveStale_loop E p r (nonceRange (activeMin ?ss) (min (seq - 1) (activeMax ?ss))) = (q, es)"
      using q by (simp add: removeActiveStaleLocked_def Let_def)
    have "n \<in> - set (nonceRange (activeMin ?ss) (min (seq - 1) (activeMax ?ss))) \<longleftrightarrow> n \<ge> seq"
      if "mget (active ?ss) n = Some e" for n e
      using range_okD [OF ok that] False by (auto simp: nonceRange_def)
    then have "mget (active ?ss) |` (- set (nonceRange (activeMin ?ss) (min (seq - 1) (activeMax ?ss)))) =
        mget (active ?ss) |` {seq..}"
      by (intro ext) (case_tac "mget (active ?ss) x", auto simp: restrict_map_def)
    with removeActiveStale_loop_step [OF c sk r l] show ?thesis by simp
  qed
  then show "local_step E r p es q" "queued (heap q r) = queued (heap p r)"
    "mget (active (heap q r)) = mget (active (heap p r)) |` {seq..}" by simp_all
qed

lemma removeStale_step:
  assumes c: "consistent E p" and sk: "skiplist_ok E" and r: "mget (senders p) s = Some r"
    and q: "removeStaleLocked E p r seq = (q, es)"
  shows "local_step E r p es q" and "mget (active (heap q r)) = mget (active (heap p r)) |` {seq..}"
    and "mget (queued (heap q r)) = mget (queued (heap p r)) |` {seq..}"
proof -
  obtain p1 es1 where p1: "removeActiveStaleLocked E p r seq = (p1, es1)" by fastforce
  obtain p2 es2 where p2: "removeQueuedStaleLocked p1 r seq = (p2, es2)" by fastforce
  have e: "q = p2" "es = es1 @ es2" using q p1 p2 by (simp_all add: removeStaleLocked_def)
  note a = removeActiveStale_step [OF c sk r p1]
  have "mget (senders p1) s = Some r" using local_stepD(4) [OF a(1)] r by simp
  note b = removeQueuedStale_step [OF local_stepD(1) [OF a(1)] this p2]
  show "local_step E r p es q" unfolding e by (rule local_step_trans [OF a(1) b(1)])
  show "mget (active (heap q r)) = mget (active (heap p r)) |` {seq..}"
    and "mget (queued (heap q r)) = mget (queued (heap p r)) |` {seq..}"
    using a b e by simp_all
qed

text \<open>All queued entries of a sender.\<close>

lemma accounted_allQueued:
  assumes c: "consistent E p" and r: "mget (senders p) s = Some r" and o: "only r p q"
    and a: "active (heap q r) = active (heap p r)" and e: "mget (queued (heap q r)) = Map.empty"
  shows "accounted p (map snd (mitems (queued (heap p r)))) q"
proof -
  let ?ss = "heap p r" and ?es = "map snd (mitems (queued (heap p r)))"
  have core: "sender_core E p s ?ss" using consistentD(6) [OF c sview_Some [OF r]] .
  have key: "map e_key ?es = map (\<lambda>n. \<lparr>sender = s, nonce = n\<rparr>) (mkeys (queued ?ss))"
    using sender_core_key(2) [OF core] by (auto simp: gm.items_iff)
  have dis: "mget (active ?ss) n = None" if "mget (queued ?ss) n = Some x" for n x
    using sender_core_disjoint [OF core, of n] that by (cases "mget (active ?ss) n") auto
  have "e_key ` set ?es = (\<lambda>n. \<lparr>sender = s, nonce = n\<rparr>) ` mdom (queued ?ss)"
    using arg_cong [OF key, of set] by (simp only: set_map image_image gm.keys_set [symmetric])
  then have mem: "k \<in> e_key ` set ?es \<longleftrightarrow> sender k = s \<and> nonce k \<in> mdom (queued ?ss)" for k
    by (cases k) auto
  show ?thesis unfolding accounted_def
  proof (intro conjI ballI)
    show "distinct (map e_key ?es)"
      unfolding key using gm.items_distinct [of "queued ?ss"]
      by (subst distinct_map [of _ "mkeys (queued ?ss)"]) (simp add: inj_on_def)
    fix x assume "x \<in> set ?es"
    then obtain n where "mget (queued ?ss) n = Some x" by (auto simp: gm.items_iff)
    then show "held p (e_key x) = Some (ident x)"
      using held_queued [OF r dis] sender_core_key(2) [OF core] by simp
  next
    show "held q = held p |` (- e_key ` set ?es)"
    proof
      fix k
      have "held q k = (if sender k = s then sheld (heap q r) (nonce k) else held p k)"
        and "sender k = s \<Longrightarrow> held p k = sheld ?ss (nonce k)"
        using held_only [OF consistentD(1) [OF c] r] o by (blast, simp add: held_def sview_def r)
      then show "held q k = (held p |` (- e_key ` set ?es)) k"
        using dis unfolding restrict_map_def Compl_iff mem
        by (cases "mget (queued ?ss) (nonce k)") (auto simp: sheld_def a e domIff split: option.split)
    qed
  qed
qed

lemma removeAllQueued_step:
  assumes c: "consistent E p" and r: "mget (senders p) s = Some r" and q: "removeAllQueuedLocked p r = (q, es)"
  shows "local_step E r p es q" and "active (heap q r) = active (heap p r)" and "mget (queued (heap q r)) = Map.empty"
proof -
  let ?f = "\<lambda>ss. resetQueuedRangeLocked (ss\<lparr>queued := mempty\<rparr>)"
  let ?ss = "heap p r"
  have "local_step E r p es q \<and> active (heap q r) = active ?ss \<and> mget (queued (heap q r)) = Map.empty"
  proof (cases "mlen (queued ?ss) = 0")
    case True
    with q c show ?thesis by (auto simp: removeAllQueuedLocked_def Let_def local_step_refl gm.len_0)
  next
    case False
    let ?q = "(updSender p r ?f)\<lparr>queuedCount := queuedCount p - int (mlen (queued ?ss))\<rparr>"
    have qe: "q = ?q" "es = map snd (mitems (queued ?ss))"
      using q False by (simp_all add: removeAllQueuedLocked_def Let_def)
    have "consistent E ?q"
      using consistentD(6) [OF c sview_Some [OF r]] by (intro consistent_queue_upd [OF c r])
        (auto simp: gm.len_0 sender_core_def range_ok_def resetQueuedRangeLocked_def)
    moreover have o: "only r p ?q" by (simp add: only_def resetQueuedRangeLocked_def)
    moreover have h: "active (heap ?q r) = active ?ss" "mget (queued (heap ?q r)) = Map.empty"
      by (simp_all add: resetQueuedRangeLocked_def)
    ultimately show ?thesis using accounted_allQueued [OF c r o h] by (simp add: qe local_step_def)
  qed
  then show "local_step E r p es q" "active (heap q r) = active (heap p r)" "mget (queued (heap q r)) = Map.empty"
    by simp_all
qed

section \<open>Queue insertion and demotion\<close>

lemma highestQueuedNonce_max:
  assumes "mget (queued ss) \<noteq> Map.empty"
  shows "highestQueuedNonce ss \<in> mdom (queued ss)" and "n \<in> mdom (queued ss) \<Longrightarrow> n \<le> highestQueuedNonce ss"
proof -
  have f: "foldl (\<lambda>h n. if n > h then n else h) a xs \<in> insert a (set xs) \<and>
      (\<forall>n\<in>insert a (set xs). n \<le> foldl (\<lambda>h n. if n > h then n else h) a xs)" for a :: nat and xs
    by (induction xs arbitrary: a) (auto simp: not_less intro: le_trans less_imp_le)
  have d: "set (mkeys (queued ss)) = mdom (queued ss)" by (simp add: gm.keys_set)
  note g = f [of 0 "mkeys (queued ss)", unfolded d, folded highestQueuedNonce_def]
  from g show "n \<in> mdom (queued ss) \<Longrightarrow> n \<le> highestQueuedNonce ss" by blast
  from assms obtain m where "m \<in> mdom (queued ss)" by fastforce
  with g show "highestQueuedNonce ss \<in> mdom (queued ss)"
    by (metis insert_iff le_zero_eq)
qed

lemma insertQueued_cases:
  assumes cap: "0 < maxQueuedPerSender p" and q: "insertQueuedLocked p r \<lparr>sender = s, nonce = n\<rparr> e = (q, ins, ev, err)"
  obtains (reject) "q = p" "\<not> ins" "ev = None" "err \<noteq> None"
    | (replace) x where "mget (queued (heap p r)) n = Some x"
        "q = updSender p r (\<lambda>ss. ss\<lparr>queued := mput (queued ss) n e\<rparr>)" "ins" "ev = Some x" "err = None"
    | (displace) h x where "mget (queued (heap p r)) n = None" "mget (queued (heap p r)) h = Some x" "n \<noteq> h"
        "q = putQueuedNonce (dropQueuedNonce p r h) r n e" "ins" "ev = Some x" "err = None"
    | (add) "mget (queued (heap p r)) n = None" "int (mlen (queued (heap p r))) < maxQueuedPerSender p"
        "q = putQueuedNonce p r n e" "ins" "ev = None" "err = None"
proof (cases "mget (queued (heap p r)) n")
  case (Some x)
  then show ?thesis using q reject replace
    by (auto simp: insertQueuedLocked_def Let_def split: if_splits)
next
  case None
  show ?thesis
  proof (cases "int (mlen (queued (heap p r))) \<ge> maxQueuedPerSender p")
    case full: True
    let ?h = "highestQueuedNonce (heap p r)"
    have "mget (queued (heap p r)) \<noteq> Map.empty" using full cap gm.len_0 [of "queued (heap p r)"] by auto
    from highestQueuedNonce_max(1) [OF this]
    obtain x where "mget (queued (heap p r)) (highestQueuedNonce (heap p r)) = Some x" by blast
    then have x: "mget (queued (heap p r)) ?h = Some x" .
    show ?thesis
    proof (cases "n \<ge> ?h")
      case True
      with q None full cap have "(q, ins, ev, err) = (p, False, None, Some ErrMempoolTxMaxCapacity)"
        by (simp add: insertQueuedLocked_def Let_def)
      then show ?thesis by (intro reject) simp_all
    next
      case False
      with q None full cap x
      have "(q, ins, ev, err) = (putQueuedNonce (dropQueuedNonce p r ?h) r n e, True, Some x, None)"
        by (simp add: insertQueuedLocked_def Let_def)
      then show ?thesis using None x False by (intro displace [of ?h x]) simp_all
    qed
  next
    case False
    with q None have "(q, ins, ev, err) = (p, False, None, Some ErrMempoolTxMaxCapacity) \<or>
        (q, ins, ev, err) = (putQueuedNonce p r n e, True, None, None)"
      by (auto simp: insertQueuedLocked_def Let_def split: if_splits)
    then show ?thesis
    proof
      assume "(q, ins, ev, err) = (p, False, None, Some ErrMempoolTxMaxCapacity)"
      then show ?thesis by (intro reject) simp_all
    next
      assume "(q, ins, ev, err) = (putQueuedNonce p r n e, True, None, None)"
      then show ?thesis using None False by (intro add) simp_all
    qed
  qed
qed

text \<open>
  \<open>insertQueuedLocked\<close>: on success the entry is queued at its nonce, and the entry that left is
  either the one it replaced or the highest nonce of a full queue; on failure nothing changed.
  The queue never grows beyond the cap.
\<close>

definition queue_step :: "'s env \<Rightarrow> 's PriorityMempool \<Rightarrow> string \<Rightarrow> nat \<Rightarrow> nat \<Rightarrow> txEntry \<Rightarrow> 's PriorityMempool \<Rightarrow>
    bool \<Rightarrow> txEntry option \<Rightarrow> mp_error option \<Rightarrow> bool" where
  "queue_step E p s r n e q ins ev err \<longleftrightarrow>
     consistent E q \<and> only r p q \<and> active (heap q r) = active (heap p r) \<and>
     mdom (queued (heap q r)) \<subseteq> insert n (mdom (queued (heap p r))) \<and>
     int (mlen (queued (heap q r))) \<le> max (int (mlen (queued (heap p r)))) (maxQueuedPerSender p) \<and>
     (if ins then err = None \<and> mget (queued (heap q r)) n = Some e \<and>
        (\<forall>v. ev = Some v \<longrightarrow> mget (queued (heap p r)) (nonce (e_key v)) = Some v) \<and>
        held q = (held p |` (- e_key ` set_option ev))(\<lparr>sender = s, nonce = n\<rparr> \<mapsto> ident e)
      else q = p \<and> ev = None \<and> err \<noteq> None)"

lemma insertQueued_step:
  assumes c: "consistent E p" and r: "mget (senders p) s = Some r" and n: "mget (active (heap p r)) n = None"
    and e: "entry_static E s n e" and cap: "0 < maxQueuedPerSender p"
    and q: "insertQueuedLocked p r \<lparr>sender = s, nonce = n\<rparr> e = (q, ins, ev, err)"
  shows "queue_step E p s r n e q ins ev err"
proof -
  have core: "sender_core E p s (heap p r)" using consistentD(6) [OF c sview_Some [OF r]] .
  from cap q show ?thesis
  proof (cases rule: insertQueued_cases)
    case reject
    then show ?thesis using c by (simp add: queue_step_def subset_insertI)
  next
    case (replace x)
    have kx: "e_key x = \<lparr>sender = s, nonce = n\<rparr>" using sender_core_key(2) [OF core replace(1)] .
    have "held q = (held p |` (- e_key ` set_option ev))(\<lparr>sender = s, nonce = n\<rparr> \<mapsto> ident e)"
      unfolding replace(2,4) replaceQueued_held [OF c r n] by (simp add: kx restrict_map_def fun_eq_iff)
    moreover have "consistent E q" "only r p q"
      unfolding replace(2) by (rule replaceQueued [OF c r replace(1) e], rule only_replace)
    ultimately show ?thesis using replace kx by (simp add: queue_step_def gm.len_put)
  next
    case (displace h x)
    have kx: "e_key x = \<lparr>sender = s, nonce = h\<rparr>" using sender_core_key(2) [OF core displace(2)] .
    let ?d = "dropQueuedNonce p r h"
    have d: "consistent E ?d" "mget (senders ?d) s = Some r" using dropQueued [OF c r displace(2)] r by simp_all
    have "held ?d = held p |` (- {\<lparr>sender = s, nonce = h\<rparr>})"
      using dropQueued_accounted [OF c r displace(2)] kx by (simp add: accounted_def)
    then have "held q = (held p |` (- e_key ` set_option ev))(\<lparr>sender = s, nonce = n\<rparr> \<mapsto> ident e)"
      using putQueued_held [OF d, of n e] n by (simp add: displace(4,6) kx)
    moreover have "consistent E q" using putQueued [OF d _ _ e] n displace(1,3) by (simp add: displace(4))
    moreover have "only r p q" unfolding displace(4) by (rule only_trans [OF only_drop only_put])
    moreover have "mdom (queued (heap q r)) \<subseteq> insert n (mdom (queued (heap p r)))" by (auto simp: displace(4))
    moreover have "mlen (queued (heap q r)) = mlen (queued (heap p r))"
      using gm.len_pos [OF displace(2)] displace(1,2) by (simp add: displace(4) gm.len_put gm.len_del)
    ultimately show ?thesis using displace(2,5,6,7) kx by (simp add: queue_step_def displace(4))
  next
    case add
    have "held q = (held p |` (- e_key ` set_option ev))(\<lparr>sender = s, nonce = n\<rparr> \<mapsto> ident e)"
      unfolding add(3,5) putQueued_held [OF c r n] by (simp add: restrict_map_def)
    moreover have "consistent E q" "only r p q"
      unfolding add(3) by (rule putQueued [OF c r add(1) n e], rule only_put)
    ultimately show ?thesis using add by (simp add: queue_step_def gm.len_put)
  qed
qed

text \<open>One active entry moves to the queue, or leaves when the queue rejects it.\<close>

lemma demote_one:
  assumes c: "consistent E p" and sk: "skiplist_ok E" and r: "mget (senders p) s = Some r"
    and n: "mget (active (heap p r)) n = Some e" and cap: "0 < maxQueuedPerSender p"
    and e1: "e1 = e\<lparr>e_tier := queuedTier\<rparr>"
    and q: "insertQueuedLocked (removeEntryLocked E p e) r (e_key e1) e1 = (q, ins, ev, err)"
  shows "local_step E r p ((case ev of Some v \<Rightarrow> [v] | None \<Rightarrow> []) @ (if ins then [] else [e1])) q"
    and "active (heap q r) = mdel (active (heap p r)) n"
    and "mdom (queued (heap q r)) \<subseteq> insert n (mdom (queued (heap p r)))"
    and "int (mlen (queued (heap q r))) \<le> max (int (mlen (queued (heap p r)))) (maxQueuedPerSender p)"
proof -
  let ?p1 = "removeEntryLocked E p e" and ?k = "\<lparr>sender = s, nonce = n\<rparr>"
  have core: "sender_core E p s (heap p r)" using consistentD(6) [OF c sview_Some [OF r]] .
  have st: "entry_static E s n e" using core n by (simp add: sender_core_def)
  then have st1: "entry_static E s n e1" and id1: "ident e1 = ident e" and k1: "e_key e1 = ?k" "e_key e = ?k"
    by (simp_all add: e1 entry_static_def ident_def)
  note l = local_remove [OF c sk r n] and f = removeEntry_step [OF c sk r n]
  have h1: "held ?p1 = (held p)(?k := None)"
    using f(4) k1 by (auto simp: accounted_def restrict_map_def fun_eq_iff)
  have st': "mget (senders ?p1) s = Some r" "mget (active (heap ?p1 r)) n = None" "0 < maxQueuedPerSender ?p1"
    using r f(2) cap onlyD [OF f(1)] by simp_all
  have step: "queue_step E ?p1 s r n e1 q ins ev err"
    using insertQueued_step [OF local_stepD(1) [OF l] st'(1,2) st1 st'(3)] q k1 by simp
  then have o: "only r p q" and cq: "consistent E q" using only_trans [OF f(1)] by (auto simp: queue_step_def)
  show "active (heap q r) = mdel (active (heap p r)) n"
    and "mdom (queued (heap q r)) \<subseteq> insert n (mdom (queued (heap p r)))"
    and "int (mlen (queued (heap q r))) \<le> max (int (mlen (queued (heap p r)))) (maxQueuedPerSender p)"
    using step f(2,3) onlyD(10) [OF f(1)] by (simp_all add: queue_step_def)
  have hk: "held p ?k = Some (ident e)" using held_active [OF r n] .
  have "accounted p ((case ev of Some v \<Rightarrow> [v] | None \<Rightarrow> []) @ (if ins then [] else [e1])) q"
  proof (cases ins)
    case False
    then have "q = ?p1" "ev = None" using step by (simp_all add: queue_step_def)
    then show ?thesis using False hk h1 id1 k1 by (simp add: accounted_one)
  next
    case True
    note t = step [unfolded queue_step_def, simplified True, simplified]
    show ?thesis
    proof (cases ev)
      case None
      then have "held q = held p" using t h1 hk id1 by (auto simp: restrict_map_def)
      then show ?thesis using True None by (simp add: accounted_Nil)
    next
      case (Some v)
      let ?m = "nonce (e_key v)"
      have v: "mget (queued (heap p r)) ?m = Some v" using t Some f(3) by simp
      have kv: "e_key v = \<lparr>sender = s, nonce = ?m\<rparr>" using sender_core_key(2) [OF core v] .
      have "mget (active (heap p r)) ?m = None" and "?m \<noteq> n"
        using sender_core_disjoint [OF core, of ?m] sender_core_disjoint [OF core n] v
        by (cases "mget (active (heap p r)) ?m"; auto)+
      then have "held p \<lparr>sender = s, nonce = ?m\<rparr> = Some (ident v)" using held_queued [OF r] v by simp
      then have "held p (e_key v) = Some (ident v)" by (simp only: kv [symmetric])
      moreover have ne: "e_key v \<noteq> ?k" using \<open>?m \<noteq> n\<close> by (metis txKey.select_convs(2))
      moreover have "held q = (held p)(e_key v := None)"
        using t Some h1 hk id1 ne by (auto simp: restrict_map_def fun_eq_iff)
      ultimately show ?thesis using True Some by (simp add: accounted_one)
    qed
  qed
  with o cq show "local_step E r p ((case ev of Some v \<Rightarrow> [v] | None \<Rightarrow> []) @ (if ins then [] else [e1])) q"
    by (simp add: local_step_def)
qed

lemma demoteLoop_step:
  assumes "consistent E p" and "skiplist_ok E" and "mget (senders p) s = Some r"
    and "0 < maxQueuedPerSender p" and "demoteLoop E p r seq hasSeq ns = (q, es)"
  shows "local_step E r p es q \<and> mget (active (heap q r)) = mget (active (heap p r)) |` (- set ns) \<and>
    mdom (queued (heap q r)) \<subseteq> mdom (queued (heap p r)) \<union> (mdom (active (heap p r)) \<inter> set ns) \<and>
    int (mlen (queued (heap q r))) \<le> max (int (mlen (queued (heap p r)))) (maxQueuedPerSender p)"
  using assms
proof (induction ns arbitrary: p q es)
  case Nil
  then show ?case by (auto simp: local_step_refl restrict_map_def)
next
  case (Cons n ns)
  show ?case
  proof (cases "mget (active (heap p r)) n")
    case None
    with Cons.prems Cons.IH [of p q es] show ?thesis
      by (auto simp: restrict_map_def fun_eq_iff)
  next
    case (Some e)
    note rem = local_remove [OF Cons.prems(1-3) Some] and f = removeEntry_step [OF Cons.prems(1-3) Some]
    obtain p1 R es' where s1: "local_step E r p R p1" "active (heap p1 r) = mdel (active (heap p r)) n"
      "mdom (queued (heap p1 r)) \<subseteq> insert n (mdom (queued (heap p r)))"
      "int (mlen (queued (heap p1 r))) \<le> max (int (mlen (queued (heap p r)))) (maxQueuedPerSender p)"
      and l: "demoteLoop E p1 r seq hasSeq ns = (q, es')" and es: "es = R @ es'"
    proof (cases "hasSeq \<and> n < seq")
      case True
      obtain es' where "demoteLoop E (removeEntryLocked E p e) r seq hasSeq ns = (q, es')" "es = e # es'"
        using Cons.prems(5) Some True by (auto split: prod.splits)
      then show ?thesis using rem f(2,3) by (intro that [of "[e]" "removeEntryLocked E p e" es']) auto
    next
      case False
      let ?e1 = "e\<lparr>e_tier := queuedTier\<rparr>"
      obtain p2 ins ev err where i: "insertQueuedLocked (removeEntryLocked E p e) r (e_key ?e1) ?e1 = (p2, ins, ev, err)"
        by (rule prod_cases4)
      obtain es' where "demoteLoop E p2 r seq hasSeq ns = (q, es')"
        "es = ((case ev of Some v \<Rightarrow> [v] | None \<Rightarrow> []) @ (if ins then [] else [?e1])) @ es'"
        using Cons.prems(5) Some False i by (auto simp: Let_def split: prod.splits)
      then show ?thesis by (rule that [OF demote_one [OF Cons.prems(1-3) Some Cons.prems(4) refl i]])
    qed
    have "mget (senders p1) s = Some r" "0 < maxQueuedPerSender p1"
      and mx: "maxQueuedPerSender p1 = maxQueuedPerSender p"
      using Cons.prems(3,4) onlyD [OF local_stepD(2) [OF s1(1)]] by simp_all
    note ih = Cons.IH [OF local_stepD(1) [OF s1(1)] Cons.prems(2) this(1,2) l]
    then have "local_step E r p es q" using es by (blast intro: local_step_trans [OF s1(1)])
    moreover have "mget (active (heap q r)) = mget (active (heap p r)) |` (- set (n # ns))"
      using ih s1(2) by (auto simp: restrict_map_def fun_eq_iff)
    moreover have "mdom (queued (heap q r)) \<subseteq> mdom (queued (heap p r)) \<union> (mdom (active (heap p r)) \<inter> set (n # ns))"
    proof -
      have "mdom (active (heap p1 r)) \<subseteq> mdom (active (heap p r))" using s1(2) by auto
      moreover have "n \<in> mdom (active (heap p r))" using Some by blast
      moreover have "mdom (queued (heap q r)) \<subseteq> mdom (queued (heap p1 r)) \<union> (mdom (active (heap p1 r)) \<inter> set ns)"
        using ih by blast
      ultimately show ?thesis using s1(3) unfolding list.set by blast
    qed
    ultimately show ?thesis using ih s1(4) mx by linarith
  qed
qed

text \<open>
  \<open>demoted k p q r\<close>: the sender keeps its active nonces below \<open>k\<close>; the others have gone to the
  queue as far as it took them.
\<close>

definition demoted :: "nat \<Rightarrow> 's PriorityMempool \<Rightarrow> 's PriorityMempool \<Rightarrow> nat \<Rightarrow> bool" where
  "demoted k p q r \<longleftrightarrow>
     mget (active (heap q r)) = mget (active (heap p r)) |` {..<k} \<and>
     mdom (queued (heap q r)) \<subseteq> mdom (queued (heap p r)) \<union> (mdom (active (heap p r)) \<inter> {k..}) \<and>
     int (mlen (queued (heap q r))) \<le> max (int (mlen (queued (heap p r)))) (maxQueuedPerSender p)"

lemma demoteActiveRange_step:
  assumes c: "consistent E p" and sk: "skiplist_ok E" and r: "mget (senders p) s = Some r"
    and cap: "0 < maxQueuedPerSender p"
    and q: "demoteActiveRangeLocked E p r n inclusive seq hasSeq = (q, es)"
  shows "local_step E r p es q" and "demoted (if inclusive then n else n + 1) p q r"
proof -
  let ?ss = "heap p r" and ?k = "if inclusive then n else n + 1"
  have core: "sender_core E p s ?ss" using consistentD(6) [OF c sview_Some [OF r]] .
  then have ok: "range_ok (active ?ss) (activeMin ?ss) (activeMax ?ss)" by (simp add: sender_core_def)
  have lim: "m < 2 ^ 64 - 1 \<and> m \<le> activeMax ?ss" if "mget (active ?ss) m = Some e" for m e
    using range_okD [OF ok that] core that by (auto simp: sender_core_def entry_static_def)
  have "local_step E r p es q \<and> demoted ?k p q r"
  proof (cases "mlen (active ?ss) = 0 \<or> (\<not> inclusive \<and> n = 2 ^ 64 - 1) \<or> ?k > activeMax ?ss")
    case True
    then have "m < ?k" if "mget (active ?ss) m = Some e" for m e
      using lim [OF that] that by (auto simp: gm.len_0 simp del: One_nat_def split: if_splits)
    then have "mget (active ?ss) = mget (active ?ss) |` {..<?k}"
      by (fastforce simp: restrict_map_def fun_eq_iff)
    moreover have "q = p \<and> es = []"
      using True q unfolding demoteActiveRangeLocked_def Let_def by (auto split: if_splits)
    ultimately show ?thesis using c by (simp add: local_step_refl demoted_def)
  next
    case False
    then have l: "demoteLoop E p r seq hasSeq (nonceRange ?k (activeMax ?ss)) = (q, es)"
      using q unfolding demoteActiveRangeLocked_def Let_def by (simp split: if_splits)
    have eq: "m \<in> set (nonceRange ?k (activeMax ?ss)) \<longleftrightarrow> m \<ge> ?k" if "mget (active ?ss) m = Some e" for m e
      using lim [OF that] by (auto simp: nonceRange_def)
    have "mget (active ?ss) |` (- set (nonceRange ?k (activeMax ?ss))) = mget (active ?ss) |` {..<?k}"
    proof
      fix m show "(mget (active ?ss) |` (- set (nonceRange ?k (activeMax ?ss)))) m = (mget (active ?ss) |` {..<?k}) m"
        using eq [of m] by (cases "mget (active ?ss) m") (auto simp: restrict_map_def not_le)
    qed
    moreover have "mdom (active ?ss) \<inter> set (nonceRange ?k (activeMax ?ss)) \<subseteq> mdom (active ?ss) \<inter> {?k..}"
      using eq by blast
    moreover note d = demoteLoop_step [OF c sk r cap l]
    moreover have "mdom (queued (heap q r)) \<subseteq> mdom (queued ?ss) \<union> (mdom (active ?ss) \<inter> {?k..})"
      using calculation(2,3) by blast
    ultimately show ?thesis unfolding demoted_def by (simp only: simp_thms)
  qed
  then show "local_step E r p es q" "demoted ?k p q r" by simp_all
qed

lemma removeNonce_step:
  assumes c: "consistent E p" and sk: "skiplist_ok E" and r: "mget (senders p) s = Some r"
    and q: "removeNonceLocked E p r n = (q, eo)"
  shows "local_step E r p (case eo of Some e \<Rightarrow> [e] | None \<Rightarrow> []) q"
    and "mget (active (heap q r)) = (mget (active (heap p r)))(n := None)"
    and "mget (queued (heap q r)) = (mget (queued (heap p r)))(n := None)"
    and "eo = None \<longleftrightarrow> held p \<lparr>sender = s, nonce = n\<rparr> = None"
proof -
  have core: "sender_core E p s (heap p r)" using consistentD(6) [OF c sview_Some [OF r]] .
  have h: "held p \<lparr>sender = s, nonce = n\<rparr> = sheld (heap p r) n" by (simp add: held_def sview_def r)
  have "local_step E r p (case eo of Some e \<Rightarrow> [e] | None \<Rightarrow> []) q \<and>
    mget (active (heap q r)) = (mget (active (heap p r)))(n := None) \<and>
    mget (queued (heap q r)) = (mget (queued (heap p r)))(n := None) \<and>
    (eo = None \<longleftrightarrow> held p \<lparr>sender = s, nonce = n\<rparr> = None)"
  proof (cases "mget (active (heap p r)) n")
    case (Some e)
    note f = local_remove [OF c sk r Some] removeEntry_step [OF c sk r Some] sender_core_disjoint [OF core Some]
    have "q = removeEntryLocked E p e" "eo = Some e" using q Some by (simp_all add: removeNonceLocked_def)
    then show ?thesis using f Some h by (simp add: sheld_def fun_eq_iff)
  next
    case None
    show ?thesis
    proof (cases "mget (queued (heap p r)) n")
      case (Some e)
      have "q = dropQueuedNonce p r n" "eo = Some e" using q None Some by (simp_all add: removeNonceLocked_def)
      then show ?thesis using local_drop [OF c r Some] None Some h by (simp add: sheld_def fun_eq_iff)
    next
      case n2: None
      have "q = p" "eo = None" using q None n2 by (simp_all add: removeNonceLocked_def)
      then show ?thesis using c None n2 h by (simp add: sheld_def local_step_refl fun_eq_iff)
    qed
  qed
  then show "local_step E r p (case eo of Some e \<Rightarrow> [e] | None \<Rightarrow> []) q"
    "mget (active (heap q r)) = (mget (active (heap p r)))(n := None)"
    "mget (queued (heap q r)) = (mget (queued (heap p r)))(n := None)"
    "eo = None \<longleftrightarrow> held p \<lparr>sender = s, nonce = n\<rparr> = None" by simp_all
qed

end
