(* ===== verification/Mempool_Sound.thy ===== *)
theory Mempool_Sound
  imports Mempool_Remove_Proofs
begin

text \<open>
  The invariant between two operations. \<open>sinv\<close> is the part about one sender, over its cursor and
  its two maps: the active nonces are contiguous and not below the cursor, the queued nonces lie
  above them, the clamped rank does not improve with the nonce and is never better than the
  priority, and the queue respects the cap. \<open>sound\<close> adds the consistency of the structures, the
  capacity of the pool, and what the configuration guarantees (one tier, as the application
  configures it; a positive cap on the queue). The removal paths keep it.
\<close>

section \<open>One sender\<close>

definition sinv :: "int \<Rightarrow> nat \<Rightarrow> (nat \<rightharpoonup> txEntry) \<Rightarrow> (nat \<rightharpoonup> txEntry) \<Rightarrow> bool" where
  "sinv cap base act que \<longleftrightarrow>
     (\<forall>n m k. n \<in> dom act \<and> k \<in> dom act \<and> n \<le> m \<and> m \<le> k \<longrightarrow> m \<in> dom act) \<and>
     (\<forall>n\<in>dom act. base \<le> n) \<and>
     (\<forall>n\<in>dom que. base \<le> n \<and> (\<forall>m\<in>dom act. m < n)) \<and>
     (\<forall>n m e e'. n < m \<and> act n = Some e \<and> act m = Some e' \<longrightarrow>
        rankWorse (e_clampedPriority e') (e_clampedOrder e') e) \<and>
     (\<forall>n e. act n = Some e \<longrightarrow> e_clampedPriority e \<le> e_priority e) \<and>
     int (card (dom que)) \<le> cap"

lemma sinvD:
  assumes "sinv cap base act que"
  shows "n \<in> dom act \<Longrightarrow> k \<in> dom act \<Longrightarrow> n \<le> m \<Longrightarrow> m \<le> k \<Longrightarrow> m \<in> dom act"
    and "n \<in> dom act \<Longrightarrow> base \<le> n"
    and "n \<in> dom que \<Longrightarrow> base \<le> n"
    and "n \<in> dom que \<Longrightarrow> m \<in> dom act \<Longrightarrow> m < n"
    and "n < m \<Longrightarrow> act n = Some e \<Longrightarrow> act m = Some e' \<Longrightarrow>
      rankWorse (e_clampedPriority e') (e_clampedOrder e') e"
    and "act n = Some e \<Longrightarrow> e_clampedPriority e \<le> e_priority e"
    and "int (card (dom que)) \<le> cap"
proof -
  note h = assms [unfolded sinv_def] and c2 = conjunct2
  show "n \<in> dom act \<Longrightarrow> k \<in> dom act \<Longrightarrow> n \<le> m \<Longrightarrow> m \<le> k \<Longrightarrow> m \<in> dom act"
    using h [THEN conjunct1] by blast
  show "n \<in> dom act \<Longrightarrow> base \<le> n" using h [THEN c2, THEN conjunct1] by blast
  show "n \<in> dom que \<Longrightarrow> base \<le> n" and "n \<in> dom que \<Longrightarrow> m \<in> dom act \<Longrightarrow> m < n"
    using h [THEN c2, THEN c2, THEN conjunct1] by blast+
  show "n < m \<Longrightarrow> act n = Some e \<Longrightarrow> act m = Some e' \<Longrightarrow>
      rankWorse (e_clampedPriority e') (e_clampedOrder e') e"
    using h [THEN c2, THEN c2, THEN c2, THEN conjunct1] by blast
  show "act n = Some e \<Longrightarrow> e_clampedPriority e \<le> e_priority e"
    and "int (card (dom que)) \<le> cap"
    using h [THEN c2, THEN c2, THEN c2, THEN c2] by blast+
qed

lemma sinvI:
  assumes "\<And>n m k. n \<in> dom act \<Longrightarrow> k \<in> dom act \<Longrightarrow> n \<le> m \<Longrightarrow> m \<le> k \<Longrightarrow> m \<in> dom act"
    and "\<And>n. n \<in> dom act \<Longrightarrow> base \<le> n"
    and "\<And>n. n \<in> dom que \<Longrightarrow> base \<le> n"
    and "\<And>n m. n \<in> dom que \<Longrightarrow> m \<in> dom act \<Longrightarrow> m < n"
    and "\<And>n m e e'. n < m \<Longrightarrow> act n = Some e \<Longrightarrow> act m = Some e' \<Longrightarrow>
      rankWorse (e_clampedPriority e') (e_clampedOrder e') e"
    and "\<And>n e. act n = Some e \<Longrightarrow> e_clampedPriority e \<le> e_priority e"
    and "int (card (dom que)) \<le> cap"
  shows "sinv cap base act que"
  using assms unfolding sinv_def by blast

lemma rankWorse_trans:
  "rankWorse cp co e \<Longrightarrow> rankWorse (e_clampedPriority e) (e_clampedOrder e) e' \<Longrightarrow> rankWorse cp co e'"
  by (auto simp: rankWorse_def)

text \<open>The active nonces from \<open>k\<close> on leave, some of them to the queue.\<close>

lemma sinv_demote:
  assumes i: "sinv cap base act que" and q: "dom que' \<subseteq> dom que \<union> (dom act \<inter> {k..})"
    and c: "int (card (dom que')) \<le> cap"
  shows "sinv cap base (act |` {..<k}) que'"
proof (rule sinvI)
  fix n m j assume "n \<in> dom (act |` {..<k})" "j \<in> dom (act |` {..<k})" "n \<le> m" "m \<le> j"
  then show "m \<in> dom (act |` {..<k})" using sinvD(1) [OF i, of n j m] by simp
next
  fix n m assume n: "n \<in> dom que'" and m: "m \<in> dom (act |` {..<k})"
  from n q consider "n \<in> dom que" | "n \<in> {k..}" by blast
  then show "m < n" using m sinvD(4) [OF i, of n m] by cases auto
next
  fix n assume "n \<in> dom que'"
  then show "base \<le> n" using q sinvD(2,3) [OF i, of n] by blast
next
  fix n m e e' assume "n < m" "(act |` {..<k}) n = Some e" "(act |` {..<k}) m = Some e'"
  then show "rankWorse (e_clampedPriority e') (e_clampedOrder e') e"
    using sinvD(5) [OF i, of n m e e'] by (auto simp: restrict_map_def split: if_splits)
next
  fix n e assume "(act |` {..<k}) n = Some e"
  then show "e_clampedPriority e \<le> e_priority e"
    using sinvD(6) [OF i, of n e] by (auto simp: restrict_map_def split: if_splits)
qed (use c sinvD(2) [OF i] in auto)

text \<open>The cursor moves and everything below it leaves.\<close>

lemma sinv_stale:
  assumes i: "sinv cap base act que" and b: "base' \<le> max base k" and f: "finite (dom que)"
  shows "sinv cap base' (act |` {k..}) (que |` {k..})"
proof (rule sinvI)
  fix n m j assume "n \<in> dom (act |` {k..})" "j \<in> dom (act |` {k..})" "n \<le> m" "m \<le> j"
  then show "m \<in> dom (act |` {k..})" using sinvD(1) [OF i, of n j m] by auto
next
  fix n assume "n \<in> dom (act |` {k..})"
  then show "base' \<le> n" using b sinvD(2) [OF i, of n] by auto
next
  fix n assume "n \<in> dom (que |` {k..})"
  then show "base' \<le> n" using b sinvD(3) [OF i, of n] by auto
next
  fix n m assume "n \<in> dom (que |` {k..})" "m \<in> dom (act |` {k..})"
  then show "m < n" using sinvD(4) [OF i, of n m] by auto
next
  fix n m e e' assume "n < m" "(act |` {k..}) n = Some e" "(act |` {k..}) m = Some e'"
  then show "rankWorse (e_clampedPriority e') (e_clampedOrder e') e"
    using sinvD(5) [OF i, of n m e e'] by (auto simp: restrict_map_def split: if_splits)
next
  fix n e assume "(act |` {k..}) n = Some e"
  then show "e_clampedPriority e \<le> e_priority e"
    using sinvD(6) [OF i, of n e] by (auto simp: restrict_map_def split: if_splits)
next
  have "card (dom (que |` {k..})) \<le> card (dom que)" using f by (intro card_mono) auto
  then show "int (card (dom (que |` {k..}))) \<le> cap" using sinvD(7) [OF i] by simp
qed

text \<open>The queue loses entries, or changes the ones above the active range.\<close>

lemma sinv_queue:
  assumes i: "sinv cap base act que" and c: "int (card (dom que')) \<le> cap"
    and q: "\<And>n. n \<in> dom que' \<Longrightarrow> n \<in> dom que \<or> (base \<le> n \<and> (\<forall>m\<in>dom act. m < n))"
  shows "sinv cap base act que'"
proof (rule sinvI)
  fix n assume "n \<in> dom que'"
  then show "base \<le> n" using q [of n] sinvD(3) [OF i, of n] by blast
next
  fix n m assume "n \<in> dom que'" "m \<in> dom act"
  then show "m < n" using q [of n] sinvD(4) [OF i, of n m] by blast
qed (rule c | (rule sinvD [OF i]; assumption))+

text \<open>The next nonce becomes active.\<close>

lemma sinv_append:
  assumes i: "sinv cap base act que" and n: "base \<le> n" "\<And>m. m \<in> dom act \<Longrightarrow> m < n"
    and adj: "dom act = {} \<or> n - 1 \<in> dom act" and q: "\<And>m. m \<in> dom que \<Longrightarrow> n < m"
    and w: "\<And>m x. act m = Some x \<Longrightarrow> rankWorse (e_clampedPriority e) (e_clampedOrder e) x"
    and p: "e_clampedPriority e \<le> e_priority e"
  shows "sinv cap base (act(n \<mapsto> e)) que"
proof (rule sinvI)
  fix a m j assume a: "a \<in> dom (act(n \<mapsto> e))" "j \<in> dom (act(n \<mapsto> e))" "a \<le> m" "m \<le> j"
  show "m \<in> dom (act(n \<mapsto> e))"
  proof (cases "m = n \<or> a = n")
    case True
    then show ?thesis using a n(2) [of j] by fastforce
  next
    case False
    then have d: "a \<in> dom act" using a(1) by simp
    show ?thesis
    proof (cases "j = n")
      case True
      then have "n - 1 \<in> dom act" using d adj by auto
      moreover have "m < n" using False True a(4) by auto
      then have "m \<le> n - 1" by simp
      ultimately show ?thesis using sinvD(1) [OF i d _ a(3)] by simp
    next
      case False
      then show ?thesis using sinvD(1) [OF i d _ a(3,4)] a(2) by simp
    qed
  qed
next
  fix k assume "k \<in> dom (act(n \<mapsto> e))"
  then show "base \<le> k" using n(1) sinvD(2) [OF i, of k] by (auto split: if_splits)
next
  fix k m assume "k \<in> dom que" "m \<in> dom (act(n \<mapsto> e))"
  then show "m < k" using q [of k] sinvD(4) [OF i, of k m] by (auto split: if_splits)
next
  fix k m x x' assume a: "k < m" "(act(n \<mapsto> e)) k = Some x" "(act(n \<mapsto> e)) m = Some x'"
  show "rankWorse (e_clampedPriority x') (e_clampedOrder x') x"
  proof (cases "m = n")
    case True
    then show ?thesis using a w [of k x] by (auto split: if_splits)
  next
    case False
    then have "m < n" using a(3) n(2) [of m] by auto
    then show ?thesis using a False sinvD(5) [OF i, of k m x x'] by (auto split: if_splits)
  qed
next
  fix k x assume "(act(n \<mapsto> e)) k = Some x"
  then show "e_clampedPriority x \<le> e_priority x" using p sinvD(6) [OF i, of k x] by (auto split: if_splits)
qed (use sinvD(3,7) [OF i] in auto)

text \<open>An active entry is replaced by one that ranks between its neighbours.\<close>

lemma sinv_replace:
  assumes i: "sinv cap base act que" and n: "act n = Some old"
    and w: "\<And>m x. m < n \<Longrightarrow> act m = Some x \<Longrightarrow> rankWorse (e_clampedPriority e) (e_clampedOrder e) x"
    and b: "rankWorse (e_clampedPriority old) (e_clampedOrder old) e"
    and p: "e_clampedPriority e \<le> e_priority e"
  shows "sinv cap base (act(n \<mapsto> e)) que"
proof -
  have dom: "dom (act(n \<mapsto> e)) = dom act" using n by auto
  show ?thesis
  proof (rule sinvI)
    fix k m x x' assume a: "k < m" "(act(n \<mapsto> e)) k = Some x" "(act(n \<mapsto> e)) m = Some x'"
    consider "m = n" | "k = n" | "m \<noteq> n" "k \<noteq> n" by blast
    then show "rankWorse (e_clampedPriority x') (e_clampedOrder x') x"
    proof cases
      case 1
      then show ?thesis using a w [of k x] by simp
    next
      case 2
      then have "rankWorse (e_clampedPriority x') (e_clampedOrder x') old"
        using a n sinvD(5) [OF i, of n m old x'] by simp
      then show ?thesis using rankWorse_trans [OF _ b] 2 a by simp
    next
      case 3
      then show ?thesis using a sinvD(5) [OF i, of k m x x'] by simp
    qed
  next
    fix k x assume "(act(n \<mapsto> e)) k = Some x"
    then show "e_clampedPriority x \<le> e_priority x" using p sinvD(6) [OF i, of k x] by (auto split: if_splits)
  next
    fix k m j assume "k \<in> dom (act(n \<mapsto> e))" "j \<in> dom (act(n \<mapsto> e))" "k \<le> m" "m \<le> j"
    then show "m \<in> dom (act(n \<mapsto> e))" unfolding dom by (rule sinvD(1) [OF i])
  next
    fix k m assume "k \<in> dom que" "m \<in> dom (act(n \<mapsto> e))"
    then show "m < k" unfolding dom by (rule sinvD(4) [OF i])
  qed (use sinvD(2,3,7) [OF i] in \<open>simp_all only: dom\<close>)
qed

section \<open>The pool\<close>

abbreviation sender_inv :: "'s PriorityMempool \<Rightarrow> senderState \<Rightarrow> bool" where
  "sender_inv p ss \<equiv>
     sinv (maxQueuedPerSender p) (onChainSeq ss) (mget (active ss)) (mget (queued ss))"

definition within :: "'s PriorityMempool \<Rightarrow> bool" where
  "within p \<longleftrightarrow> (cfg_MaxTx (cfg p) > 0 \<longrightarrow> int (mlen (entries p)) \<le> cfg_MaxTx (cfg p))"

definition priorities_ok :: "'s PriorityMempool \<Rightarrow> bool" where
  "priorities_ok p \<longleftrightarrow> (\<forall>k tx bz pr. held p k = Some (tx, bz, pr) \<longrightarrow> is_i64 pr)"

definition config_ok :: "'s PriorityMempool \<Rightarrow> bool" where
  "config_ok p \<longleftrightarrow> length (tiers p) = 1 \<and> 0 < maxQueuedPerSender p"

definition sound :: "'s env \<Rightarrow> 's PriorityMempool \<Rightarrow> bool" where
  "sound E p \<longleftrightarrow>
     consistent E p \<and> (\<forall>s ss. sview p s = Some ss \<longrightarrow> sender_inv p ss) \<and> within p \<and>
     priorities_ok p \<and> config_ok p \<and> 0 \<le> orderSeq p \<and> orderSeq p < 2 ^ 63"

lemma soundD:
  assumes "sound E p"
  shows "consistent E p" and "sview p s = Some ss \<Longrightarrow> sender_inv p ss" and "within p" and "priorities_ok p"
    and "config_ok p" and "0 \<le> orderSeq p" and "orderSeq p < 2 ^ 63" and "0 < maxQueuedPerSender p"
    and "mget (senders p) s = Some r \<Longrightarrow> sender_inv p (heap p r)"
  using assms by (auto simp: sound_def config_ok_def sview_def)

text \<open>\<open>leaves S p q\<close>: senders outside \<open>S\<close> are as they were, and so is everything but the orders.\<close>

definition leaves :: "string set \<Rightarrow> 's PriorityMempool \<Rightarrow> 's PriorityMempool \<Rightarrow> bool" where
  "leaves S p q \<longleftrightarrow>
     static q = static p \<and> freshRef q = freshRef p \<and> evs q = evs p \<and>
     (\<forall>t. t \<notin> S \<longrightarrow> mget (senders q) t = mget (senders p) t \<and>
        (\<forall>r. mget (senders p) t = Some r \<longrightarrow> heap q r = heap p r))"

lemma leaves_refl [simp]: "leaves S p p"
  by (simp add: leaves_def)

lemma leaves_trans: "leaves S p q \<Longrightarrow> leaves T q u \<Longrightarrow> leaves (S \<union> T) p u"
  by (simp add: leaves_def) metis

lemma heap_ok_ne:
  "heap_ok p \<Longrightarrow> mget (senders p) s = Some r \<Longrightarrow> mget (senders p) t = Some r' \<Longrightarrow> t \<noteq> s \<Longrightarrow> r' \<noteq> r"
  by (auto simp: heap_ok_def)

lemma leaves_mono: "leaves S p q \<Longrightarrow> S \<subseteq> T \<Longrightarrow> leaves T p q"
  by (auto simp: leaves_def)

lemma leavesD:
  assumes "leaves S p q"
  shows "static q = static p" and "evs q = evs p" and "tiers q = tiers p" and "cfg q = cfg p"
    and "maxQueuedPerSender q = maxQueuedPerSender p" and "t \<notin> S \<Longrightarrow> sview q t = sview p t"
    and "t \<notin> S \<Longrightarrow> mget (senders q) t = mget (senders p) t"
    and "t \<notin> S \<Longrightarrow> mget (senders p) t = Some r \<Longrightarrow> heap q r = heap p r"
  using assms by (auto simp: leaves_def static_def sview_def map_option_case split: option.split)

lemma only_leaves: "heap_ok p \<Longrightarrow> mget (senders p) s = Some r \<Longrightarrow> only r p q \<Longrightarrow> leaves {s} p q"
  by (auto simp: leaves_def only_def dest: heap_ok_ne)

lemma cleanup_leaves: "leaves {s} p (cleanupSenderLocked p s)"
  by (auto simp: leaves_def cleanupSenderLocked_def split: option.split)

lemma updSender_leaves: "heap_ok p \<Longrightarrow> mget (senders p) s = Some r \<Longrightarrow> leaves {s} p (updSender p r f)"
  by (auto simp: leaves_def dest: heap_ok_ne)

lemma within_mono:
  "within p \<Longrightarrow> cfg q = cfg p \<Longrightarrow> mdom (entries q) \<subseteq> mdom (entries p) \<Longrightarrow> within q"
proof -
  assume "within p" "cfg q = cfg p" "mdom (entries q) \<subseteq> mdom (entries p)"
  moreover from this(3) have "mlen (entries q) \<le> mlen (entries p)"
    by (simp add: gm.len_card card_mono)
  ultimately show "within q" by (auto simp: within_def)
qed

lemma entries_iff:
  "consistent E p \<Longrightarrow> mget (entries p) k = Some e \<longleftrightarrow>
    (\<exists>ss. sview p (sender k) = Some ss \<and> mget (active ss) (nonce k) = Some e)"
  using consistentD(2) [of E p] by (cases "sview p (sender k)") (simp_all add: entries_ok_def del: sview_None)

lemma entries_leaves:
  assumes "consistent E p" "consistent E q" "leaves S p q" "sender k \<notin> S"
  shows "mget (entries q) k = mget (entries p) k"
  using consistentD(2) [OF assms(1)] consistentD(2) [OF assms(2)] leavesD(6) [OF assms(3,4)]
  by (simp add: entries_ok_def)

text \<open>
  To keep \<open>sound\<close> it is enough to show the invariant of the one sender that an operation works on,
  that its active nonces have only become fewer, and that nothing new is held.
\<close>

lemma sound_shrink:
  assumes s: "sound E p" and c: "consistent E q" and l: "leaves {s} p q" and o: "orderSeq q = orderSeq p"
    and inv: "\<And>ss. sview q s = Some ss \<Longrightarrow> sender_inv p ss"
    and act: "\<And>ss n. sview q s = Some ss \<Longrightarrow> n \<in> mdom (active ss) \<Longrightarrow>
      \<exists>ss0. sview p s = Some ss0 \<and> n \<in> mdom (active ss0)"
    and held: "held q \<subseteq>\<^sub>m held p"
  shows "sound E q"
proof -
  note h = soundD [OF s]
  have "sender_inv q ss" if "sview q t = Some ss" for t ss
    using that inv h(2) leavesD(5,6) [OF l] by (cases "t = s") auto
  moreover have "mdom (entries q) \<subseteq> mdom (entries p)"
  proof
    fix k assume k: "k \<in> mdom (entries q)"
    show "k \<in> mdom (entries p)"
    proof (cases "sender k = s")
      case True
      from k obtain e ss where ss: "sview q s = Some ss" "mget (active ss) (nonce k) = Some e"
        using True by (auto simp: entries_iff [OF c])
      from act [OF ss(1) domI, OF ss(2)] show ?thesis using True by (auto simp: entries_iff [OF h(1)])
    next
      case False
      then show ?thesis using k entries_leaves [OF h(1) c l] by (simp add: domIff)
    qed
  qed
  then have "within q" using within_mono [OF h(3)] leavesD(4) [OF l] by simp
  moreover have "priorities_ok q"
    using h(4) held by (force simp: priorities_ok_def map_le_def)
  moreover have "config_ok q" using h(5) leavesD [OF l] by (simp add: config_ok_def)
  ultimately show ?thesis using c o h(6,7) by (simp add: sound_def)
qed

lemma map_le_None: "m \<subseteq>\<^sub>m m' \<Longrightarrow> m' k = None \<Longrightarrow> m k = None"
  by (metis domIff map_le_def)

lemma accounted_le: "accounted p R q \<Longrightarrow> held q \<subseteq>\<^sub>m held p"
  by (auto simp: accounted_def map_le_def restrict_map_def split: if_splits)

section \<open>Removal by reason\<close>

lemma cleanup_step:
  assumes "consistent E p"
  shows "consistent E (cleanupSenderLocked p s)" and "held (cleanupSenderLocked p s) = held p"
    and "entries (cleanupSenderLocked p s) = entries p" and "orderSeq (cleanupSenderLocked p s) = orderSeq p"
    and "leaves {s} p (cleanupSenderLocked p s)"
    and "sview (cleanupSenderLocked p s) s = Some ss \<Longrightarrow> sview p s = Some ss"
proof -
  note pr = pruned_consistent [OF assms cleanupSender_pruned]
  show "consistent E (cleanupSenderLocked p s)" and "held (cleanupSenderLocked p s) = held p" by (rule pr)+
  show "leaves {s} p (cleanupSenderLocked p s)" by (rule cleanup_leaves)
  show "entries (cleanupSenderLocked p s) = entries p" "orderSeq (cleanupSenderLocked p s) = orderSeq p"
    "sview (cleanupSenderLocked p s) s = Some ss \<Longrightarrow> sview p s = Some ss"
    by (auto simp: cleanupSenderLocked_def sview_def split: option.splits if_splits)
qed

text \<open>The reason-specific part for the two reasons that demote.\<close>

lemma reject_step:
  assumes c: "consistent E p" and sk: "skiplist_ok E" and r: "mget (senders p) s = Some r"
    and cap: "0 < maxQueuedPerSender p"
    and q1: "removeNonceLocked E p r n = (p1, eo)"
    and q: "demoteActiveRangeLocked E p1 r n False seq hasSeq = (q, es)"
  shows "local_step E r p ((case eo of Some e \<Rightarrow> [e] | None \<Rightarrow> []) @ es) q" and "demoted n p q r"
    and "held q \<lparr>sender = s, nonce = n\<rparr> = None"
proof -
  note a = removeNonce_step [OF c sk r q1]
  have r1: "mget (senders p1) s = Some r" "0 < maxQueuedPerSender p1" "maxQueuedPerSender p1 = maxQueuedPerSender p"
    using r cap onlyD [OF local_stepD(2) [OF a(1)]] by simp_all
  note b = demoteActiveRange_step [OF local_stepD(1) [OF a(1)] sk r1(1,2) q, simplified]
  show "local_step E r p ((case eo of Some e \<Rightarrow> [e] | None \<Rightarrow> []) @ es) q"
    by (rule local_step_trans [OF a(1) b(1)])
  have l: "mlen (queued (heap p1 r)) \<le> mlen (queued (heap p r))"
    unfolding gm.len_card a(3) by (intro card_mono) auto
  have act: "mget (active (heap q r)) = mget (active (heap p r)) |` {..<n}"
    using b(2) a(2) by (auto simp: demoted_def restrict_map_def fun_eq_iff)
  have que: "mdom (queued (heap q r)) \<subseteq> mdom (queued (heap p r)) \<union> (mdom (active (heap p r)) \<inter> {n..})"
    using b(2) a(2,3) unfolding demoted_def by fastforce
  have "int (mlen (queued (heap q r))) \<le> max (int (mlen (queued (heap p r)))) (maxQueuedPerSender p)"
    using b(2) l unfolding demoted_def r1(3) by linarith
  with act que show "demoted n p q r" unfolding demoted_def by blast
  have "held p1 \<lparr>sender = s, nonce = n\<rparr> = None"
    using r1(1) a(2,3) by (simp add: held_def sview_def sheld_def)
  with accounted_le [OF local_stepD(3) [OF b(1)]] show "held q \<lparr>sender = s, nonce = n\<rparr> = None"
    by (rule map_le_None)
qed

lemma sound_demoted:
  assumes s: "sound E p" and r: "mget (senders p) s = Some r" and l: "local_step E r p es q" and d: "demoted n p q r"
  shows "sound E q" and "mget (entries q) k = (if sender k = s \<and> n \<le> nonce k then None else mget (entries p) k)"
proof -
  note h = soundD [OF s] and ld = local_stepD [OF l] and od = onlyD [OF local_stepD(2) [OF l]]
  have lv: "leaves {s} p q" using only_leaves [OF consistentD(1) [OF h(1)] r ld(2)] .
  have sq: "sview q s = Some (heap q r)" and sp: "sview p s = Some (heap p r)" using r od by (simp_all add: sview_def)
  note i = h(2) [OF sp]
  have "int (card (mdom (queued (heap q r)))) \<le> maxQueuedPerSender p"
    using d sinvD(7) [OF i] by (simp add: demoted_def gm.len_card)
  then have "sender_inv p (heap q r)"
    using sinv_demote [OF i] d od(6) by (simp add: demoted_def)
  moreover have "mdom (active (heap q r)) \<subseteq> mdom (active (heap p r))" using d by (auto simp: demoted_def)
  ultimately show "sound E q"
    using sq sp od(3) accounted_le [OF ld(3)] by (intro sound_shrink [OF s ld(1) lv]) auto
  show "mget (entries q) k = (if sender k = s \<and> n \<le> nonce k then None else mget (entries p) k)"
  proof (cases "sender k = s")
    case True
    then show ?thesis using consistentD(2) [OF ld(1)] consistentD(2) [OF h(1)] sq sp d
      by (simp add: entries_ok_def demoted_def restrict_map_def)
  next
    case False
    then show ?thesis using entries_leaves [OF h(1) ld(1) lv] by simp
  qed
qed

lemma removeByReason_demote:
  assumes s: "sound E p" and sk: "skiplist_ok E" and reason: "reason \<noteq> RemovalReasonCommittedInBlock"
    and q: "removeByReasonLocked E p s n reason seq False = (q, es)"
  shows "sound E q" and "leaves {s} p q" and "orderSeq q = orderSeq p" and "accounted p es q"
    and "mget (entries q) k = (if sender k = s \<and> n \<le> nonce k then None else mget (entries p) k)"
    and "reason = RemovalReasonAnteRejectedInPrepare \<Longrightarrow> held q \<lparr>sender = s, nonce = n\<rparr> = None"
proof -
  note h = soundD [OF s]
  have "sound E q \<and> leaves {s} p q \<and> orderSeq q = orderSeq p \<and> accounted p es q \<and>
    (\<forall>k. mget (entries q) k = (if sender k = s \<and> n \<le> nonce k then None else mget (entries p) k)) \<and>
    (reason = RemovalReasonAnteRejectedInPrepare \<longrightarrow> held q \<lparr>sender = s, nonce = n\<rparr> = None)"
  proof (cases "mget (senders p) s")
    case None
    then have "mget (entries p) k = None" if "sender k = s" for k
      using consistentD(2) [OF h(1)] that by (simp add: entries_ok_def sview_def)
    moreover have "q = p" "es = []" using q None by (simp_all add: removeByReasonLocked_def)
    ultimately show ?thesis using s None by (simp add: held_def sview_def)
  next
    case (Some r)
    obtain p1 where q1: "q = cleanupSenderLocked p1 s" and l: "local_step E r p es p1" and d: "demoted n p p1 r"
      and a: "reason = RemovalReasonAnteRejectedInPrepare \<longrightarrow> held p1 \<lparr>sender = s, nonce = n\<rparr> = None"
    proof (cases "reason = RemovalReasonCapacityEvicted")
      case True
      obtain p1 es1 where p1: "demoteActiveRangeLocked E p r n True seq False = (p1, es1)" by fastforce
      then have "q = cleanupSenderLocked p1 s" "es = es1" using q Some True by (simp_all add: removeByReasonLocked_def)
      then show ?thesis using demoteActiveRange_step [OF h(1) sk Some h(8) p1] True by (intro that) auto
    next
      case False
      then have A: "reason = RemovalReasonAnteRejectedInPrepare" using reason by (cases reason) auto
      obtain p0 eo where p0: "removeNonceLocked E p r n = (p0, eo)" by fastforce
      obtain p1 es1 where p1: "demoteActiveRangeLocked E p0 r n False seq False = (p1, es1)" by fastforce
      have "q = cleanupSenderLocked p1 s" "es = (case eo of Some e \<Rightarrow> [e] | None \<Rightarrow> []) @ es1"
        using q Some A p0 p1 by (simp_all add: removeByReasonLocked_def)
      then show ?thesis using reject_step [OF h(1) sk Some h(8) p0 p1] by (intro that) auto
    qed
    note sd = sound_demoted [OF s Some l d] and cl = cleanup_step [OF local_stepD(1) [OF l], of s]
    have "sound E q"
      unfolding q1 using cl soundD(2) [OF sd(1), of s] leavesD(5) [OF cl(5)]
      by (intro sound_shrink [OF sd(1) cl(1) cl(5) cl(4)]) auto
    moreover have "leaves {s} p q"
      using leaves_trans [OF only_leaves [OF consistentD(1) [OF h(1)] Some local_stepD(2) [OF l]] cl(5)] q1 by simp
    ultimately show ?thesis
      using cl sd(2) a onlyD(3) [OF local_stepD(2) [OF l]] local_stepD(3) [OF l] q1 by (simp add: accounted_def)
  qed
  then show "sound E q" "leaves {s} p q" "orderSeq q = orderSeq p" "accounted p es q"
    "mget (entries q) k = (if sender k = s \<and> n \<le> nonce k then None else mget (entries p) k)"
    "reason = RemovalReasonAnteRejectedInPrepare \<Longrightarrow> held q \<lparr>sender = s, nonce = n\<rparr> = None" by blast+
qed

text \<open>The cursor moves to the account sequence and the stale entries of the sender leave.\<close>

lemma advance_step:
  assumes c: "consistent E p" and sk: "skiplist_ok E" and r: "mget (senders p) s = Some r"
    and q: "removeStaleLocked E (updSender p r (\<lambda>ss. setOnChainSeqLocked ss seq)) r seq = (q, es)"
  shows "consistent E q" and "leaves {s} p q" and "orderSeq q = orderSeq p" and "accounted p es q"
    and "senders q = senders p" and "mget (active (heap q r)) = mget (active (heap p r)) |` {seq..}"
    and "mget (queued (heap q r)) = mget (queued (heap p r)) |` {seq..}"
    and "onChainSeq (heap q r) = max (onChainSeq (heap p r)) seq"
proof -
  let ?p = "updSender p r (\<lambda>ss. setOnChainSeqLocked ss seq)"
  note u = updScalar [OF c r, of "\<lambda>ss. setOnChainSeqLocked ss seq", simplified setOnChainSeqLocked_def, simplified]
  have u: "consistent E ?p" "held ?p = held p" using u by (simp_all add: setOnChainSeqLocked_def)
  have r': "mget (senders ?p) s = Some r" using r by simp
  note st = removeStale_step [OF u(1) sk r' q]
  note o = onlyD [OF local_stepD(2) [OF st(1)]]
  show "consistent E q" by (rule local_stepD(1) [OF st(1)])
  have "leaves {s} ?p q" using only_leaves [OF consistentD(1) [OF u(1)] r' local_stepD(2) [OF st(1)]] .
  with leaves_trans [OF updSender_leaves [OF consistentD(1) [OF c] r]] show "leaves {s} p q" by fastforce
  show "orderSeq q = orderSeq p" "senders q = senders p" using o by simp_all
  show "accounted p es q" using local_stepD(3) [OF st(1)] u(2) by (simp add: accounted_def)
  show "mget (active (heap q r)) = mget (active (heap p r)) |` {seq..}"
    "mget (queued (heap q r)) = mget (queued (heap p r)) |` {seq..}"
    "onChainSeq (heap q r) = max (onChainSeq (heap p r)) seq"
    using st(2,3) o(6) by (simp_all add: setOnChainSeqLocked_def)
qed

lemma sound_advanced:
  assumes s: "sound E p" and r: "mget (senders p) s = Some r" and c: "consistent E q" and l: "leaves {s} p q"
    and o: "orderSeq q = orderSeq p" and a: "accounted p es q" and sn: "senders q = senders p"
    and m: "mget (active (heap q r)) = mget (active (heap p r)) |` {seq..}"
      "mget (queued (heap q r)) = mget (queued (heap p r)) |` {seq..}"
      "onChainSeq (heap q r) = max (onChainSeq (heap p r)) seq"
  shows "sound E q" and "mget (entries q) k = (if sender k = s \<and> nonce k < seq then None else mget (entries p) k)"
proof -
  note h = soundD [OF s]
  have sq: "sview q s = Some (heap q r)" and sp: "sview p s = Some (heap p r)" using r sn by (simp_all add: sview_def)
  have "sender_inv p (heap q r)"
    unfolding m by (rule sinv_stale [OF h(2) [OF sp]]) simp_all
  then show "sound E q"
    using sq sp m(1) accounted_le [OF a] by (intro sound_shrink [OF s c l o]) auto
  show "mget (entries q) k = (if sender k = s \<and> nonce k < seq then None else mget (entries p) k)"
  proof (cases "sender k = s")
    case True
    then show ?thesis using consistentD(2) [OF c] consistentD(2) [OF h(1)] sq sp m(1)
      by (simp add: entries_ok_def restrict_map_def)
  next
    case False
    then show ?thesis using entries_leaves [OF h(1) c l] by simp
  qed
qed

lemma sound_cleanup:
  assumes "sound E p"
  shows "sound E (cleanupSenderLocked p s)"
  using cleanup_step [OF soundD(1) [OF assms], of s] soundD(2) [OF assms, of s]
  by (intro sound_shrink [OF assms]) auto

lemma removeByReason_committed:
  assumes s: "sound E p" and sk: "skiplist_ok E"
    and q: "removeByReasonLocked E p s n RemovalReasonCommittedInBlock (n + 1) True = (q, es)"
  shows "sound E q" and "leaves {s} p q" and "orderSeq q = orderSeq p" and "accounted p es q"
    and "mget (entries q) k = (if sender k = s \<and> nonce k \<le> n then None else mget (entries p) k)"
    and "m \<le> n \<Longrightarrow> held q \<lparr>sender = s, nonce = m\<rparr> = None"
proof -
  note h = soundD [OF s]
  have "sound E q \<and> leaves {s} p q \<and> orderSeq q = orderSeq p \<and> accounted p es q \<and>
    (\<forall>k. mget (entries q) k = (if sender k = s \<and> nonce k \<le> n then None else mget (entries p) k)) \<and>
    (\<forall>m\<le>n. held q \<lparr>sender = s, nonce = m\<rparr> = None)"
  proof (cases "mget (senders p) s")
    case None
    then have "mget (entries p) k = None" if "sender k = s" for k
      using consistentD(2) [OF h(1)] that by (simp add: entries_ok_def sview_def)
    moreover have "q = p" "es = []" using q None by (simp_all add: removeByReasonLocked_def)
    ultimately show ?thesis using s None by (simp add: held_def sview_def)
  next
    case (Some r)
    obtain p1 eo where p1: "removeNonceLocked E p r n = (p1, eo)" by fastforce
    obtain p2 es2 where p2: "removeStaleLocked E (updSender p1 r (\<lambda>ss. setOnChainSeqLocked ss (n + 1))) r (n + 1) = (p2, es2)"
      by fastforce
    have q2: "q = cleanupSenderLocked p2 s" "es = (case eo of Some e \<Rightarrow> [e] | None \<Rightarrow> []) @ es2"
      using q Some p1 p2 by (simp_all add: removeByReasonLocked_def)
    note a = removeNonce_step [OF h(1) sk Some p1]
    note ad = local_stepD [OF a(1)] and ao = onlyD [OF local_stepD(2) [OF a(1)]]
    have r1: "mget (senders p1) s = Some r" using Some ao by simp
    note b = advance_step [OF ad(1) sk r1 p2]
    have l: "leaves {s} p p2"
      using leaves_trans [OF only_leaves [OF consistentD(1) [OF h(1)] Some ad(2)] b(2)] by simp
    have m: "mget (active (heap p2 r)) = mget (active (heap p r)) |` {n + 1..}"
      "mget (queued (heap p2 r)) = mget (queued (heap p r)) |` {n + 1..}"
      using a(2,3) b(6,7) by (auto simp: restrict_map_def fun_eq_iff)
    have ac: "accounted p es p2" unfolding q2 by (rule accounted_append [OF ad(3) b(4)])
    have sn: "senders p2 = senders p" and os: "orderSeq p2 = orderSeq p"
      and bq: "onChainSeq (heap p2 r) = max (onChainSeq (heap p r)) (n + 1)" using b(3,5,8) ao by simp_all
    note sd = sound_advanced [OF s Some b(1) l os ac sn m bq] and cl = cleanup_step [OF b(1), of s]
    have "held p2 \<lparr>sender = s, nonce = j\<rparr> = None" if "j \<le> n" for j
      using that m sn Some by (simp add: held_def sview_def sheld_def)
    moreover have "leaves {s} p q" using leaves_trans [OF l cl(5)] q2 by simp
    ultimately show ?thesis
      using cl sd(2) ac os sound_cleanup [OF sd(1)] by (simp add: accounted_def q2(1) less_Suc_eq_le)
  qed
  then show "sound E q" "leaves {s} p q" "orderSeq q = orderSeq p" "accounted p es q"
    "mget (entries q) k = (if sender k = s \<and> nonce k \<le> n then None else mget (entries p) k)"
    "m \<le> n \<Longrightarrow> held q \<lparr>sender = s, nonce = m\<rparr> = None" by blast+
qed

text \<open>The evicted entries, one after the other.\<close>

lemma removeEntriesByReason_step:
  assumes "sound E p" and "skiplist_ok E" and "reason \<noteq> RemovalReasonCommittedInBlock"
    and "removeEntriesByReasonLocked E p ev reason = (q, es)"
  shows "sound E q \<and> leaves ((\<lambda>e. sender (e_key e)) ` set ev) p q \<and> orderSeq q = orderSeq p \<and> accounted p es q \<and>
    mget (entries q) \<subseteq>\<^sub>m mget (entries p) \<and> (\<forall>e\<in>set ev. mget (entries q) (e_key e) = None)"
  using assms
proof (induction ev arbitrary: p q es)
  case Nil
  then show ?case by simp
next
  case (Cons e ev)
  show ?case
  proof (cases "mget (entries p) (e_key e)")
    case None
    with Cons.prems have "removeEntriesByReasonLocked E p ev reason = (q, es)" by simp
    from Cons.IH [OF Cons.prems(1-3) this] None show ?thesis
      by (auto intro: leaves_mono map_le_None)
  next
    case (Some x)
    obtain p1 es1 where p1: "removeByReasonLocked E p (sender (e_key e)) (nonce (e_key e)) reason 0 False = (p1, es1)"
      by fastforce
    obtain es2 where q: "removeEntriesByReasonLocked E p1 ev reason = (q, es2)" "es = es1 @ es2"
      using Cons.prems(4) Some p1 by (auto split: prod.splits)
    note a = removeByReason_demote [OF Cons.prems(1-3) p1]
    note ih = Cons.IH [OF a(1) Cons.prems(2,3) q(1)]
    have le: "mget (entries p1) \<subseteq>\<^sub>m mget (entries p)" and no: "mget (entries p1) (e_key e) = None"
      using a(5) by (auto simp: map_le_def split: if_splits)
    have "leaves ((\<lambda>e. sender (e_key e)) ` set (e # ev)) p q"
      using leaves_trans [OF a(2), of _ q] ih by (fastforce elim: leaves_mono)
    moreover have "mget (entries q) (e_key e) = None"
      using ih no by (auto intro: map_le_None [where m' = "mget (entries p1)"])
    ultimately show ?thesis
      using ih a(3) accounted_append [OF a(4)] map_le_trans [OF _ le] q(2) by auto
  qed
qed

end
