(* ===== verification/Mempool_Insert_Proofs.thy ===== *)
theory Mempool_Insert_Proofs
  imports Mempool_Sound
begin

text \<open>
  Correctness of admission and promotion (\<open>Mempool_Insert\<close>): what the capacity check evicts, why
  it never evicts an entry of the sender it makes room for, that the clamped rank keeps the ranks
  of a sender monotone, and that \<open>Insert\<close> and \<open>PromoteQueued\<close> keep the invariant \<open>sound\<close> and
  account for every entry that enters or leaves the pool.
\<close>

section \<open>Capacity\<close>

lemma evictLoop_spec:
  assumes "evictLoop ex cp co tgt cur nodes acc = (True, ev)" and "distinct nodes"
  shows "\<exists>ev'. ev = acc @ ev' \<and> set ev' \<subseteq> set nodes \<and> distinct ev' \<and> cur - int (length ev') \<le> max tgt cur \<and>
    (\<forall>x\<in>set ev'. isBetterThan x cp co \<and> ex \<noteq> Some (e_key x)) \<and>
    cur - int (length ev') \<le> tgt \<and> (cur \<le> tgt \<longrightarrow> ev' = [])"
  using assms
proof (induction ex cp co tgt cur nodes acc arbitrary: ev rule: evictLoop.induct)
  case (1 ex cp co tgt cur nodes acc)
  show ?case
  proof (cases "cur > tgt")
    case False
    then show ?thesis using 1(3) by (subst (asm) evictLoop.simps) simp
  next
    case gt: True
    have u: "(case nodes of [] \<Rightarrow> (False, acc) | e # rest \<Rightarrow>
        if ex = Some (e_key e) then evictLoop ex cp co tgt cur rest acc
        else if \<not> isBetterThan e cp co then (False, acc)
        else evictLoop ex cp co tgt (cur - 1) rest (acc @ [e])) = (True, ev)"
      using 1(3) gt by (subst (asm) evictLoop.simps) simp
    then obtain e rest where n: "nodes = e # rest" by (cases nodes) simp_all
    show ?thesis
    proof (cases "ex = Some (e_key e)")
      case True
      then have "evictLoop ex cp co tgt cur rest acc = (True, ev)"
        using u n by simp
      from 1(1) [OF gt n True this] 1(4) n show ?thesis by auto
    next
      case ne: False
      then have b: "isBetterThan e cp co" and l: "evictLoop ex cp co tgt (cur - 1) rest (acc @ [e]) = (True, ev)"
        using u n by (simp_all split: if_splits)
      have "\<not> \<not> isBetterThan e cp co" using b by simp
      from 1(2) [OF gt n ne this l] 1(4) n obtain ev' where e': "ev = (acc @ [e]) @ ev'" "set ev' \<subseteq> set rest" "distinct ev'"
        "\<forall>x\<in>set ev'. isBetterThan x cp co \<and> ex \<noteq> Some (e_key x)" "cur - 1 - int (length ev') \<le> tgt" by auto
      then show ?thesis using b ne n 1(4) gt by (intro exI [of _ "e # ev'"]) auto
    qed
  qed
qed

text \<open>
  What \<open>canAcceptLocked\<close> promises when it accepts: the evicted entries are active, strictly worse
  than the candidate, are not the excluded one, and leaving them out makes room for one more.
\<close>

lemma canAccept_spec:
  assumes c: "consistent E p" and a: "canAcceptLocked p ctx cp co sz gas ex = (True, ev)"
  shows "set ev \<subseteq> ran (mget (entries p))" and "distinct ev"
    and "x \<in> set ev \<Longrightarrow> isBetterThan x cp co" and "x \<in> set ev \<Longrightarrow> map_option e_key ex \<noteq> Some (e_key x)"
    and "cfg_MaxTx (cfg p) > 0 \<Longrightarrow> int (mlen (entries p)) -
      (case ex of Some x \<Rightarrow> if mget (entries p) (e_key x) \<noteq> None then 1 else 0 | None \<Rightarrow> 0) - int (length ev) \<le>
      cfg_MaxTx (cfg p) - 1"
    and "cfg_MaxTx (cfg p) > 0 \<Longrightarrow> int (mlen (entries p)) -
      (case ex of Some x \<Rightarrow> if mget (entries p) (e_key x) \<noteq> None then 1 else 0 | None \<Rightarrow> 0) \<le>
      cfg_MaxTx (cfg p) - 1 \<Longrightarrow> ev = []"
    and "cfg_MaxTx (cfg p) \<le> 0 \<Longrightarrow> ev = []"
proof -
  have idx: "set (priorityIndex p) = ran (mget (entries p))" and dis: "distinct (rev (priorityIndex p))"
    using consistentD(3) [OF c] ce.index_sorted_distinct by (auto simp: index_ok_def)
  let ?len = "int (mlen (entries p)) -
      (case ex of Some x \<Rightarrow> if mget (entries p) (e_key x) \<noteq> None then 1 else 0 | None \<Rightarrow> 0)"
  have "(cfg_MaxTx (cfg p) > 0 \<and>
      evictLoop (map_option e_key ex) cp co (cfg_MaxTx (cfg p) - 1) ?len (rev (priorityIndex p)) [] = (True, ev)) \<or>
    (cfg_MaxTx (cfg p) \<le> 0 \<and> ev = [])"
    using a unfolding canAcceptLocked_def Let_def by (simp split: if_splits)
  then have "set ev \<subseteq> set (rev (priorityIndex p)) \<and> distinct ev \<and>
    (\<forall>x\<in>set ev. isBetterThan x cp co \<and> map_option e_key ex \<noteq> Some (e_key x)) \<and>
    (cfg_MaxTx (cfg p) > 0 \<longrightarrow> ?len - int (length ev) \<le> cfg_MaxTx (cfg p) - 1 \<and>
      (?len \<le> cfg_MaxTx (cfg p) - 1 \<longrightarrow> ev = [])) \<and> (cfg_MaxTx (cfg p) \<le> 0 \<longrightarrow> ev = [])"
    using evictLoop_spec [OF _ dis] by (elim disjE conjE) fastforce+
  then show "set ev \<subseteq> ran (mget (entries p))" "distinct ev" "x \<in> set ev \<Longrightarrow> isBetterThan x cp co"
    "x \<in> set ev \<Longrightarrow> map_option e_key ex \<noteq> Some (e_key x)"
    "cfg_MaxTx (cfg p) > 0 \<Longrightarrow> ?len - int (length ev) \<le> cfg_MaxTx (cfg p) - 1"
    "cfg_MaxTx (cfg p) > 0 \<Longrightarrow> ?len \<le> cfg_MaxTx (cfg p) - 1 \<Longrightarrow> ev = []"
    "cfg_MaxTx (cfg p) \<le> 0 \<Longrightarrow> ev = []"
    using idx by auto
qed

text \<open>The sender for which room is made is never the one that loses an entry.\<close>

lemma not_evicted:
  assumes c: "consistent E p" and x: "x \<in> ran (mget (entries p))" "isBetterThan x cp co"
    and w: "\<And>ss m y. sview p s = Some ss \<Longrightarrow> mget (active ss) m = Some y \<Longrightarrow> rankWorse cp co y"
  shows "sender (e_key x) \<noteq> s"
proof
  assume s: "sender (e_key x) = s"
  from x(1) obtain k where k: "mget (entries p) k = Some x" by (auto simp: ran_def)
  with entries_ok_key(1) [OF c k] s obtain ss where "sview p s = Some ss" "mget (active ss) (nonce k) = Some x"
    by (auto simp: entries_iff [OF c])
  from w [OF this] x(2) show False by (auto simp: rankWorse_def isBetterThan_def split: if_splits)
qed

section \<open>The rank of the next nonce\<close>

lemma score_0: "is_i64 pr \<Longrightarrow> scoreByTierPriority 0 pr = pr"
  by (simp add: scoreByTierPriority_def i64_def is_i64_def)

lemma selectTier_single: "config_ok p \<Longrightarrow> selectTier p ctx tx = 0"
  using selectTier_bounds [of p ctx tx] by (cases "tiers p") (auto simp: config_ok_def)

lemma clamped_free:
  assumes "0 < n \<Longrightarrow> mget (active ss) (n - 1) = None" "\<not> (0 < mlen (active ss) \<and> activeMax ss < n)" "is_i64 pr"
  shows "computeClampedRankLocked (Some ss) 0 pr ord n = (pr, ord)"
proof -
  have "(if 0 < n then mget (active ss) (n - 1) else None) = None" using assms(1) by simp
  then show ?thesis unfolding computeClampedRankLocked_def Let_def option.case score_0 [OF assms(3)]
    using assms(2) by auto
qed

lemma clamped_append:
  assumes i: "sinv cap base (mget (active ss)) que" and ok: "range_ok (active ss) (activeMin ss) (activeMax ss)"
    and adj: "mdom (active ss) = {} \<or> (0 < n \<and> n - 1 \<in> mdom (active ss))"
    and top: "\<And>m. m \<in> mdom (active ss) \<Longrightarrow> m < n"
    and ord: "\<And>m x. mget (active ss) m = Some x \<Longrightarrow> e_clampedOrder x \<le> ord"
    and pr: "is_i64 pr" and cl: "computeClampedRankLocked (Some ss) 0 pr ord n = (cp, co)"
  shows "mget (active ss) m = Some x \<Longrightarrow> rankWorse cp co x" and "cp \<le> pr" and "co \<le> ord"
proof -
  have "(\<forall>m x. mget (active ss) m = Some x \<longrightarrow> rankWorse cp co x) \<and> cp \<le> pr \<and> co \<le> ord"
  proof (cases "mdom (active ss) = {}")
    case True
    then have e: "mget (active ss) = Map.empty" "mlen (active ss) = 0" by (simp_all add: gm.len_0)
    then have "cp = pr" "co = ord" using cl clamped_free [of n ss pr ord] pr by simp_all
    then show ?thesis using e by simp
  next
    case False
    then obtain prev where prev: "0 < n" "mget (active ss) (n - 1) = Some prev" using adj by blast
    then have ct: "clampTo prev pr ord = (cp, co)" using cl pr by (simp add: computeClampedRankLocked_def score_0)
    have w: "rankWorse cp co prev" using clampTo_worse [OF ct] .
    have "rankWorse cp co x" if x: "mget (active ss) m = Some x" for m x
    proof (cases "m = n - 1")
      case False
      then have "m < n - 1" using top [of m] x by fastforce
      from sinvD(5) [OF i this x prev(2)] rankWorse_trans [OF w] show ?thesis by blast
    qed (use x prev w in simp)
    moreover have "cp \<le> pr" "co \<le> ord" using ct ord [OF prev(2)] by (auto simp: clampTo_def split: if_splits)
    ultimately show ?thesis by blast
  qed
  then show "mget (active ss) m = Some x \<Longrightarrow> rankWorse cp co x" "cp \<le> pr" "co \<le> ord" by blast+
qed

text \<open>A replacement with a higher priority ranks at least as well as what it replaces.\<close>

lemma clamped_replace:
  assumes i: "sinv cap base (mget (active ss)) que" and ok: "range_ok (active ss) (activeMin ss) (activeMax ss)"
    and n: "mget (active ss) n = Some old" and pr: "is_i64 pr" "e_priority old < pr"
    and ord: "\<And>m x. mget (active ss) m = Some x \<Longrightarrow> e_clampedOrder x \<le> ord"
    and cl: "computeClampedRankLocked (Some ss) 0 pr ord n = (cp, co)"
  shows "m < n \<Longrightarrow> mget (active ss) m = Some x \<Longrightarrow> rankWorse cp co x" and "cp \<le> pr" and "co \<le> ord"
    and "cp > e_clampedPriority old \<or> (cp = e_clampedPriority old \<and> co \<le> e_clampedOrder old)"
proof -
  have le: "e_clampedPriority old \<le> e_priority old" using sinvD(6) [OF i n] .
  have "(\<forall>m x. m < n \<longrightarrow> mget (active ss) m = Some x \<longrightarrow> rankWorse cp co x) \<and> cp \<le> pr \<and> co \<le> ord \<and>
    (cp > e_clampedPriority old \<or> (cp = e_clampedPriority old \<and> co \<le> e_clampedOrder old))"
  proof (cases "0 < n \<and> n - 1 \<in> mdom (active ss)")
    case True
    then obtain prev where prev: "0 < n" "mget (active ss) (n - 1) = Some prev" by blast
    then have ct: "clampTo prev pr ord = (cp, co)" using cl pr by (simp add: computeClampedRankLocked_def score_0)
    have w: "rankWorse cp co prev" using clampTo_worse [OF ct] .
    have "rankWorse cp co x" if x: "m < n" "mget (active ss) m = Some x" for m x
    proof (cases "m = n - 1")
      case False
      then have "m < n - 1" using x by simp
      from sinvD(5) [OF i this x(2) prev(2)] rankWorse_trans [OF w] show ?thesis by blast
    qed (use x prev w in simp)
    moreover have "rankWorse (e_clampedPriority old) (e_clampedOrder old) prev"
      using sinvD(5) [OF i _ prev(2) n] prev(1) by simp
    ultimately show ?thesis using ct ord [OF prev(2)] le pr(2)
      by (auto simp: clampTo_def rankWorse_def split: if_splits)
  next
    case False
    have none: "mget (active ss) m = None" if "m < n" for m
    proof (rule ccontr)
      assume "mget (active ss) m \<noteq> None"
      then have "n - 1 \<in> mdom (active ss)"
        using sinvD(1) [OF i, of m n "n - 1"] n that by (simp add: domIff)
      with False that show False by simp
    qed
    have "n \<le> activeMax ss" using range_okD [OF ok n] by simp
    then have "cp = pr" "co = ord" using cl clamped_free [of n ss pr ord] none [of "n - 1"] pr(1) by simp_all
    then show ?thesis using none le pr(2) by auto
  qed
  then show "m < n \<Longrightarrow> mget (active ss) m = Some x \<Longrightarrow> rankWorse cp co x" "cp \<le> pr" "co \<le> ord"
    "cp > e_clampedPriority old \<or> (cp = e_clampedPriority old \<and> co \<le> e_clampedOrder old)" by blast+
qed

section \<open>Orders and cursors\<close>

lemma nextOrder_step:
  assumes s: "sound E p" and room: "orderSeq p + 1 < 2 ^ 63"
  shows "nextOrder p = (p\<lparr>orderSeq := orderSeq p + 1\<rparr>, orderSeq p + 1)"
    and "sound E (p\<lparr>orderSeq := orderSeq p + 1\<rparr>)"
    and "held (p\<lparr>orderSeq := x\<rparr>) = held p"
    and "leaves {} p (p\<lparr>orderSeq := x\<rparr>)"
proof -
  let ?p = "p\<lparr>orderSeq := orderSeq p + 1\<rparr>"
  note h = soundD [OF s] and c = consistentD [OF soundD(1) [OF s]]
  have "is_i64 (orderSeq p + 1)" using h(6) room by (simp add: is_i64_def)
  then show "nextOrder p = (?p, orderSeq p + 1)" by (simp add: nextOrder_def i64_id Let_def)
  have "sender_core E p t ss \<Longrightarrow> sender_core E ?p t ss" for t ss
    by (fastforce simp: sender_core_def entry_active_def)
  then have "consistent E ?p"
    using c by (simp add: consistent_def heap_ok_def entries_ok_def index_ok_def queuedTotal_def tier_ok_def tierTotal_def
        tierName_def)
  moreover show "held (p\<lparr>orderSeq := x\<rparr>) = held p" for x by (simp add: held_def fun_eq_iff)
  moreover have "within ?p" "config_ok ?p" using h(3,5) by (simp_all add: within_def config_ok_def)
  moreover have "priorities_ok ?p" using h(4) by (simp add: priorities_ok_def calculation(2))
  ultimately show "sound E ?p" using h room by (simp add: sound_def)
  show "leaves {} p (p\<lparr>orderSeq := x\<rparr>)" by (simp add: leaves_def)
qed

text \<open>Where the next nonce lies relative to the two maps.\<close>

lemma next_props:
  assumes s: "sound E p" and r: "mget (senders p) s = Some r" and n: "nextExpectedNonce (heap p r) = n"
  shows "onChainSeq (heap p r) \<le> n" and "m \<in> mdom (active (heap p r)) \<Longrightarrow> m < n"
    and "mdom (active (heap p r)) = {} \<or> (0 < n \<and> n - 1 \<in> mdom (active (heap p r)))"
    and "m \<in> mdom (queued (heap p r)) \<Longrightarrow> n \<le> m"
    and "n \<notin> mdom (active (heap p r))"
proof -
  let ?ss = "heap p r"
  have core: "sender_core E p s ?ss" using consistentD(6) [OF soundD(1) [OF s] sview_Some [OF r]] .
  then have ok: "range_ok (active ?ss) (activeMin ?ss) (activeMax ?ss)"
    and st: "\<And>k e. mget (active ?ss) k = Some e \<Longrightarrow> k < 2 ^ 64 - 1"
    by (auto simp: sender_core_def entry_static_def)
  note i = soundD(9) [OF s r]
  have "onChainSeq ?ss \<le> n \<and> (\<forall>m\<in>mdom (active ?ss). m < n) \<and>
    (mdom (active ?ss) = {} \<or> (0 < n \<and> n - 1 \<in> mdom (active ?ss))) \<and> (\<forall>m\<in>mdom (queued ?ss). n \<le> m)"
  proof (cases "mlen (active ?ss) = 0")
    case True
    then have "mget (active ?ss) = Map.empty" and "n = onChainSeq ?ss"
      using n by (simp_all add: gm.len_0 nextExpectedNonce_def)
    then show ?thesis using sinvD(3) [OF i] by simp
  next
    case False
    then obtain e where e: "mget (active ?ss) (activeMax ?ss) = Some e" and le: "\<forall>m\<in>mdom (active ?ss). m \<le> activeMax ?ss"
      using ok by (auto simp: range_ok_def gm.len_0)
    have base: "onChainSeq ?ss \<le> activeMax ?ss" using sinvD(2) [OF i] e by blast
    have u: "u64 (activeMax ?ss + 1) = activeMax ?ss + 1" using st [OF e] by (rule u64_succ)
    have "n = max (onChainSeq ?ss) (u64 (activeMax ?ss + 1))"
      using n False by (simp add: nextExpectedNonce_def del: max.commute)
    then have n': "n = activeMax ?ss + 1" using base unfolding u by (simp add: max_def)
    have "activeMax ?ss < m" if "m \<in> mdom (queued ?ss)" for m
      using sinvD(4) [OF i that] e by blast
    then have "\<forall>m\<in>mdom (queued ?ss). n \<le> m" using n' by (simp add: Suc_le_eq)
    moreover have "\<forall>m\<in>mdom (active ?ss). m < n" using le n' by (simp add: less_Suc_eq_le)
    moreover have "n - 1 \<in> mdom (active ?ss)" using e n' by (simp add: domI)
    ultimately show ?thesis using base n' by simp
  qed
  then show "onChainSeq ?ss \<le> n" "m \<in> mdom (active ?ss) \<Longrightarrow> m < n"
    "mdom (active ?ss) = {} \<or> (0 < n \<and> n - 1 \<in> mdom (active ?ss))"
    "m \<in> mdom (queued ?ss) \<Longrightarrow> n \<le> m" "n \<notin> mdom (active ?ss)" by blast+
qed

lemma next_unique:
  assumes s: "sound E p" and r: "mget (senders p) s = Some r" and a: "mget (active (heap p r)) m = Some e"
    and top: "\<And>k. k \<in> mdom (active (heap p r)) \<Longrightarrow> k \<le> m"
  shows "nextExpectedNonce (heap p r) = m + 1"
proof -
  note nx = next_props [OF s r refl]
  have "m < nextExpectedNonce (heap p r)" using nx(2) a by blast
  moreover have "nextExpectedNonce (heap p r) - 1 \<le> m" using nx(3) top a by blast
  ultimately show ?thesis by simp
qed

section \<open>Adding the next nonce\<close>

lemma sound_one:
  assumes s: "sound E p" and c: "consistent E q" and l: "leaves {s} p q"
    and o: "0 \<le> orderSeq q" "orderSeq q < 2 ^ 63" and w: "within q" and pr: "priorities_ok q"
    and inv: "\<And>ss. sview q s = Some ss \<Longrightarrow> sender_inv p ss"
  shows "sound E q"
proof -
  have "sender_inv q ss" if "sview q t = Some ss" for t ss
    using that inv soundD(2) [OF s] leavesD(5,6) [OF l] by (cases "t = s") auto
  moreover have "config_ok q" using soundD(5) [OF s] leavesD [OF l] by (simp add: config_ok_def)
  ultimately show ?thesis using assms by (simp add: sound_def)
qed

lemma priorities_ok_upd:
  "priorities_ok p \<Longrightarrow> held q = (held p)(k \<mapsto> ident e) \<Longrightarrow> is_i64 (e_priority e) \<Longrightarrow> priorities_ok q"
  by (auto simp: priorities_ok_def ident_def)

definition room_for_one :: "'s PriorityMempool \<Rightarrow> bool" where
  "room_for_one p \<longleftrightarrow> (cfg_MaxTx (cfg p) > 0 \<longrightarrow> int (mlen (entries p)) < cfg_MaxTx (cfg p))"

lemma append_step:
  assumes s: "sound E p" and sk: "skiplist_ok E" and r: "mget (senders p) s = Some r"
    and n: "nextExpectedNonce (heap p r) = n" and nq: "n \<notin> mdom (queued (heap p r))"
    and e: "entry_static E s n e" "entry_active p e" "is_i64 (e_priority e)" and room: "room_for_one p"
    and w: "\<And>m x. mget (active (heap p r)) m = Some x \<Longrightarrow> rankWorse (e_clampedPriority e) (e_clampedOrder e) x"
    and cp: "e_clampedPriority e \<le> e_priority e"
  shows "sound E (addEntryLocked E p e)" and "nextExpectedNonce (heap (addEntryLocked E p e) r) = n + 1"
    and "leaves {s} p (addEntryLocked E p e)"
proof -
  let ?q = "addEntryLocked E p e"
  note h = soundD [OF s] and nx = next_props [OF s r n]
  have key: "e_key e = \<lparr>sender = s, nonce = n\<rparr>" using e by (simp add: entry_static_def)
  have na: "mget (active (heap p r)) n = None" "mget (queued (heap p r)) n = None" using nx(5) nq by (simp_all add: domIff)
  note f = addEntry_step [OF h(1) r key] and od = onlyD [OF addEntry_step(1) [OF h(1) r key]]
  have c: "consistent E ?q" using addEntry [OF h(1) sk r na e(1,2)] .
  show l: "leaves {s} p ?q" using only_leaves [OF consistentD(1) [OF h(1)] r f(1)] .
  have r': "mget (senders ?q) s = Some r" using r od by simp
  have qn: "n < m" if "m \<in> mdom (queued (heap p r))" for m
    using nx(4) [OF that] nq that by (cases "m = n") auto
  have adj: "mdom (active (heap p r)) = {} \<or> n - 1 \<in> mdom (active (heap p r))" using nx(3) by blast
  have "sender_inv p (heap ?q r)"
    using sinv_append [OF soundD(9) [OF s r] nx(1,2) adj qn w cp] f(2,3) od(6) by simp
  moreover have "entries ?q = mput (entries p) (e_key e) e"
    using addEntry_fields(8) [of p e r E] r key by simp
  then have "within ?q" using room od(9) by (auto simp: within_def room_for_one_def gm.len_put)
  moreover have "priorities_ok ?q" using priorities_ok_upd [OF h(4) f(4) e(3)] .
  ultimately show q: "sound E ?q"
    using sound_one [OF s c l] h(6,7) od(3) r' by (simp add: sview_def)
  show "nextExpectedNonce (heap ?q r) = n + 1"
    using nx(2) less_imp_le by (intro next_unique [OF q r', of n e]) (auto simp: f(2))
qed

section \<open>Runs of consecutive entries\<close>

fun run :: "'s env \<Rightarrow> string \<Rightarrow> nat \<Rightarrow> txEntry list \<Rightarrow> bool" where
  "run E s n [] = True"
| "run E s n (e # es) = (entry_static E s n e \<and> is_i64 (e_priority e) \<and> run E s (n + 1) es)"

definition emap :: "txEntry list \<Rightarrow> txKey \<Rightarrow> (sdk_tx \<times> bytes \<times> int) option" where
  "emap es = map_of (map (\<lambda>e. (e_key e, ident e)) es)"

lemma emap_simps [simp]:
  "emap [] = Map.empty" "emap (e # es) = (emap es)(e_key e \<mapsto> ident e)"
  by (simp_all add: emap_def)

lemma run_key: "run E s n es \<Longrightarrow> e \<in> set es \<Longrightarrow>
    sender (e_key e) = s \<and> n \<le> nonce (e_key e) \<and> nonce (e_key e) < n + length es"
  by (induction es arbitrary: n) (fastforce simp: entry_static_def)+

lemma emap_dom: "emap es k \<noteq> None \<longleftrightarrow> k \<in> e_key ` set es"
  by (induction es) (auto simp: ident_def)

lemma run_emap: "run E s n es \<Longrightarrow> sender k \<noteq> s \<or> nonce k < n \<or> n + length es \<le> nonce k \<Longrightarrow> emap es k = None"
  using emap_dom [of es k] by (auto dest: run_key)

lemma accounted_restore:
  assumes "accounted p es q"
  shows "held p = held q ++ emap es"
proof
  fix k
  show "held p k = (held q ++ emap es) k"
  proof (cases "emap es k")
    case None
    then have "k \<notin> e_key ` set es" using emap_dom by metis
    then show ?thesis using assms None by (simp add: accounted_def map_add_def)
  next
    case (Some v)
    then obtain e where "e \<in> set es" "e_key e = k" "v = ident e"
      by (auto simp: emap_def dest!: map_of_SomeD)
    then show ?thesis using assms Some by (auto simp: accounted_def map_add_def)
  qed
qed

lemma collectLoop_step:
  assumes "consistent E p" and "priorities_ok p" and "mget (senders p) s = Some r" and "collectLoop p r n = (q, es)"
  shows "local_step E r p es q \<and> run E s n es \<and> active (heap q r) = active (heap p r) \<and>
    activeMax (heap q r) = activeMax (heap p r) \<and>
    mget (queued (heap q r)) = mget (queued (heap p r)) |` (- {n..<n + length es}) \<and>
    {n..<n + length es} \<subseteq> mdom (queued (heap p r)) \<and> mget (queued (heap p r)) (n + length es) = None"
  using assms
proof (induction p r n arbitrary: q es rule: collectLoop.induct)
  case (1 p r n)
  show ?case
  proof (cases "mget (queued (heap p r)) n")
    case None
    then have "q = p" "es = []" using 1(5) by (simp_all add: collectLoop.simps [of p r n])
    then show ?thesis using 1(2) None by (simp add: local_step_refl restrict_map_def)
  next
    case (Some e)
    let ?d = "dropQueuedNonce p r n"
    have core: "sender_core E p s (heap p r)" using consistentD(6) [OF 1(2) sview_Some [OF 1(4)]] .
    then have st: "entry_static E s n e" using Some by (simp add: sender_core_def)
    then have u: "u64 (n + 1) = n + 1" by (intro u64_succ) (simp add: entry_static_def)
    obtain es' where es: "es = e # es'" and l: "collectLoop ?d r (u64 (n + 1)) = (q, es')"
      using 1(5) Some by (auto simp: collectLoop.simps [of p r n] split: prod.splits)
    note d = local_drop [OF 1(2,4) Some]
    have "held p \<lparr>sender = s, nonce = n\<rparr> = Some (ident e)"
      using local_stepD(3) [OF d] sender_core_key(2) [OF core Some] by (simp add: accounted_def)
    then have pr: "is_i64 (e_priority e)" using 1(3) by (auto simp: priorities_ok_def ident_def)
    have "priorities_ok ?d"
      using 1(3) accounted_le [OF local_stepD(3) [OF d]] by (force simp: priorities_ok_def map_le_def)
    moreover have "mget (senders ?d) s = Some r" using 1(4) by simp
    ultimately have ih: "local_step E r ?d es' q \<and> run E s (n + 1) es' \<and> active (heap q r) = active (heap ?d r) \<and>
      activeMax (heap q r) = activeMax (heap ?d r) \<and>
      mget (queued (heap q r)) = mget (queued (heap ?d r)) |` (- {n + 1..<n + 1 + length es'}) \<and>
      {n + 1..<n + 1 + length es'} \<subseteq> mdom (queued (heap ?d r)) \<and>
      mget (queued (heap ?d r)) (n + 1 + length es') = None"
      using 1(1) [OF Some local_stepD(1) [OF d] _ _ l] unfolding u by blast
    then have "local_step E r p es q" using local_step_trans [OF d, of es' q] es by simp
    moreover have "mget (queued (heap q r)) = mget (queued (heap p r)) |` (- {n..<n + length es})"
      using ih es by (auto simp: restrict_map_def fun_eq_iff)
    moreover have "{n..<n + length es} \<subseteq> mdom (queued (heap p r))"
    proof
      fix x assume "x \<in> {n..<n + length es}"
      then have "x = n \<or> x \<in> {n + 1..<n + 1 + length es'}" using es by auto
      moreover have "{n + 1..<n + 1 + length es'} \<subseteq> mdom (queued (heap p r))" using ih by auto
      ultimately show "x \<in> mdom (queued (heap p r))" using Some by blast
    qed
    ultimately show ?thesis using ih es st pr by simp
  qed
qed

section \<open>Requeueing\<close>

lemma sound_queue_upd:
  assumes s: "sound E p" and r: "mget (senders p) s = Some r" and c: "consistent E q" and o: "only r p q"
    and act: "active (heap q r) = active (heap p r)" and pr: "priorities_ok q"
    and cap: "int (mlen (queued (heap q r))) \<le> maxQueuedPerSender p"
    and q: "\<And>n. n \<in> mdom (queued (heap q r)) \<Longrightarrow> n \<in> mdom (queued (heap p r)) \<or>
      (onChainSeq (heap p r) \<le> n \<and> (\<forall>m\<in>mdom (active (heap p r)). m < n))"
  shows "sound E q"
proof -
  note h = soundD [OF s] and od = onlyD [OF o]
  have l: "leaves {s} p q" using only_leaves [OF consistentD(1) [OF h(1)] r o] .
  have sq: "sview q s = Some (heap q r)" using r od by (simp add: sview_def)
  have "mget (entries q) k = mget (entries p) k" for k
    using entries_leaves [OF h(1) c l, of k] consistentD(2) [OF h(1)] consistentD(2) [OF c] sq sview_Some [OF r] act
    by (cases "sender k = s") (simp_all add: entries_ok_def)
  then have "within q" using within_mono [OF h(3) od(9)] by (simp add: dom_def)
  moreover have "sender_inv p (heap q r)"
    using sinv_queue [OF soundD(9) [OF s r] _ q] cap od(6) act by (simp add: gm.len_card)
  ultimately show ?thesis using sound_one [OF s c l] h(6,7) od(3) pr sq by simp
qed

lemma requeue_keep: "n \<notin> (nonce \<circ> e_key) ` set es \<Longrightarrow>
    mget (queued (heap (requeueEntriesLocked p r es) r)) n = mget (queued (heap p r)) n"
  by (induction es arbitrary: p) (auto simp: requeueEntriesLocked_def)

lemma requeue_step:
  assumes "sound E p" and "mget (senders p) s = Some r" and "run E s n es"
    and "onChainSeq (heap p r) \<le> n" and "\<And>m. m \<in> mdom (active (heap p r)) \<Longrightarrow> m < n"
    and "\<And>m. m \<in> mdom (queued (heap p r)) \<Longrightarrow> m < n \<or> n + length es \<le> m"
    and "int (mlen (queued (heap p r))) + int (length es) \<le> maxQueuedPerSender p"
  shows "sound E (requeueEntriesLocked p r es) \<and> only r p (requeueEntriesLocked p r es) \<and>
    held (requeueEntriesLocked p r es) = held p ++ emap es \<and>
    active (heap (requeueEntriesLocked p r es) r) = active (heap p r) \<and>
    (\<forall>e\<in>set es. mget (queued (heap (requeueEntriesLocked p r es) r)) (nonce (e_key e)) = Some e)"
  using assms
proof (induction es arbitrary: p n)
  case Nil
  then show ?case by (simp add: requeueEntriesLocked_def)
next
  case (Cons e es)
  let ?p = "putQueuedNonce p r n e"
  note h = soundD [OF Cons.prems(1)]
  have st: "entry_static E s n e" "is_i64 (e_priority e)" and rn: "run E s (n + 1) es" using Cons.prems(3) by simp_all
  then have key: "e_key e = \<lparr>sender = s, nonce = n\<rparr>" by (simp add: entry_static_def)
  have "n \<notin> mdom (active (heap p r))" "n \<notin> mdom (queued (heap p r))"
    using Cons.prems(5) [of n] Cons.prems(6) [of n] by auto
  then have na: "mget (active (heap p r)) n = None" "mget (queued (heap p r)) n = None" by (simp_all add: domIff)
  note c = putQueued [OF h(1) Cons.prems(2) na(2,1) st(1)] and hd = putQueued_held [OF h(1) Cons.prems(2) na(1), of e]
  have "priorities_ok ?p" using priorities_ok_upd [OF h(4) hd st(2)] .
  then have s: "sound E ?p"
    using Cons.prems(4,5,7) na by (intro sound_queue_upd [OF Cons.prems(1,2) c only_put]) (auto simp: gm.len_put)
  have ih: "sound E (requeueEntriesLocked ?p r es) \<and> only r ?p (requeueEntriesLocked ?p r es) \<and>
    held (requeueEntriesLocked ?p r es) = held ?p ++ emap es \<and>
    active (heap (requeueEntriesLocked ?p r es) r) = active (heap ?p r) \<and>
    (\<forall>e\<in>set es. mget (queued (heap (requeueEntriesLocked ?p r es) r)) (nonce (e_key e)) = Some e)"
  proof (rule Cons.IH [OF s _ rn])
    show "mget (senders ?p) s = Some r" "onChainSeq (heap ?p r) \<le> n + 1" using Cons.prems(2,4) by simp_all
    show "m < n + 1" if "m \<in> mdom (active (heap ?p r))" for m
      using Cons.prems(5) [of m] that by (simp add: less_SucI)
    show "m < n + 1 \<or> n + 1 + length es \<le> m" if "m \<in> mdom (queued (heap ?p r))" for m
      using Cons.prems(6) [of m] that by (cases "m = n") auto
    have "maxQueuedPerSender ?p = maxQueuedPerSender p" using onlyD(10) [OF only_put] .
    then show "int (mlen (queued (heap ?p r))) + int (length es) \<le> maxQueuedPerSender ?p"
      using Cons.prems(7) na by (simp add: gm.len_put)
  qed
  have eq: "requeueEntriesLocked p r (e # es) = requeueEntriesLocked ?p r es"
    by (simp add: requeueEntriesLocked_def key)
  have "held ?p ++ emap es = held p ++ emap (e # es)"
    using run_emap [OF rn, of "\<lparr>sender = s, nonce = n\<rparr>"] by (auto simp: hd key map_add_def fun_eq_iff split: option.splits)
  with ih have "held (requeueEntriesLocked ?p r es) = held p ++ emap (e # es)" by (elim conjE) (rule trans)
  moreover have "mget (queued (heap (requeueEntriesLocked ?p r es) r)) n = Some e"
  proof -
    have "n \<notin> (nonce \<circ> e_key) ` set es" using run_key [OF rn] by fastforce
    then show ?thesis by (simp add: requeue_keep)
  qed
  ultimately show ?case
    unfolding eq using ih only_trans [OF only_put, of r p n e] by (simp add: key del: emap_simps)
qed

section \<open>Admission\<close>

text \<open>
  The common core of \<open>Insert\<close> and of promotion: the candidate has the next nonce and a clamped
  rank, the capacity check has accepted it, the evicted entries are demoted, the candidate goes
  in. Other senders may lose entries; this one keeps all of its own.
\<close>

definition admitted :: "'s env \<Rightarrow> string \<Rightarrow> nat \<Rightarrow> nat \<Rightarrow> 's PriorityMempool \<Rightarrow> txEntry \<Rightarrow> txEntry list \<Rightarrow>
    's PriorityMempool \<Rightarrow> bool" where
  "admitted E s r n p e removed q \<longleftrightarrow>
     sound E q \<and> mget (senders q) s = Some r \<and> nextExpectedNonce (heap q r) = n + 1 \<and>
     queued (heap q r) = queued (heap p r) \<and> onChainSeq (heap q r) = onChainSeq (heap p r) \<and>
     mget (active (heap q r)) = (mget (active (heap p r)))(n \<mapsto> e) \<and>
     static q = static p \<and> evs q = evs p \<and> orderSeq q = orderSeq p \<and>
     mget (entries q) (e_key e) = Some e \<and> distinct (map e_key removed) \<and>
     (\<forall>x\<in>set removed. sender (e_key x) \<noteq> s \<and> held p (e_key x) = Some (ident x)) \<and>
     held q = (held p |` (- e_key ` set removed))(e_key e \<mapsto> ident e)"

lemma active_orders:
  assumes "sound E p" and "mget (senders p) s = Some r" and "mget (active (heap p r)) m = Some x"
  shows "e_clampedOrder x \<le> orderSeq p"
  using consistentD(6) [OF soundD(1) [OF assms(1)] sview_Some [OF assms(2)]] assms(3)
  by (force simp: sender_core_def entry_active_def)

lemma room_after_evict:
  assumes c: "consistent E p" and a: "canAcceptLocked p ctx cp co sz gas None = (True, ev)"
    and le: "mget (entries q) \<subseteq>\<^sub>m mget (entries p)" and no: "\<forall>x\<in>set ev. mget (entries q) (e_key x) = None"
    and cf: "cfg q = cfg p"
  shows "room_for_one q"
  unfolding room_for_one_def cf
proof
  assume m: "0 < cfg_MaxTx (cfg p)"
  note ca = canAccept_spec [OF c a]
  have in_p: "mget (entries p) (e_key x) = Some x" if "x \<in> set ev" for x
    using ca(1) that entries_ok_key(1) [OF c] by (fastforce simp: ran_def)
  have inj: "inj_on e_key (set ev)"
  proof (rule inj_onI)
    fix x y assume "x \<in> set ev" "y \<in> set ev" "e_key x = e_key y"
    then show "x = y" using in_p by (metis option.inject)
  qed
  have sub: "e_key ` set ev \<subseteq> mdom (entries p)" using in_p by auto
  have "mdom (entries q) \<subseteq> mdom (entries p) - e_key ` set ev"
  proof
    fix k assume "k \<in> mdom (entries q)"
    moreover from this le have "k \<in> mdom (entries p)" by (auto simp: map_le_def dom_def)
    ultimately show "k \<in> mdom (entries p) - e_key ` set ev" using no by auto
  qed
  then have "card (mdom (entries q)) \<le> card (mdom (entries p) - e_key ` set ev)"
    by (intro card_mono) simp_all
  also have "\<dots> = card (mdom (entries p)) - length ev"
    using sub inj distinct_card [OF ca(2)] by (simp add: card_Diff_subset card_image)
  finally have "mlen (entries q) \<le> mlen (entries p) - length ev" by (simp add: gm.len_card)
  moreover have "length ev \<le> mlen (entries p)"
    using card_mono [OF _ sub] card_image [OF inj] distinct_card [OF ca(2)] by (simp add: gm.len_card)
  ultimately show "int (mlen (entries q)) < cfg_MaxTx (cfg p)" using ca(5) [OF m] by simp
qed

lemma admit_step:
  assumes s: "sound E p" and sk: "skiplist_ok E" and r: "mget (senders p) s = Some r"
    and n: "nextExpectedNonce (heap p r) = n" and nq: "n \<notin> mdom (queued (heap p r))"
    and e: "entry_static E s n e" "is_i64 (e_priority e)" "e_tier e = 0" "e_order e = orderSeq p"
    and rank: "computeClampedRankLocked (Some (heap p r)) 0 (e_priority e) (orderSeq p) n =
      (e_clampedPriority e, e_clampedOrder e)"
    and acc: "canAcceptLocked p ctx (e_clampedPriority e) (e_clampedOrder e) sz gas None = (True, ev)"
    and ev: "removeEntriesByReasonLocked E p ev RemovalReasonCapacityEvicted = (p2, removed)"
  shows "admitted E s r n p e removed (addEntryLocked E p2 e)"
proof -
  let ?q = "addEntryLocked E p2 e"
  note h = soundD [OF s] and nx = next_props [OF s r n]
  have core: "sender_core E p s (heap p r)" using consistentD(6) [OF h(1) sview_Some [OF r]] .
  have key: "e_key e = \<lparr>sender = s, nonce = n\<rparr>" using e(1) by (simp add: entry_static_def)
  have ok: "range_ok (active (heap p r)) (activeMin (heap p r)) (activeMax (heap p r))"
    using core by (simp add: sender_core_def)
  note cl = clamped_append [OF soundD(9) [OF s r] ok nx(3) _ _ e(2) rank]
  have w: "rankWorse (e_clampedPriority e) (e_clampedOrder e) y" if "mget (active (heap p r)) m = Some y" for m y
    using nx(2) active_orders [OF s r] that by (rule cl(1))
  have lim1: "e_clampedPriority e \<le> e_priority e" using nx(2) active_orders [OF s r] by (rule cl(2))
  have lim2: "e_clampedOrder e \<le> orderSeq p" using nx(2) active_orders [OF s r] by (rule cl(3))
  note rm = removeEntriesByReason_step [OF s sk _ ev, simplified]
  have "sender (e_key x) \<noteq> s" if x: "x \<in> set ev" for x
  proof (rule not_evicted [OF h(1)])
    show "x \<in> ran (mget (entries p))" using canAccept_spec(1) [OF h(1) acc] x by blast
    show "isBetterThan x (e_clampedPriority e) (e_clampedOrder e)" using canAccept_spec(3) [OF h(1) acc x] .
    show "rankWorse (e_clampedPriority e) (e_clampedOrder e) y"
      if "sview p s = Some ss" "mget (active ss) m = Some y" for ss m y
      using that w sview_Some [OF r] by simp
  qed
  then have ns: "s \<notin> (\<lambda>e. sender (e_key e)) ` set ev" by auto
  have l: "leaves ((\<lambda>e. sender (e_key e)) ` set ev) p p2" using rm by simp
  have r2: "mget (senders p2) s = Some r" and hp: "heap p2 r = heap p r" using leavesD(7,8) [OF l ns] r by auto
  have rm_s: "sender (e_key x) \<noteq> s \<and> held p (e_key x) = Some (ident x)" if "x \<in> set removed" for x
  proof -
    have "held p (e_key x) = Some (ident x)" "held p2 (e_key x) = None"
      using rm that by (auto simp: accounted_def)
    moreover have "held p2 k = held p k" if "sender k = s" for k
      using leavesD(6) [OF l ns] that by (simp add: held_def)
    ultimately show ?thesis by force
  qed
  have room: "room_for_one p2"
    using rm leavesD(4) [OF l] by (intro room_after_evict [OF h(1) acc]) auto
  have act: "entry_active p2 e"
    using e(3,4) lim2 h(5) leavesD(3) [OF l] rm by (simp add: entry_active_def config_ok_def)
  have s2: "sound E p2" using rm by blast
  have n2: "nextExpectedNonce (heap p2 r) = n" "n \<notin> mdom (queued (heap p2 r))" using n nq by (simp_all add: hp)
  have w2: "rankWorse (e_clampedPriority e) (e_clampedOrder e) y" if "mget (active (heap p2 r)) m = Some y" for m y
    using w that by (simp add: hp)
  note ap = append_step [OF s2 sk r2 n2 e(1) act e(2) room w2 lim1]
  note f = addEntry_step [OF soundD(1) [OF conjunct1 [OF rm]] r2 key]
  note od = onlyD [OF f(1)]
  have "mget (entries ?q) (e_key e) = Some e"
    using addEntry_fields(8) [of p2 e r E] r2 key by simp
  moreover have "held ?q = (held p |` (- e_key ` set removed))(e_key e \<mapsto> ident e)"
    using f(4) rm key by (simp add: accounted_def)
  ultimately show ?thesis
    unfolding admitted_def using ap od f(2,3) hp r2 rm_s rm leavesD(1,2) [OF l] by (simp add: accounted_def)
qed

section \<open>Promotion\<close>

definition promotes :: "'s env \<Rightarrow> string \<Rightarrow> nat \<Rightarrow> 's PriorityMempool \<Rightarrow> txEntry list \<Rightarrow> 's PriorityMempool \<Rightarrow>
    txEntry list \<Rightarrow> txEntry list \<Rightarrow> bool" where
  "promotes E s r p es q promoted removed \<longleftrightarrow>
     sound E q \<and> mget (senders q) s = Some r \<and> onChainSeq (heap q r) = onChainSeq (heap p r) \<and>
     static q = static p \<and> evs q = evs p \<and> orderSeq p \<le> orderSeq q \<and> orderSeq q \<le> orderSeq p + int (length es) \<and>
     mget (active (heap p r)) \<subseteq>\<^sub>m mget (active (heap q r)) \<and>
     map e_key promoted = take (length promoted) (map e_key es) \<and>
     map ident promoted = take (length promoted) (map ident es) \<and>
     (\<forall>x\<in>set promoted. mget (active (heap q r)) (nonce (e_key x)) = Some x) \<and>
     distinct (map e_key removed) \<and>
     (\<forall>x\<in>set removed. sender (e_key x) \<noteq> s \<and> held p (e_key x) = Some (ident x)) \<and>
     held q = (held p ++ emap es) |` (- e_key ` set removed)"

lemma promotes_stop:
  assumes s: "sound E p" and r: "mget (senders p) s = Some r" and n: "nextExpectedNonce (heap p r) = n"
    and rn: "run E s n es" and q: "\<And>m. m \<in> mdom (queued (heap p r)) \<Longrightarrow> n + length es \<le> m"
    and cap: "int (mlen (queued (heap p r))) + int (length es) \<le> maxQueuedPerSender p"
  shows "promotes E s r p es (requeueEntriesLocked p r es) [] []"
    and "orderSeq (requeueEntriesLocked p r es) = orderSeq p"
proof -
  note nx = next_props [OF s r n]
  have *: "m < n \<or> n + length es \<le> m" if "m \<in> mdom (queued (heap p r))" for m using q [OF that] by simp
  note rq = requeue_step [OF s r rn nx(1,2) * cap]
  then have "only r p (requeueEntriesLocked p r es)" by blast
  note od = onlyD [OF this]
  show "promotes E s r p es (requeueEntriesLocked p r es) [] []" unfolding promotes_def
    using rq od r by (simp add: restrict_map_def map_le_def)
  show "orderSeq (requeueEntriesLocked p r es) = orderSeq p" by (rule od)
qed

lemma promotes_more:
  assumes a: "admitted E s r n p e R1 p1" and b: "promotes E s r p1 es q promoted R2"
    and rn: "run E s (n + 1) es" and key: "e_key e = \<lparr>sender = s, nonce = n\<rparr>"
    and e0: "e_key e0 = e_key e" "ident e0 = ident e" and p0: "held p0 = held p" "static p0 = static p" "evs p0 = evs p"
      "heap p0 r = heap p r" "orderSeq p = orderSeq p0 + 1" and na: "mget (active (heap p r)) n = None"
  shows "promotes E s r p0 (e0 # es) q (e # promoted) (R1 @ R2)"
proof -
  have H1: "held p1 = (held p |` (- e_key ` set R1))(e_key e \<mapsto> ident e)"
    and R1: "\<And>x. x \<in> set R1 \<Longrightarrow> sender (e_key x) \<noteq> s \<and> held p (e_key x) = Some (ident x)"
    and act1: "mget (active (heap p1 r)) = (mget (active (heap p r)))(n \<mapsto> e)"
    using a by (auto simp: admitted_def)
  have H2: "held q = (held p1 ++ emap es) |` (- e_key ` set R2)"
    and R2: "\<And>x. x \<in> set R2 \<Longrightarrow> sender (e_key x) \<noteq> s \<and> held p1 (e_key x) = Some (ident x)"
    and act2: "mget (active (heap p1 r)) \<subseteq>\<^sub>m mget (active (heap q r))"
    using b by (auto simp: promotes_def)
  have R2': "held p (e_key x) = Some (ident x) \<and> e_key x \<notin> e_key ` set R1" if "x \<in> set R2" for x
    using R2 [OF that] unfolding H1 key by (auto simp: restrict_map_def split: if_splits)
  have emp: "emap es k = None" if "sender k \<noteq> s \<or> k = e_key e" for k
    using run_emap [OF rn, of k] that key by auto
  have "held q = (held p0 ++ emap (e0 # es)) |` (- e_key ` set (R1 @ R2))"
  proof
    fix k
    show "held q k = ((held p0 ++ emap (e0 # es)) |` (- e_key ` set (R1 @ R2))) k"
    proof (cases "sender k = s")
      case True
      then have "k \<notin> e_key ` set R1" "k \<notin> e_key ` set R2" using R1 R2 by auto
      then show ?thesis using emp [of k] by (auto simp: H2 H1 e0 p0 restrict_map_def map_add_def split: option.split)
    next
      case False
      then have "k \<noteq> e_key e" using key by auto
      then show ?thesis using emp [of k] False by (auto simp: H2 H1 e0 p0 restrict_map_def map_add_def split: option.split)
    qed
  qed
  moreover have "distinct (map e_key (R1 @ R2))"
  proof -
    have "set (map e_key R1) \<inter> set (map e_key R2) = {}" unfolding set_map disjoint_iff using R2' by blast
    then show ?thesis using a b by (simp add: admitted_def promotes_def)
  qed
  moreover have "mget (active (heap p0 r)) \<subseteq>\<^sub>m mget (active (heap q r))"
    unfolding p0 using map_le_trans [OF _ act2, of "mget (active (heap p r))"] na act1
    by (auto simp: map_le_def dom_def)
  moreover have "mget (active (heap q r)) n = Some e"
    using act2 act1 by (auto simp: map_le_def dom_def)
  ultimately show ?thesis
    using a b e0 p0 R1 R2 R2' key unfolding promotes_def [of E s r p0] by (auto simp: admitted_def promotes_def)
qed

lemma promoteLoop_step:
  assumes "sound E p" and "skiplist_ok E" and "mget (senders p) s = Some r" and "nextExpectedNonce (heap p r) = n"
    and "run E s n es" and "\<And>m. m \<in> mdom (queued (heap p r)) \<Longrightarrow> n + length es \<le> m"
    and "int (mlen (queued (heap p r))) + int (length es) \<le> maxQueuedPerSender p"
    and "orderSeq p + int (length es) < 2 ^ 63" and "promoteLoop E ctx r p es = (q, promoted, removed)"
  shows "promotes E s r p es q promoted removed"
  using assms
proof (induction es arbitrary: p n q promoted removed)
  case Nil
  then show ?case by (auto simp: promotes_def restrict_map_def map_le_def)
next
  case (Cons pe rest)
  let ?p1 = "p\<lparr>orderSeq := orderSeq p + 1\<rparr>" and ?ctx = "ctx\<lparr>ctx_TxBytes := e_bytes pe\<rparr>"
  have room: "orderSeq p + 1 < 2 ^ 63" using Cons.prems(8) by simp
  note no = nextOrder_step [OF Cons.prems(1) room]
  have t: "selectTier ?p1 ?ctx (e_tx pe) = 0" using selectTier_single soundD(5) [OF no(2)] by blast
  obtain cp co where rank: "computeClampedRankLocked (Some (heap ?p1 r)) 0 (e_priority pe) (orderSeq p + 1) (nonce (e_key pe)) = (cp, co)"
    by fastforce
  let ?pe = "pe\<lparr>e_order := orderSeq p + 1, e_tier := 0, e_clampedPriority := cp, e_clampedOrder := co\<rparr>"
  obtain ok ev where acc: "canAcceptLocked ?p1 ?ctx cp co (e_size pe) (e_gas pe) None = (ok, ev)" by fastforce
  have st: "entry_static E s n pe" "is_i64 (e_priority pe)" and rn: "run E s (n + 1) rest" using Cons.prems(5) by simp_all
  then have st1: "entry_static E s n ?pe" and key: "e_key pe = \<lparr>sender = s, nonce = n\<rparr>" by (simp_all add: entry_static_def)
  have r1: "mget (senders ?p1) s = Some r" and n1: "nextExpectedNonce (heap ?p1 r) = n" using Cons.prems(3,4) by simp_all
  have nq: "n \<notin> mdom (queued (heap ?p1 r))" using Cons.prems(6) [of n] by auto
  show ?case
  proof (cases ok)
    case False
    then have q: "q = requeueEntriesLocked ?p1 r (?pe # rest)" "promoted = []" "removed = []"
      using Cons.prems(9) no(1) t rank acc by (simp_all add: Let_def)
    have rn1: "run E s n (?pe # rest)" using st st1 rn by simp
    have ab: "n + length (?pe # rest) \<le> m" if "m \<in> mdom (queued (heap ?p1 r))" for m
      using Cons.prems(6) [of m] that by simp
    have "int (mlen (queued (heap ?p1 r))) + int (length (?pe # rest)) \<le> maxQueuedPerSender ?p1"
      using Cons.prems(7) by simp
    note ps = promotes_stop [OF no(2) r1 n1 rn1 ab this, folded q(1)]
    have "emap (?pe # rest) = emap (pe # rest)" by (simp add: ident_def)
    then show ?thesis unfolding q(2,3) using ps unfolding promotes_def no(3) by simp
  next
    case True
    obtain p2 R1 where ev: "removeEntriesByReasonLocked E ?p1 ev RemovalReasonCapacityEvicted = (p2, R1)" by fastforce
    obtain P2 R2 where lp: "promoteLoop E ctx r (addEntryLocked E p2 ?pe) rest = (q, P2, R2)"
      and pq: "promoted = ?pe # P2" "removed = R1 @ R2"
      using Cons.prems(9) no(1) t rank acc True ev by (auto simp: Let_def split: prod.splits)
    have ad: "admitted E s r n ?p1 ?pe R1 (addEntryLocked E p2 ?pe)"
      using st st1 rank key acc True ev by (intro admit_step [OF no(2) Cons.prems(2) r1 n1 nq]) simp_all
    note ad' = ad [unfolded admitted_def]
    have mx: "maxQueuedPerSender (addEntryLocked E p2 ?pe) = maxQueuedPerSender p"
      using ad' by (auto simp: static_def)
    have "promotes E s r (addEntryLocked E p2 ?pe) rest q P2 R2"
      using ad' Cons.prems(2,6,7,8) rn mx
      by (intro Cons.IH [OF _ _ _ _ rn _ _ _ lp]) (auto simp: domIff)
    from promotes_more [OF ad this rn] show ?thesis
      unfolding pq using key next_props(5) [OF no(2) r1 n1] no(3) [of "orderSeq p + 1"]
      by (simp add: ident_def static_def evs_def domIff)
  qed
qed

text \<open>Collecting the run of queued entries that starts at the next nonce, and promoting it.\<close>

lemma collect_promote_step:
  assumes s: "sound E p" and sk: "skiplist_ok E" and r: "mget (senders p) s = Some r"
    and room: "orderSeq p + maxQueuedPerSender p < 2 ^ 63"
    and c: "collectPromotableLocked p r = (p1, es)" and l: "promoteLoop E ctx r p1 es = (q, promoted, removed)"
  shows "sound E q" and "mget (senders q) s = Some r" and "accounted p removed q" and "static q = static p"
    and "evs q = evs p" and "orderSeq p \<le> orderSeq q" and "orderSeq q \<le> orderSeq p + maxQueuedPerSender p"
    and "mget (active (heap p r)) \<subseteq>\<^sub>m mget (active (heap q r))"
    and "x \<in> set promoted \<Longrightarrow> mget (active (heap q r)) (nonce (e_key x)) = Some x \<and>
      held p (e_key x) = Some (ident x) \<and> mget (active (heap p r)) (nonce (e_key x)) = None"
    and "x \<in> set removed \<Longrightarrow> sender (e_key x) \<noteq> s"
    and "onChainSeq (heap q r) = onChainSeq (heap p r)"
proof -
  note h = soundD [OF s] and i = soundD(9) [OF s r] and nx = next_props [OF s r refl]
  let ?n = "nextExpectedNonce (heap p r)"
  have co: "local_step E r p es p1 \<and> run E s ?n es \<and> active (heap p1 r) = active (heap p r) \<and>
    activeMax (heap p1 r) = activeMax (heap p r) \<and>
    mget (queued (heap p1 r)) = mget (queued (heap p r)) |` (- {?n..<?n + length es}) \<and>
    {?n..<?n + length es} \<subseteq> mdom (queued (heap p r)) \<and> (es = [] \<or> mget (queued (heap p r)) (?n + length es) = None)"
  proof (cases "mlen (queued (heap p r)) = 0")
    case True
    then show ?thesis using c h(1) by (auto simp: collectPromotableLocked_def local_step_refl gm.len_0 restrict_map_def)
  next
    case False
    then have "collectLoop p r ?n = (p1, es)" using c by (simp add: collectPromotableLocked_def)
    from collectLoop_step [OF h(1,4) r this] show ?thesis by simp
  qed
  note ls = local_stepD [OF conjunct1 [OF co]] and od = onlyD [OF local_stepD(2) [OF conjunct1 [OF co]]]
  have r1: "mget (senders p1) s = Some r" using r od by simp
  have dom1: "mdom (queued (heap p1 r)) = mdom (queued (heap p r)) - {?n..<?n + length es}" using co by auto
  have card: "mlen (queued (heap p1 r)) + length es = mlen (queued (heap p r))"
  proof -
    have "card {?n..<?n + length es} \<le> card (mdom (queued (heap p r)))" using co by (intro card_mono) auto
    then show ?thesis unfolding gm.len_card dom1 using co by (simp add: card_Diff_subset)
  qed
  then have cap: "int (mlen (queued (heap p1 r))) + int (length es) \<le> maxQueuedPerSender p"
    using sinvD(7) [OF i] by (simp add: gm.len_card)
  have "priorities_ok p1" using h(4) accounted_le [OF ls(3)] by (force simp: priorities_ok_def map_le_def)
  then have s1: "sound E p1"
    using co cap dom1 by (intro sound_queue_upd [OF s r ls(1,2)]) auto
  have n1: "nextExpectedNonce (heap p1 r) = ?n" using co od(6) by (simp add: nextExpectedNonce_def)
  have above: "?n + length es \<le> m" if "m \<in> mdom (queued (heap p1 r))" for m
    using nx(4) [of m] that unfolding dom1 by auto
  have pr: "promotes E s r p1 es q promoted removed"
    using cap room od(3,10) co
    by (intro promoteLoop_step [OF s1 sk r1 n1 _ above _ _ l]) auto
  note p = pr [unfolded promotes_def]
  show "sound E q" "mget (senders q) s = Some r" "orderSeq p \<le> orderSeq q" "static q = static p" "evs q = evs p"
    "mget (active (heap p r)) \<subseteq>\<^sub>m mget (active (heap q r))" using p od co by simp_all
  show "orderSeq q \<le> orderSeq p + maxQueuedPerSender p" using p od(3) cap by simp
  show "x \<in> set removed \<Longrightarrow> sender (e_key x) \<noteq> s" using p by blast
  show "onChainSeq (heap q r) = onChainSeq (heap p r)" using p od(6) by simp
  have hp: "held p = held p1 ++ emap es" using accounted_restore [OF ls(3)] .
  have e1: "\<forall>x\<in>set removed. held p (e_key x) = Some (ident x)"
    using p run_emap [OF conjunct1 [OF conjunct2 [OF co]]] hp by (auto simp: map_add_def)
  show "accounted p removed q" unfolding accounted_def using p e1 hp by simp
  show "x \<in> set promoted \<Longrightarrow> mget (active (heap q r)) (nonce (e_key x)) = Some x \<and>
      held p (e_key x) = Some (ident x) \<and> mget (active (heap p r)) (nonce (e_key x)) = None"
  proof -
    assume x: "x \<in> set promoted"
    then obtain j where j: "j < length promoted" "x = promoted ! j" by (auto simp: in_set_conv_nth)
    have len: "length promoted \<le> length es" using p by (metis length_map length_take min.absorb_iff2 min.commute)
    then have "e_key x = e_key (es ! j)" "ident x = ident (es ! j)" and m: "es ! j \<in> set es"
      using p j by (metis length_map nth_map nth_take order_less_le_trans, metis length_map nth_map nth_take order_less_le_trans, simp)
    moreover have "nonce (e_key x) \<notin> mdom (active (heap p r))"
      using nx(2) [of "nonce (e_key x)"] run_key [OF conjunct1 [OF conjunct2 [OF co]] m] calculation(1) by auto
    ultimately show ?thesis using p x ls(3) by (auto simp: accounted_def domIff)
  qed
qed

end
