(* ===== verification/Mempool_Ops.thy ===== *)
theory Mempool_Ops
  imports Mempool_Insert_Proofs Mempool_Cleanup
begin

text \<open>
  Correctness of the critical sections of the mempool's exported operations: each keeps the
  invariant \<open>sound\<close>, and the events it enqueues say exactly what entered and what left the pool.
\<close>

section \<open>Events\<close>

text \<open>
  The event part of the state is independent of the rest: \<open>noisy p q\<close> says that \<open>q\<close> differs from
  \<open>p\<close> in the event queues only.
\<close>

definition noisy :: "'s PriorityMempool \<Rightarrow> 's PriorityMempool \<Rightarrow> bool" where
  "noisy p q \<longleftrightarrow>
     (\<exists>cq aq cn an. q = p\<lparr>cometQueue := cq, appQueue := aq, cometNotify := cn, appNotify := an\<rparr>)"

lemma noisy_refl [simp]: "noisy p p"
  unfolding noisy_def
  by (rule exI [where x = "cometQueue p"], rule exI [where x = "appQueue p"],
      rule exI [where x = "cometNotify p"], rule exI [where x = "appNotify p"]) simp

lemma noisy_trans: "noisy p q \<Longrightarrow> noisy q u \<Longrightarrow> noisy p u"
  unfolding noisy_def by (elim exE) (simp, blast)

lemma noisyD:
  assumes "noisy p q"
  shows "sview q = sview p" "held q = held p" "entries q = entries p" "senders q = senders p" "heap q = heap p"
    "orderSeq q = orderSeq p" "static q = static p" "priorityIndex q = priorityIndex p" "cfg q = cfg p"
    "queuedCount q = queuedCount p" "eventCh q = eventCh p" "appEventCh q = appEventCh p" "eventStop q = eventStop p"
    "sound E q = sound E p"
proof -
  from assms obtain cq aq cn an where q: "q = p\<lparr>cometQueue := cq, appQueue := aq, cometNotify := cn, appNotify := an\<rparr>"
    unfolding noisy_def by blast
  show sv: "sview q = sview p" by (simp add: q sview_def fun_eq_iff)
  show hd: "held q = held p" by (simp add: held_def sv fun_eq_iff)
  show "entries q = entries p" "senders q = senders p" "heap q = heap p"
    "orderSeq q = orderSeq p" "static q = static p" "priorityIndex q = priorityIndex p" "cfg q = cfg p"
    "queuedCount q = queuedCount p" "eventCh q = eventCh p" "appEventCh q = appEventCh p" "eventStop q = eventStop p"
    by (simp_all add: q static_def)
  have "consistent E q = consistent E p"
    by (simp add: consistent_def sv entries_ok_def queuedTotal_def) (simp add: q heap_ok_def sender_core_def
        entry_active_def index_ok_def tier_ok_def tierTotal_def tierName_def)
  moreover have "within q = within p" "config_ok q = config_ok p" by (simp_all add: q within_def config_ok_def)
  moreover have "priorities_ok q = priorities_ok p" by (simp add: priorities_ok_def hd)
  ultimately show "sound E q = sound E p" by (simp add: sound_def sv) (simp add: q)
qed

definition mkEvent :: "'s env \<Rightarrow> AppMempoolEventType \<Rightarrow> bytes \<Rightarrow> AppMempoolEvent" where
  "mkEvent E t bz = \<lparr>ev_Type = t, ev_TxKey = Tx_Hash E bz, ev_Tx = bz\<rparr>"

lemma enqueueEvent_noisy: "noisy p (enqueueEvent E p t bz)"
  unfolding noisy_def enqueueEvent_def Let_def
  by (rule exI [where x = "cometQueue (enqueueEvent E p t bz)"], rule exI [where x = "appQueue (enqueueEvent E p t bz)"],
      rule exI [where x = "cometNotify (enqueueEvent E p t bz)"], rule exI [where x = "appNotify (enqueueEvent E p t bz)"])
    (simp add: enqueueEvent_def Let_def)

text \<open>What one event does to the two queues.\<close>

definition logged :: "'s env \<Rightarrow> 's PriorityMempool \<Rightarrow> AppMempoolEvent list \<Rightarrow> 's PriorityMempool \<Rightarrow> bool" where
  "logged E p evts q \<longleftrightarrow> noisy p q \<and>
     appQueue q = appQueue p @ (if appEventCh p \<and> \<not> eventStop p then evts else []) \<and>
     cometQueue q = cometQueue p @
       (if eventCh p \<and> \<not> eventStop p then filter (\<lambda>ev. ev_Type ev \<noteq> EventTxQueued) evts else []) \<and>
     (appNotify q \<longleftrightarrow> appNotify p \<or> (appEventCh p \<and> \<not> eventStop p \<and> evts \<noteq> [])) \<and>
     (cometNotify q \<longleftrightarrow> cometNotify p \<or>
       (eventCh p \<and> \<not> eventStop p \<and> filter (\<lambda>ev. ev_Type ev \<noteq> EventTxQueued) evts \<noteq> []))"

lemma logged_Nil [simp]: "logged E p [] p"
  by (simp add: logged_def)

lemma loggedD: "logged E p evts q \<Longrightarrow> noisy p q"
  by (simp add: logged_def)

lemma logged_trans:
  assumes a: "logged E p a q" and b: "logged E q b u"
  shows "logged E p (a @ b) u"
proof -
  note n = noisyD(11-13) [OF loggedD [OF a]]
  have "noisy p u" using noisy_trans [OF loggedD [OF a] loggedD [OF b]] .
  then show ?thesis
    using a b n unfolding logged_def
    by (cases "appEventCh p \<and> \<not> eventStop p"; cases "eventCh p \<and> \<not> eventStop p"; simp; blast)
qed

lemma enqueueEvent_logged: "logged E p [mkEvent E t bz] (enqueueEvent E p t bz)"
  unfolding logged_def by (intro conjI enqueueEvent_noisy) (simp_all add: enqueueEvent_def Let_def mkEvent_def)

lemma fold_logged:
  "logged E p (map (\<lambda>e. mkEvent E t (e_bytes e)) es) (fold (\<lambda>e q. enqueueEvent E q t (e_bytes e)) es p)"
proof (induction es arbitrary: p)
  case (Cons e es)
  from logged_trans [OF enqueueEvent_logged Cons] show ?case by simp
qed simp

lemma enqueueRemoved_logged:
    "logged E p (map (\<lambda>e. mkEvent E EventTxRemoved (e_bytes e)) es) (enqueueRemovedEvents E p es)"
  and enqueueInserted_logged:
    "logged E p (map (\<lambda>e. mkEvent E EventTxInserted (e_bytes e)) es) (enqueueInsertedEvents E p es)"
  unfolding enqueueRemovedEvents_def enqueueInsertedEvents_def by (rule fold_logged)+

section \<open>Replacement and admission at Insert\<close>

lemma replace_step:
  assumes s: "sound E p" and sk: "skiplist_ok E" and r: "mget (senders p) s = Some r"
    and n: "mget (active (heap p r)) n = Some old" and pr: "e_priority old < e_priority e"
    and e: "entry_static E s n e" "is_i64 (e_priority e)" "e_tier e = 0" "e_order e = orderSeq p"
    and rank: "computeClampedRankLocked (Some (heap p r)) 0 (e_priority e) (orderSeq p) n =
      (e_clampedPriority e, e_clampedOrder e)"
  shows "sound E (addEntryLocked E (removeEntryLocked E p old) e)"
    and "held (addEntryLocked E (removeEntryLocked E p old) e) = (held p)(\<lparr>sender = s, nonce = n\<rparr> \<mapsto> ident e)"
    and "only r p (addEntryLocked E (removeEntryLocked E p old) e)"
    and "mget (active (heap (addEntryLocked E (removeEntryLocked E p old) e) r)) n = Some e"
proof -
  let ?p1 = "removeEntryLocked E p old" and ?q = "addEntryLocked E (removeEntryLocked E p old) e"
  note h = soundD [OF s] and i = soundD(9) [OF s r]
  have core: "sender_core E p s (heap p r)" using consistentD(6) [OF h(1) sview_Some [OF r]] .
  then have ok: "range_ok (active (heap p r)) (activeMin (heap p r)) (activeMax (heap p r))"
    by (simp add: sender_core_def)
  have key: "e_key e = \<lparr>sender = s, nonce = n\<rparr>" using e(1) by (simp add: entry_static_def)
  note cl = clamped_replace [OF i ok n e(2) pr _ rank]
  have lim: "e_clampedPriority e \<le> e_priority e" and lim2: "e_clampedOrder e \<le> orderSeq p"
    using active_orders [OF s r] by (blast intro: cl(2), blast intro: cl(3))
  have w: "rankWorse (e_clampedPriority e) (e_clampedOrder e) x" if "m < n" "mget (active (heap p r)) m = Some x" for m x
    using active_orders [OF s r] that by (blast intro: cl(1))
  have b: "rankWorse (e_clampedPriority old) (e_clampedOrder old) e"
    using cl(4) active_orders [OF s r] by (auto simp: rankWorse_def)
  note f = removeEntry_step [OF h(1) sk r n] and c1 = removeEntry [OF h(1) sk r n]
  have r1: "mget (senders ?p1) s = Some r" using r onlyD(1) [OF f(1)] by simp
  have ea: "entry_active ?p1 e"
    using e(3,4) lim2 h(5) onlyD(3,8) [OF f(1)] by (simp add: entry_active_def config_ok_def)
  have na: "mget (active (heap ?p1 r)) n = None" "mget (queued (heap ?p1 r)) n = None"
    using f(2,3) sender_core_disjoint [OF core n] by simp_all
  note g = addEntry_step [OF c1 r1 key] and c2 = addEntry [OF c1 sk r1 na e(1) ea]
  show o: "only r p ?q" using only_trans [OF f(1) g(1)] .
  have h1: "held ?p1 = (held p)(\<lparr>sender = s, nonce = n\<rparr> := None)"
    using f(4) sender_core_key(1) [OF core n] by (auto simp: accounted_def restrict_map_def fun_eq_iff)
  show hd: "held ?q = (held p)(\<lparr>sender = s, nonce = n\<rparr> \<mapsto> ident e)" using g(4) h1 by simp
  show "mget (active (heap ?q r)) n = Some e" using g(2) by simp
  have l: "leaves {s} p ?q" using only_leaves [OF consistentD(1) [OF h(1)] r o] .
  have sq: "sview ?q s = Some (heap ?q r)" using r onlyD(1) [OF o] by (simp add: sview_def)
  have "entries ?q = mput (mdel (entries p) (e_key e)) (e_key e) e"
    using removeEntry_fields(8) [of p old r E] addEntry_fields(8) [of ?p1 e r E] r r1 n key sender_core_key(1) [OF core n]
    by simp
  moreover have "mget (entries p) (e_key e) = Some old"
    using n key by (simp add: entries_iff [OF h(1)] sview_Some [OF r])
  ultimately have "mdom (entries ?q) = mdom (entries p)" by auto
  then have "within ?q" using within_mono [OF h(3) onlyD(9) [OF o]] by simp
  moreover have "sinv (maxQueuedPerSender p) (onChainSeq (heap p r)) ((mget (active (heap p r)))(n \<mapsto> e)) (mget (queued (heap p r)))"
    using w by (intro sinv_replace [OF i n _ b lim]) auto
  then have "sender_inv p (heap ?q r)" using g(2,3) f(2,3) onlyD(6) [OF o] by simp
  moreover have "priorities_ok ?q" using priorities_ok_upd [OF h(4) hd e(2)] .
  ultimately show "sound E ?q" using sound_one [OF s c2 l] h(6,7) onlyD(3) [OF o] sq by simp
qed

text \<open>
  \<open>inserted\<close>: what a successful insertion into the active index has done before the events go out.
\<close>

definition inserted :: "'s env \<Rightarrow> 's PriorityMempool \<Rightarrow> txEntry \<Rightarrow> 's PriorityMempool \<Rightarrow> txEntry list \<Rightarrow> txEntry list \<Rightarrow> bool" where
  "inserted E p e q promoted removed \<longleftrightarrow>
     sound E q \<and> static q = static p \<and> evs q = evs p \<and> orderSeq p \<le> orderSeq q \<and>
     (\<exists>x. mget (entries q) (e_key e) = Some x \<and> ident x = ident e) \<and>
     (\<forall>x\<in>set promoted. mget (entries q) (e_key x) = Some x \<and> held p (e_key x) = Some (ident x) \<and>
        mget (entries p) (e_key x) = None) \<and>
     distinct (map e_key removed) \<and> (\<forall>x\<in>set removed. held p (e_key x) = Some (ident x)) \<and>
     held q = (held p |` (- e_key ` set removed))(e_key e \<mapsto> ident e)"

lemma inserted_promote:
  assumes s: "sound E p1" and sk: "skiplist_ok E" and r: "mget (senders p1) s = Some r"
    and key: "e_key e = \<lparr>sender = s, nonce = n\<rparr>" and e: "mget (active (heap p1 r)) n = Some e"
    and room: "orderSeq p1 + maxQueuedPerSender p1 < 2 ^ 63"
    and c: "collectPromotableLocked p1 r = (p2, es)" and l: "promoteLoop E ctx r p2 es = (q, promoted, removed)"
    and p: "static p1 = static p" "evs p1 = evs p" "orderSeq p1 = orderSeq p"
    and R: "distinct (map e_key R)" "\<And>x. x \<in> set R \<Longrightarrow> held p (e_key x) = Some (ident x)"
    and hd: "held p1 = (held p |` (- e_key ` set R))(e_key e \<mapsto> ident e)"
    and le: "\<And>k. sender k = s \<Longrightarrow> k \<noteq> e_key e \<Longrightarrow> mget (entries p1) k = mget (entries p) k"
  shows "inserted E p e q promoted (R @ removed)"
proof -
  note cp = collect_promote_step [OF s sk r room c l]
  have ac: "accounted p1 removed q" by (rule cp(3))
  have rem: "held p (e_key x) = Some (ident x) \<and> e_key x \<notin> e_key ` set R" if "x \<in> set removed" for x
  proof -
    have "held p1 (e_key x) = Some (ident x)" "sender (e_key x) \<noteq> s" using ac that cp(10) by (auto simp: accounted_def)
    then show ?thesis unfolding hd key by (auto simp: restrict_map_def split: if_splits)
  qed
  have ke: "e_key e \<notin> e_key ` set removed" using cp(10) key by force
  have "held q = (held p |` (- e_key ` set (R @ removed)))(e_key e \<mapsto> ident e)"
    using ac ke unfolding accounted_def hd by (auto simp: restrict_map_def fun_eq_iff)
  moreover have "distinct (map e_key (R @ removed))"
  proof -
    have "set (map e_key R) \<inter> set (map e_key removed) = {}" unfolding set_map disjoint_iff using rem by blast
    then show ?thesis using ac R(1) by (simp add: accounted_def)
  qed
  moreover have "mget (entries q) (e_key e) = Some e"
    using cp(1,2,8) e key by (auto simp: entries_iff [OF soundD(1) [OF cp(1)]] sview_Some map_le_def dom_def)
  moreover have "mget (entries q) (e_key x) = Some x \<and> held p (e_key x) = Some (ident x) \<and> mget (entries p) (e_key x) = None"
    if x: "x \<in> set promoted" for x
  proof -
    note px = cp(9) [OF x]
    have kx: "e_key x = \<lparr>sender = s, nonce = nonce (e_key x)\<rparr>"
      using sender_core_key(1) [OF consistentD(6) [OF soundD(1) [OF cp(1)] sview_Some [OF cp(2)]]] px by blast
    then have sx: "sender (e_key x) = s" by (metis txKey.select_convs(1))
    have nx: "e_key x \<noteq> e_key e" using px e key by (metis option.distinct(1) txKey.select_convs(2))
    have "mget (entries q) (e_key x) = Some x"
      using px sx cp(2) by (simp add: entries_iff [OF soundD(1) [OF cp(1)]] sview_Some)
    moreover have "mget (entries p1) (e_key x) = None"
      using px sx r consistentD(2) [OF soundD(1) [OF s]] by (simp add: entries_ok_def sview_Some)
    moreover have "held p (e_key x) = Some (ident x)"
      using px nx unfolding hd by (auto simp: restrict_map_def split: if_splits)
    ultimately show ?thesis using le [OF sx nx] by simp
  qed
  ultimately show ?thesis
    unfolding inserted_def using cp(1,4,5,6) p rem R(2) by auto
qed

lemma entries_of:
  "consistent E p \<Longrightarrow> mget (senders p) s = Some r \<Longrightarrow> sender k = s \<Longrightarrow>
    mget (entries p) k = mget (active (heap p r)) (nonce k)"
  using consistentD(2) [of E p] by (simp add: entries_ok_def sview_Some)

lemma clamped_cong:
  "active a = active b \<Longrightarrow> activeMax a = activeMax b \<Longrightarrow>
    computeClampedRankLocked (Some a) = computeClampedRankLocked (Some b)"
  unfolding computeClampedRankLocked_def by (intro ext) (simp only: option.case)

lemma inserted_cong: "e_key e = e_key e0 \<Longrightarrow> ident e = ident e0 \<Longrightarrow> inserted E p e = inserted E p e0"
  by (simp add: inserted_def fun_eq_iff)

text \<open>The queued entry that the new one supersedes leaves the queue.\<close>

lemma supersede_step:
  assumes s: "sound E p" and r: "mget (senders p) s = Some r" and n: "mget (queued (heap p r)) n = Some x"
  shows "sound E (dropQueuedNonce p r n)"
proof -
  note ls = local_drop [OF soundD(1) [OF s] r n]
  have "priorities_ok (dropQueuedNonce p r n)"
    using soundD(4) [OF s] accounted_le [OF local_stepD(3) [OF ls]] by (force simp: priorities_ok_def map_le_def)
  moreover have "int (mlen (queued (heap p r))) \<le> maxQueuedPerSender p"
    using sinvD(7) [OF soundD(9) [OF s r]] by (simp add: gm.len_card)
  ultimately show ?thesis
    using n by (intro sound_queue_upd [OF s r local_stepD(1,2) [OF ls]]) (auto simp: gm.len_del split: if_splits)
qed

text \<open>\<open>Insert\<close> of the next nonce: \<open>R\<close> is what it supersedes in the queue, \<open>p1\<close> the pool without it.\<close>

lemma admit_new:
  assumes s: "sound E p1" and sk: "skiplist_ok E" and r: "mget (senders p1) s = Some r" and rp: "mget (senders p) s = Some r"
    and cons: "consistent E p" and n: "nextExpectedNonce (heap p1 r) = n" and nq: "n \<notin> mdom (queued (heap p1 r))"
    and e: "entry_static E s n e" "is_i64 (e_priority e)" "e_tier e = 0" "e_order e = orderSeq p1"
    and rank: "computeClampedRankLocked (Some (heap p1 r)) 0 (e_priority e) (orderSeq p1) n =
      (e_clampedPriority e, e_clampedOrder e)"
    and acc: "canAcceptLocked p1 ctx (e_clampedPriority e) (e_clampedOrder e) sz gas None = (True, ev)"
    and ev: "removeEntriesByReasonLocked E p1 ev RemovalReasonCapacityEvicted = (p2, R3)"
    and room: "orderSeq p1 + maxQueuedPerSender p1 < 2 ^ 63"
    and c: "collectPromotableLocked (addEntryLocked E p2 e) r = (p3, es)"
    and l: "promoteLoop E ctx' r p3 es = (q, promoted, R4)"
    and ac: "accounted p R p1" and R: "\<And>x. x \<in> set R \<Longrightarrow> e_key x = e_key e"
    and o: "only r p p1" and act: "active (heap p1 r) = active (heap p r)"
  shows "inserted E p e q promoted ((R @ R3) @ R4)"
proof -
  note ad = admit_step [OF s sk r n nq e rank acc ev, unfolded admitted_def]
  have key: "e_key e = \<lparr>sender = s, nonce = n\<rparr>" using e(1) by (simp add: entry_static_def)
  let ?p4 = "addEntryLocked E p2 e"
  have s4: "sound E ?p4" and r4: "mget (senders ?p4) s = Some r" and a4: "mget (active (heap ?p4 r)) n = Some e"
    using ad by simp_all
  have le: "mget (entries ?p4) k = mget (entries p) k" if "sender k = s" "k \<noteq> e_key e" for k
  proof -
    have "nonce k \<noteq> n" using that key by (cases k) auto
    then have "mget (entries ?p4) k = mget (active (heap p1 r)) (nonce k)"
      using entries_of [OF soundD(1) [OF s4] r4 that(1)] ad by simp
    then show ?thesis using entries_of [OF cons rp that(1)] act by simp
  qed
  have R3: "held p (e_key x) = Some (ident x) \<and> e_key x \<notin> e_key ` set R" if "x \<in> set R3" for x
  proof -
    have "held p1 (e_key x) = Some (ident x)" using ad that by blast
    then show ?thesis using ac by (auto simp: accounted_def restrict_map_def split: if_splits)
  qed
  have dis: "distinct (map e_key (R @ R3))"
  proof -
    have "set (map e_key R) \<inter> set (map e_key R3) = {}" unfolding set_map disjoint_iff using R3 by blast
    then show ?thesis using ad ac by (simp add: accounted_def)
  qed
  have hd: "held ?p4 = (held p |` (- e_key ` set (R @ R3)))(e_key e \<mapsto> ident e)"
    using ad ac by (auto simp: accounted_def restrict_map_def fun_eq_iff)
  have f: "static ?p4 = static p" "evs ?p4 = evs p" "orderSeq ?p4 = orderSeq p" using ad onlyD [OF o] by simp_all
  have room4: "orderSeq ?p4 + maxQueuedPerSender ?p4 < 2 ^ 63" using room ad by (simp add: static_def)
  show ?thesis
    using R3 ac by (intro inserted_promote [OF s4 sk r4 key a4 room4 c l f dis _ hd le]) (auto simp: accounted_def)
qed

definition insertEvents :: "'s env \<Rightarrow> txEntry \<Rightarrow> txEntry list \<Rightarrow> txEntry list \<Rightarrow> AppMempoolEvent list" where
  "insertEvents E e promoted removed =
     map (\<lambda>x. mkEvent E EventTxRemoved (e_bytes x)) removed @ [mkEvent E EventTxInserted (e_bytes e)] @
     map (\<lambda>x. mkEvent E EventTxInserted (e_bytes x)) promoted"

lemma admit_events:
  "logged E p (insertEvents E e promoted removed)
    (enqueueInsertedEvents E (enqueueEvent E (enqueueRemovedEvents E p removed) EventTxInserted (e_bytes e)) promoted)"
  unfolding insertEvents_def
  by (rule logged_trans [OF enqueueRemoved_logged logged_trans [OF enqueueEvent_logged enqueueInserted_logged]])

lemma Insert_admit_replace:
  assumes s: "sound E p" and sk: "skiplist_ok E" and r: "mget (senders p) s = Some r"
    and e0: "entry_static E s n e0" "is_i64 (e_priority e0)" "e_tier e0 = 0" "e_order e0 = orderSeq p"
    and x: "mget (entries p) (e_key e0) = Some x" "e_priority x < e_priority e0"
    and room: "orderSeq p + maxQueuedPerSender p < 2 ^ 63"
    and q: "Insert_admit E ctx p r e0 (Some x) None = (q, err)"
  shows "(err = Some ErrMempoolTxMaxCapacity \<and> q = p) \<or>
    (err = None \<and> (\<exists>p' promoted removed. inserted E p e0 p' promoted removed \<and>
      (held p (e_key e0) \<noteq> None \<longrightarrow> e_key e0 \<in> e_key ` set removed) \<and>
      logged E p' (insertEvents E e0 promoted removed) q))"
proof -
  note h = soundD [OF s]
  have key: "e_key e0 = \<lparr>sender = s, nonce = n\<rparr>" using e0(1) by (simp add: entry_static_def)
  have kx: "e_key x = e_key e0" using entries_ok_key(1) [OF h(1) x(1)] .
  have a: "mget (active (heap p r)) n = Some x" using entries_of [OF h(1) r, of "e_key e0"] x(1) key by simp
  obtain cp co where rank: "computeClampedRankLocked (Some (heap p r)) 0 (e_priority e0) (orderSeq p) n = (cp, co)" by fastforce
  let ?e = "e0\<lparr>e_clampedPriority := cp, e_clampedOrder := co\<rparr>"
  obtain ok ev where acc: "canAcceptLocked p ctx cp co (e_size e0) (e_gas e0) (Some x) = (ok, ev)" by fastforce
  show ?thesis
  proof (cases ok)
    case False
    then show ?thesis using q rank acc e0(3,4) key by (simp add: Insert_admit_def)
  next
    case True
    then have acc': "canAcceptLocked p ctx cp co (e_size e0) (e_gas e0) (Some x) = (True, ev)" using acc by simp
    have ev: "ev = []"
    proof (cases "cfg_MaxTx (cfg p) > 0")
      case m: True
      have "int (mlen (entries p)) \<le> cfg_MaxTx (cfg p)" using h(3) m by (simp add: within_def)
      then show ?thesis using canAccept_spec(6) [OF h(1) acc' m] x(1) kx by simp
    qed (use canAccept_spec(7) [OF h(1) acc'] in simp)
    let ?p4 = "addEntryLocked E (removeEntryLocked E p x) ?e"
    have st: "entry_static E s n ?e" using e0(1) by (simp add: entry_static_def)
    have rp: "sound E ?p4" "held ?p4 = (held p)(\<lparr>sender = s, nonce = n\<rparr> \<mapsto> ident ?e)" "only r p ?p4"
      "mget (active (heap ?p4 r)) n = Some ?e"
      using replace_step [OF s sk r a, of ?e] x(2) st e0(2-4) rank by simp_all
    obtain p5 es where c: "collectPromotableLocked ?p4 r = (p5, es)" by fastforce
    obtain p6 promoted removed where l: "promoteLoop E ctx r p5 es = (p6, promoted, removed)" by (rule prod_cases3)
    note o = onlyD [OF rp(3)]
    have r4: "mget (senders ?p4) s = Some r" using r o by simp
    have hx: "held p (e_key x) = Some (ident x)" using held_active [OF r a] kx key by simp
    have "mget (entries ?p4) k = mget (entries p) k" if k: "sender k = s" "k \<noteq> e_key ?e" for k
    proof -
      have n: "nonce k \<noteq> n" using k key by (cases k) auto
      have f: "active (heap (removeEntryLocked E p x) r) = mdel (active (heap p r)) n"
        using removeEntry_step(2) [OF h(1) sk r a] .
      have r1: "mget (senders (removeEntryLocked E p x)) s = Some r"
        using r onlyD(1) [OF removeEntry_step(1) [OF h(1) sk r a]] by simp
      have "active (heap ?p4 r) = mput (mdel (active (heap p r)) n) n ?e"
        using addEntry_step(2) [OF removeEntry [OF h(1) sk r a] r1, of ?e n] key f by simp
      then show ?thesis using entries_of [OF soundD(1) [OF rp(1)] r4 k(1)] entries_of [OF h(1) r k(1)] n by simp
    qed
    then have "inserted E p ?e p6 promoted ([x] @ removed)"
      using rp(2) key kx hx room o
      by (intro inserted_promote [OF rp(1) sk r4 _ rp(4) _ c l]) (auto simp: restrict_map_def fun_eq_iff)
    then have "inserted E p e0 p6 promoted ([x] @ removed)"
      using inserted_cong [of ?e e0 E p] by (simp add: ident_def)
    moreover have "(q, err) = (enqueueInsertedEvents E (enqueueEvent E (enqueueRemovedEvents E p6 ([x] @ removed))
        EventTxInserted (e_bytes e0)) promoted, None)"
      using q rank acc e0(3,4) key True ev c l by (simp add: Insert_admit_def)
    moreover have "e_key e0 \<in> e_key ` set ([x] @ removed)" using kx by simp
    ultimately show ?thesis using admit_events [of E p6 e0 promoted "[x] @ removed"] by blast
  qed
qed

lemma Insert_admit_new:
  assumes s: "sound E p" and sk: "skiplist_ok E" and r: "mget (senders p) s = Some r"
    and e0: "entry_static E s n e0" "is_i64 (e_priority e0)" "e_tier e0 = 0" "e_order e0 = orderSeq p"
    and n: "nextExpectedNonce (heap p r) = n"
    and room: "orderSeq p + maxQueuedPerSender p < 2 ^ 63"
    and q: "Insert_admit E ctx p r e0 None (mget (queued (heap p r)) n) = (q, err)"
  shows "(err = Some ErrMempoolTxMaxCapacity \<and> q = p) \<or>
    (err = None \<and> (\<exists>p' promoted removed. inserted E p e0 p' promoted removed \<and>
      (held p (e_key e0) \<noteq> None \<longrightarrow> e_key e0 \<in> e_key ` set removed) \<and>
      logged E p' (insertEvents E e0 promoted removed) q))"
proof -
  note h = soundD [OF s]
  have core: "sender_core E p s (heap p r)" using consistentD(6) [OF h(1) sview_Some [OF r]] .
  have key: "e_key e0 = \<lparr>sender = s, nonce = n\<rparr>" using e0(1) by (simp add: entry_static_def)
  obtain cp co where rank: "computeClampedRankLocked (Some (heap p r)) 0 (e_priority e0) (orderSeq p) n = (cp, co)" by fastforce
  let ?e = "e0\<lparr>e_clampedPriority := cp, e_clampedOrder := co\<rparr>"
  obtain ok ev where acc: "canAcceptLocked p ctx cp co (e_size e0) (e_gas e0) None = (ok, ev)" by fastforce
  show ?thesis
  proof (cases ok)
    case False
    then show ?thesis using q rank acc e0(3,4) key by (simp add: Insert_admit_def)
  next
    case ok: True
    define p1 R where "p1 = (case mget (queued (heap p r)) n of Some x \<Rightarrow> dropQueuedNonce p r n | None \<Rightarrow> p)"
      and "R = (case mget (queued (heap p r)) n of Some x \<Rightarrow> [x] | None \<Rightarrow> [])"
    have p1: "sound E p1" "accounted p R p1" "only r p p1" "active (heap p1 r) = active (heap p r)"
      "activeMax (heap p1 r) = activeMax (heap p r)" "n \<notin> mdom (queued (heap p1 r))" "entries p1 = entries p"
      "priorityIndex p1 = priorityIndex p" "cfg p1 = cfg p" "\<forall>x\<in>set R. e_key x = e_key e0"
      "mget (queued (heap p r)) n \<noteq> None \<longrightarrow> R \<noteq> []"
      using s only_drop [of r p n] supersede_step [OF s r] dropQueued_accounted [OF h(1) r] sender_core_key(2) [OF core] key
      by (cases "mget (queued (heap p r)) n"; auto simp: p1_def R_def domIff)+
    note od = onlyD [OF p1(3)]
    have r1: "mget (senders p1) s = Some r" using r od by simp
    have n1: "nextExpectedNonce (heap p1 r) = n" using n unfolding nextExpectedNonce_def p1(4,5) od(6) .
    have acc1: "canAcceptLocked p1 ctx cp co (e_size e0) (e_gas e0) None = (True, ev)"
      using acc ok unfolding canAcceptLocked_def p1(7-9) by simp
    have rank1: "computeClampedRankLocked (Some (heap p1 r)) 0 (e_priority e0) (orderSeq p1) n = (cp, co)"
      using rank clamped_cong [OF p1(4,5)] od(3) by simp
    obtain p3 R3 where ev3: "removeEntriesByReasonLocked E p1 ev RemovalReasonCapacityEvicted = (p3, R3)" by fastforce
    let ?p4 = "addEntryLocked E p3 ?e"
    obtain p5 es where c: "collectPromotableLocked ?p4 r = (p5, es)" by fastforce
    obtain p6 promoted R4 where l: "promoteLoop E ctx r p5 es = (p6, promoted, R4)" by (rule prod_cases3)
    have "inserted E p ?e p6 promoted ((R @ R3) @ R4)"
      using e0 rank1 acc1 room od p1(10)
      by (intro admit_new [OF p1(1) sk r1 r h(1) n1 p1(6) _ _ _ _ _ _ ev3 _ c l p1(2) _ p1(3,4)])
        (simp_all add: entry_static_def)
    then have ins: "inserted E p e0 p6 promoted ((R @ R3) @ R4)"
      using inserted_cong [of ?e e0 E p] by (simp add: ident_def)
    have "(q, err) = (enqueueInsertedEvents E (enqueueEvent E (enqueueRemovedEvents E p6 ((R @ R3) @ R4))
        EventTxInserted (e_bytes e0)) promoted, None)"
      using q rank acc e0(3,4) key ok ev3 c l unfolding p1_def R_def
      by (cases "mget (queued (heap p r)) n") (simp_all add: Insert_admit_def)
    moreover have "e_key e0 \<in> e_key ` set ((R @ R3) @ R4)" if "held p (e_key e0) \<noteq> None"
    proof -
      have "mget (active (heap p r)) n = None" using next_props(5) [OF s r n] by (simp add: domIff)
      then have "mget (queued (heap p r)) n \<noteq> None" using that held_queued [OF r] key by simp
      then obtain x where "x \<in> set R" using p1(11) by (cases R) auto
      then have "e_key e0 = e_key x" "x \<in> set ((R @ R3) @ R4)" using p1(10) by auto
      then show ?thesis by (rule image_eqI)
    qed
    ultimately show ?thesis using ins admit_events [of E p6 e0 promoted "(R @ R3) @ R4"] by blast
  qed
qed

section \<open>What an operation reports\<close>

text \<open>
  \<open>changes E p new evts q\<close>: the pool went from \<open>p\<close> to \<open>q\<close> by losing the entries of the removal
  events at the front of \<open>evts\<close> and gaining at most \<open>new\<close>; the other events are about entries that
  \<open>q\<close> holds, one of them about the new one. \<open>emitted\<close> says that the two queues received the events.
\<close>

definition changes :: "'s env \<Rightarrow> 's PriorityMempool \<Rightarrow> (txKey \<times> sdk_tx \<times> bytes \<times> int) option \<Rightarrow>
    AppMempoolEvent list \<Rightarrow> 's PriorityMempool \<Rightarrow> bool" where
  "changes E p new evts q \<longleftrightarrow>
     (\<exists>R N. evts = map (\<lambda>x. mkEvent E EventTxRemoved (e_bytes x)) R @ N \<and>
        (\<forall>ev\<in>set N. ev_Type ev \<noteq> EventTxRemoved \<and> (\<exists>k tx pr. held q k = Some (tx, ev_Tx ev, pr))) \<and>
        distinct (map e_key R) \<and> (\<forall>x\<in>set R. held p (e_key x) = Some (ident x)) \<and>
        (case new of
           None \<Rightarrow> held q = held p |` (- e_key ` set R)
         | Some (k, tx, bz, pr) \<Rightarrow>
             held q = (held p |` (- e_key ` set R))(k \<mapsto> (tx, bz, pr)) \<and>
             (held p k \<noteq> None \<longrightarrow> k \<in> e_key ` set R) \<and> (\<exists>ev\<in>set N. ev_Tx ev = bz)))"

definition emitted :: "'s PriorityMempool \<Rightarrow> AppMempoolEvent list \<Rightarrow> 's PriorityMempool \<Rightarrow> bool" where
  "emitted p evts q \<longleftrightarrow>
     eventCh q = eventCh p \<and> appEventCh q = appEventCh p \<and> eventStop q = eventStop p \<and>
     appQueue q = appQueue p @ (if appEventCh p \<and> \<not> eventStop p then evts else []) \<and>
     cometQueue q = cometQueue p @
       (if eventCh p \<and> \<not> eventStop p then filter (\<lambda>ev. ev_Type ev \<noteq> EventTxQueued) evts else []) \<and>
     (appNotify q \<longleftrightarrow> appNotify p \<or> (appEventCh p \<and> \<not> eventStop p \<and> evts \<noteq> [])) \<and>
     (cometNotify q \<longleftrightarrow> cometNotify p \<or>
       (eventCh p \<and> \<not> eventStop p \<and> filter (\<lambda>ev. ev_Type ev \<noteq> EventTxQueued) evts \<noteq> []))"

definition op_ok :: "'s env \<Rightarrow> 's PriorityMempool \<Rightarrow> (txKey \<times> sdk_tx \<times> bytes \<times> int) option \<Rightarrow>
    AppMempoolEvent list \<Rightarrow> 's PriorityMempool \<Rightarrow> bool" where
  "op_ok E p new evts q \<longleftrightarrow>
     sound E q \<and> changes E p new evts q \<and> emitted p evts q \<and> static q = static p \<and> orderSeq p \<le> orderSeq q"

lemma emitted_logged:
  assumes "evs p' = evs p" and "logged E p' evts q"
  shows "emitted p evts q"
  using assms noisyD(11-13) [of p' q] by (auto simp: emitted_def logged_def evs_def)

lemma op_okI:
  assumes "sound E p'" and "changes E p new evts p'" and "evs p' = evs p" and "static p' = static p"
    and "orderSeq p \<le> orderSeq p'" and "logged E p' evts q"
  shows "op_ok E p new evts q"
proof -
  note n = noisyD [OF loggedD [OF assms(6)]]
  have "changes E p new evts q" using assms(2) unfolding changes_def n(2) .
  then show ?thesis using assms(1,4,5) n(6,7,14) emitted_logged [OF assms(3,6)] by (simp add: op_ok_def)
qed

lemma changes_accounted:
  "accounted p R q \<Longrightarrow> changes E p None (map (\<lambda>x. mkEvent E EventTxRemoved (e_bytes x)) R) q"
  unfolding changes_def accounted_def by (intro exI [of _ R] exI [of _ "[]"]) simp

lemma changes_nothing: "held q = held p \<Longrightarrow> changes E p None [] q"
  using changes_accounted [OF accounted_Nil, of q p E] by simp

lemma op_ok_nothing:
  "sound E q \<Longrightarrow> held q = held p \<Longrightarrow> evs q = evs p \<Longrightarrow> static q = static p \<Longrightarrow> orderSeq p \<le> orderSeq q \<Longrightarrow>
    op_ok E p None [] q"
  by (rule op_okI [of E q p None "[]" q]) (simp_all add: changes_nothing)

lemma op_ok_inserted:
  assumes i: "inserted E p e p' promoted removed" and k: "held p (e_key e) \<noteq> None \<longrightarrow> e_key e \<in> e_key ` set removed"
    and l: "logged E p' (insertEvents E e promoted removed) q"
  shows "op_ok E p (Some (e_key e, ident e)) (insertEvents E e promoted removed) q"
proof (rule op_okI [OF _ _ _ _ _ l])
  have H: "held p' = (held p |` (- e_key ` set removed))(e_key e \<mapsto> ident e)" using i by (simp add: inserted_def)
  let ?N = "mkEvent E EventTxInserted (e_bytes e) # map (\<lambda>x. mkEvent E EventTxInserted (e_bytes x)) promoted"
  have e1: "\<exists>k tx pr. held p' k = Some (tx, e_bytes x, pr)" if "x \<in> set promoted" for x
  proof -
    have s': "sound E p'" and x: "mget (entries p') (e_key x) = Some x" using i that by (auto simp: inserted_def)
    then have "held p' (e_key x) = Some (ident x)"
      using entries_iff [OF soundD(1) [OF s'], of "e_key x" x] by (auto simp: held_def sheld_def)
    then show ?thesis by (auto simp: ident_def)
  qed
  have "\<forall>ev\<in>set ?N. ev_Type ev \<noteq> EventTxRemoved \<and> (\<exists>k tx pr. held p' k = Some (tx, ev_Tx ev, pr))"
    using e1 H by (auto simp: mkEvent_def ident_def)
  then show "changes E p (Some (e_key e, ident e)) (insertEvents E e promoted removed) p'"
    unfolding changes_def insertEvents_def using i k
    by (intro exI [of _ removed] exI [of _ ?N]) (auto simp: inserted_def ident_def mkEvent_def)
qed (use i in \<open>simp_all add: inserted_def\<close>)

section \<open>Insert\<close>

lemma key_eta [simp]: "\<lparr>sender = sender k, nonce = nonce k\<rparr> = (k :: txKey)"
  by simp

definition tx_ok :: "'s env \<Rightarrow> 's sdk_ctx \<Rightarrow> sdk_tx \<Rightarrow> txKey \<Rightarrow> nat \<Rightarrow> bool" where
  "tx_ok E ctx tx key gas \<longleftrightarrow>
     txKeyFromTx E tx = Inr key \<and> tx_GetGas tx = Some gas \<and> nonce key < 2 ^ 64 - 1 \<and> is_i64 (ctx_Priority ctx)"

definition insert_post :: "'s env \<Rightarrow> 's PriorityMempool \<Rightarrow> txKey \<Rightarrow> sdk_tx \<times> bytes \<times> int \<Rightarrow> 's PriorityMempool \<Rightarrow>
    mp_error option \<Rightarrow> bool" where
  "insert_post E p key v q err \<longleftrightarrow>
     (if err = None then \<exists>evts. op_ok E p (Some (key, v)) evts q else op_ok E p None [] q)"

lemma insert_post_shift:
  assumes "insert_post E p1 key v q err" and "held p1 = held p" and "evs p1 = evs p" and "static p1 = static p"
    and "orderSeq p \<le> orderSeq p1"
  shows "insert_post E p key v q err"
proof -
  have e: "eventCh p1 = eventCh p" "appEventCh p1 = appEventCh p" "eventStop p1 = eventStop p"
    "appQueue p1 = appQueue p" "cometQueue p1 = cometQueue p" "appNotify p1 = appNotify p" "cometNotify p1 = cometNotify p"
    using assms(3) by (simp_all add: evs_def)
  have "changes E p1 = changes E p" "emitted p1 = emitted p"
    by (intro ext, simp only: changes_def assms(2), intro ext, simp only: emitted_def e)
  then have "op_ok E p1 new evts q \<Longrightarrow> op_ok E p new evts q" for new evts
    using assms(4,5) by (simp add: op_ok_def)
  then show ?thesis using assms(1) unfolding insert_post_def by (auto split: if_splits)
qed

lemma Insert_queued_post:
  assumes s: "sound E p" and r: "mget (senders p) (sender key) = Some r" and t: "tx_ok E ctx tx key gas"
    and n: "nextExpectedNonce (heap p r) < nonce key"
    and q: "Insert_queued E ctx p r tx key bz gas = (q, err)"
  shows "insert_post E p key (tx, bz, ctx_Priority ctx) q err"
proof -
  note h = soundD [OF s] and nx = next_props [OF s r refl]
  let ?n = "nonce key" and ?s = "sender key"
  let ?e = "\<lparr>e_tx = tx, e_priority = ctx_Priority ctx, e_size = int (length bz), e_key = key,
     e_sequence = nonce key, e_order = 0, e_tier = queuedTier, e_gas = gas,
     e_bytes = bz, e_clampedPriority = 0, e_clampedOrder = 0\<rparr>"
  have id: "ident ?e = (tx, bz, ctx_Priority ctx)" by (simp add: ident_def)
  have st: "entry_static E ?s ?n ?e" using t by (simp add: entry_static_def tx_ok_def)
  have top: "m < ?n" if "m \<in> mdom (active (heap p r))" for m using nx(2) [OF that] n by simp
  have na: "mget (active (heap p r)) ?n = None" using top [of ?n] by (cases "mget (active (heap p r)) ?n") auto
  have nil: "op_ok E p None [] p" by (rule op_ok_nothing) (simp_all add: s)
  show ?thesis
  proof (cases "HasQueuedTxExtension tx")
    case False
    then have "q = p" "err \<noteq> None" using q by (auto simp: Insert_queued_def)
    then show ?thesis using nil unfolding insert_post_def by auto
  next
    case True
    obtain p1 ins ev ierr where i: "insertQueuedLocked p r key ?e = (p1, ins, ev, ierr)" by (rule prod_cases4)
    have step: "queue_step E p ?s r ?n ?e p1 ins ev ierr"
      by (rule insertQueued_step [OF h(1) r na st h(8)]) (simp only: key_eta i)
    show ?thesis
    proof (cases ins)
      case False
      then have "q = p" "err \<noteq> None" using step True q i by (auto simp: Insert_queued_def queue_step_def)
      then show ?thesis using nil unfolding insert_post_def by auto
    next
      case ins: True
      note f = step [unfolded queue_step_def, simplified ins, simplified]
      let ?R = "case ev of Some v \<Rightarrow> [v] | None \<Rightarrow> []"
      have qe: "q = enqueueEvent E (enqueueRemovedEvents E p1 ?R) EventTxQueued bz" "err = None"
        using q i True ins by (auto simp: Insert_queued_def enqueueRemovedEvents_def split: option.splits)
      let ?evts = "map (\<lambda>x. mkEvent E EventTxRemoved (e_bytes x)) ?R @ [mkEvent E EventTxQueued bz]"
      have core: "sender_core E p ?s (heap p r)" using consistentD(6) [OF h(1) sview_Some [OF r]] .
      have R: "held p (e_key x) = Some (ident x)" if x: "x \<in> set ?R" for x
      proof -
        have m: "mget (queued (heap p r)) (nonce (e_key x)) = Some x" using f x by (auto split: option.splits)
        have "mget (active (heap p r)) (nonce (e_key x)) = None"
          using sender_core_disjoint [OF core, of "nonce (e_key x)"] m by (cases "mget (active (heap p r)) (nonce (e_key x))") auto
        from held_queued [OF r this] m show ?thesis by (subst sender_core_key(2) [OF core m]) simp
      qed
      have H: "held p1 = (held p |` (- e_key ` set ?R))(key \<mapsto> (tx, bz, ctx_Priority ctx))"
        using f id by (cases ev) simp_all
      have pr: "priorities_ok p1"
        using h(4) t unfolding priorities_ok_def H by (auto simp: restrict_map_def tx_ok_def split: if_splits)
      have "m \<in> mdom (queued (heap p r)) \<or> (onChainSeq (heap p r) \<le> m \<and> (\<forall>k\<in>mdom (active (heap p r)). k < m))"
        if "m \<in> mdom (queued (heap p1 r))" for m
        using that f top nx(1) n by (cases "m = ?n") (auto dest: subsetD)
      moreover have "int (mlen (queued (heap p1 r))) \<le> maxQueuedPerSender p"
        using f sinvD(7) [OF soundD(9) [OF s r]] by (simp add: gm.len_card)
      ultimately have s1: "sound E p1" using sound_queue_upd [OF s r _ _ _ pr] f by blast
      have nk: "key \<in> e_key ` set ?R" if "held p key \<noteq> None"
      proof -
        have "mget (queued (heap p r)) ?n \<noteq> None" using that held_queued [OF r na] by auto
        then show ?thesis using i ins sender_core_key(2) [OF core]
          by (auto simp: insertQueuedLocked_def Let_def split: if_splits option.splits)
      qed
      have "changes E p (Some (key, tx, bz, ctx_Priority ctx)) ?evts p1"
        unfolding changes_def using R H nk
        by (intro exI [of _ ?R] exI [of _ "[mkEvent E EventTxQueued bz]"]) (auto simp: mkEvent_def split: option.splits)
      moreover have "logged E p1 ?evts q"
        unfolding qe by (rule logged_trans [OF enqueueRemoved_logged enqueueEvent_logged])
      ultimately have "op_ok E p (Some (key, tx, bz, ctx_Priority ctx)) ?evts q"
        using s1 f onlyD [of r p p1] by (intro op_okI) auto
      then show ?thesis using qe(2) unfolding insert_post_def by auto
    qed
  qed
qed

lemma admit_post:
  assumes s: "sound E p" and e: "e_key e0 = key" "ident e0 = v"
    and d: "(err = Some ErrMempoolTxMaxCapacity \<and> q = p) \<or>
      (err = None \<and> (\<exists>p' promoted removed. inserted E p e0 p' promoted removed \<and>
        (held p (e_key e0) \<noteq> None \<longrightarrow> e_key e0 \<in> e_key ` set removed) \<and>
        logged E p' (insertEvents E e0 promoted removed) q))"
  shows "insert_post E p key v q err"
  using d
proof
  assume "err = Some ErrMempoolTxMaxCapacity \<and> q = p"
  then show ?thesis using op_ok_nothing [OF s refl refl refl order_refl] by (simp add: insert_post_def)
next
  assume "err = None \<and> (\<exists>p' promoted removed. inserted E p e0 p' promoted removed \<and>
        (held p (e_key e0) \<noteq> None \<longrightarrow> e_key e0 \<in> e_key ` set removed) \<and>
        logged E p' (insertEvents E e0 promoted removed) q)"
  then show ?thesis using op_ok_inserted e unfolding insert_post_def by metis
qed

lemma Insert_active_post:
  assumes s: "sound E p" and sk: "skiplist_ok E" and r: "mget (senders p) (sender key) = Some r"
    and t: "tx_ok E ctx tx key gas" and n: "nonce key = nextExpectedNonce (heap p r) \<or> mget (entries p) key \<noteq> None"
    and room: "orderSeq p + 1 + maxQueuedPerSender p < 2 ^ 63"
    and q: "Insert_active E ctx p r tx key bz gas = (q, err)"
  shows "insert_post E p key (tx, bz, ctx_Priority ctx) q err"
proof -
  let ?p = "p\<lparr>orderSeq := orderSeq p + 1\<rparr>" and ?n = "nonce key" and ?s = "sender key"
  have room1: "orderSeq p + 1 < 2 ^ 63" using room soundD(8) [OF s] by simp
  note no = nextOrder_step [OF s room1]
  let ?e = "\<lparr>e_tx = tx, e_priority = ctx_Priority ctx, e_size = int (length bz), e_key = key,
     e_sequence = nonce key, e_order = orderSeq p + 1, e_tier = 0, e_gas = gas,
     e_bytes = bz, e_clampedPriority = 0, e_clampedOrder = 0\<rparr>"
  have tier: "selectTier ?p ctx tx = 0" using selectTier_single [OF soundD(5) [OF no(2)]] .
  have st: "entry_static E ?s ?n ?e" using t by (simp add: entry_static_def tx_ok_def)
  have pr: "is_i64 (e_priority ?e)" using t by (simp add: tx_ok_def)
  have r1: "mget (senders ?p) ?s = Some r" using r by simp
  have room2: "orderSeq ?p + maxQueuedPerSender ?p < 2 ^ 63" using room by simp
  have en: "mget (entries ?p) key = mget (active (heap p r)) ?n" using entries_of [OF soundD(1) [OF s] r refl] by simp
  have core: "sender_core E p ?s (heap p r)" using consistentD(6) [OF soundD(1) [OF s] sview_Some [OF r]] .
  have fail: "insert_post E ?p key (tx, bz, ctx_Priority ctx) ?p (Some x)" for x
    using op_ok_nothing [OF no(2) refl refl refl order_refl] by (simp add: insert_post_def)
  note un = q [unfolded Insert_active_def no(1) Let_def prod.case tier]
  have "insert_post E ?p key (tx, bz, ctx_Priority ctx) q err"
  proof (cases "mget (entries ?p) key")
    case None
    then have nx: "nextExpectedNonce (heap ?p r) = ?n" using n by simp
    have ad: "insert_post E ?p key (tx, bz, ctx_Priority ctx) q err"
      if "Insert_admit E ctx ?p r ?e None (mget (queued (heap ?p r)) ?n) = (q, err)"
      using Insert_admit_new [OF no(2) sk r1 st pr _ _ nx room2 that]
      by (intro admit_post [OF no(2), of ?e]) (simp_all add: ident_def)
    show ?thesis using un None ad fail by (auto split: option.splits if_splits)
  next
    case (Some x)
    then have qn: "mget (queued (heap ?p r)) ?n = None" using en sender_core_disjoint [OF core, of ?n x] by simp
    have ad: "insert_post E ?p key (tx, bz, ctx_Priority ctx) q err"
      if "Insert_admit E ctx ?p r ?e (Some x) None = (q, err)" "e_priority x < ctx_Priority ctx"
      using Insert_admit_replace [OF no(2) sk r1 st pr _ _ _ _ room2 that(1)] Some that(2)
      by (intro admit_post [OF no(2), of ?e]) (simp_all add: ident_def)
    show ?thesis using un Some ad fail qn by (auto split: if_splits)
  qed
  then show ?thesis by (rule insert_post_shift) (simp_all add: no(3) evs_def static_def)
qed

lemma sound_newSender:
  assumes s: "sound E p" and n: "mget (senders p) s = None" and g: "getOrCreateSenderLocked p s = (q, r)"
  shows "sound E q"
proof -
  note h = soundD [OF s] and ns = newSender [OF soundD(1) [OF s] n g]
  have sc: "maxQueuedPerSender q = maxQueuedPerSender p" "cfg q = cfg p" "tiers q = tiers p"
    using ns(8) by (simp_all add: static_def)
  have e: "sender_inv q emptySender" using h(8) sc by (intro sinvI) (auto simp: emptySender_def)
  have "sender_inv q ss" if "sview q t = Some ss" for t ss
    using that h(2) [of t ss] e sc unfolding ns(5) by (auto split: if_splits)
  moreover have "within q" "priorities_ok q" "config_ok q"
    using h(3-5) ns(2,6) sc by (simp_all add: within_def priorities_ok_def config_ok_def)
  ultimately show ?thesis using ns(1,7) h(6,7) by (simp add: sound_def)
qed

lemma sound_scalar:
  assumes s: "sound E p" and r: "mget (senders p) s = Some r"
    and f: "active (f (heap p r)) = active (heap p r)" "activeMin (f (heap p r)) = activeMin (heap p r)"
      "activeMax (f (heap p r)) = activeMax (heap p r)" "queued (f (heap p r)) = queued (heap p r)"
      "queuedMin (f (heap p r)) = queuedMin (heap p r)" "queuedMax (f (heap p r)) = queuedMax (heap p r)"
    and i: "sender_inv p (f (heap p r))"
  shows "sound E (updSender p r f)"
proof -
  note h = soundD [OF s] and u = updScalar [where f = f, OF soundD(1) [OF s] r f]
  note hk = consistentD(1) [OF h(1)]
  have "within (updSender p r f)" using h(3) by (simp add: within_def)
  moreover have "priorities_ok (updSender p r f)" using h(4) u(2) by (simp add: priorities_ok_def)
  ultimately show ?thesis
    using i h(6,7) sview_updSender [OF hk r]
    by (intro sound_one [OF s u(1) updSender_leaves [OF hk r]]) auto
qed

lemma Insert_locked_post:
  assumes s: "sound E p" and sk: "skiplist_ok E" and t: "tx_ok E ctx tx key gas"
    and room: "orderSeq p + 1 + maxQueuedPerSender p < 2 ^ 63"
    and q: "Insert_locked E ctx p tx key bz gas fetched = (q, err)"
  shows "insert_post E p key (tx, bz, ctx_Priority ctx) q err"
proof -
  let ?s = "sender key"
  have known: "insert_post E p1 key (tx, bz, ctx_Priority ctx) q err"
    if s1: "sound E p1" and r: "mget (senders p1) ?s = Some r"
      and room1: "orderSeq p1 + 1 + maxQueuedPerSender p1 < 2 ^ 63"
      and q1: "(if nonce key < nextExpectedNonce (heap p1 r) \<and> mget (entries p1) key = None \<and>
          mget (queued (heap p1 r)) (nonce key) = None
        then (p1, Some (ErrStaleNonce (nonce key) ?s (nextExpectedNonce (heap p1 r))))
        else if nonce key > nextExpectedNonce (heap p1 r) then Insert_queued E ctx p1 r tx key bz gas
        else Insert_active E ctx p1 r tx key bz gas) = (q, err)" for p1 r
  proof -
    have nq: "mget (queued (heap p1 r)) (nonce key) = None" if "nonce key < nextExpectedNonce (heap p1 r)"
      using next_props(4) [OF s1 r refl, of "nonce key"] that by (cases "mget (queued (heap p1 r)) (nonce key)") auto
    show ?thesis
      using q1 nq Insert_queued_post [OF s1 r t, of bz q err] Insert_active_post [OF s1 sk r t _ room1, of bz q err]
        op_ok_nothing [OF s1 refl refl refl order_refl]
      by (auto simp: insert_post_def split: if_splits)
  qed
  show ?thesis
  proof (cases "mget (senders p) ?s")
    case (Some r)
    show ?thesis by (rule known [OF s Some room]) (use q Some in \<open>simp add: Insert_locked_def Let_def\<close>)
  next
    case None
    obtain p0 r where g: "getOrCreateSenderLocked p ?s = (p0, r)" by fastforce
    let ?p1 = "updSender p0 r (\<lambda>ss. setOnChainSeqLocked ss fetched)"
    note ns = newSender [OF soundD(1) [OF s] None g]
    have s0: "sound E p0" by (rule sound_newSender [OF s None g])
    have m: "maxQueuedPerSender p0 = maxQueuedPerSender p" using ns(8) by (simp add: static_def)
    have f: "setOnChainSeqLocked emptySender fetched = emptySender\<lparr>onChainSeq := fetched\<rparr>"
      by (simp add: setOnChainSeqLocked_def emptySender_def)
    have "sender_inv p0 (setOnChainSeqLocked (heap p0 r) fetched)"
      using soundD(8) [OF s] m unfolding ns(4) f by (intro sinvI) (auto simp: emptySender_def)
    then have s1: "sound E ?p1" by (intro sound_scalar [OF s0 ns(3)]) (simp_all add: ns(4) f)
    have h1: "held ?p1 = held p" using updScalar(2) [OF soundD(1) [OF s0] ns(3)] ns(2) by (simp add: ns(4) f)
    have "maxQueuedPerSender ?p1 = maxQueuedPerSender p" using m by (simp add: updSender_def)
    then have "insert_post E ?p1 key (tx, bz, ctx_Priority ctx) q err"
      by (intro known [OF s1, of r]) (use q None g ns(3,7) room in \<open>simp_all add: Insert_locked_def Let_def\<close>)
    then show ?thesis by (rule insert_post_shift) (simp_all add: h1 ns)
  qed
qed

section \<open>RemoveWithReason\<close>

abbreviation removedEvents :: "'s env \<Rightarrow> txEntry list \<Rightarrow> AppMempoolEvent list" where
  "removedEvents E R \<equiv> map (\<lambda>x. mkEvent E EventTxRemoved (e_bytes x)) R"

lemma op_ok_removed:
  assumes "sound E p'" and "leaves S p p'" and "orderSeq p' = orderSeq p" and "accounted p R p'"
  shows "op_ok E p None (removedEvents E R) (enqueueRemovedEvents E p' R)"
  using assms leavesD [OF assms(2)]
  by (intro op_okI [OF assms(1) changes_accounted [OF assms(4)] _ _ _ enqueueRemoved_logged]) simp_all

lemma removeByReason_post:
  assumes s: "sound E p" and sk: "skiplist_ok E" and n: "n < 2 ^ 64 - 1"
    and q: "removeByReasonLocked E p t n reason (if reason = RemovalReasonCommittedInBlock then u64 (n + 1) else 0)
      (reason = RemovalReasonCommittedInBlock) = (q, R)"
  shows "sound E q" and "leaves {t} p q" and "orderSeq q = orderSeq p" and "accounted p R q"
    and "reason \<noteq> RemovalReasonCapacityEvicted \<Longrightarrow> held q \<lparr>sender = t, nonce = n\<rparr> = None"
proof -
  have "sound E q \<and> leaves {t} p q \<and> orderSeq q = orderSeq p \<and> accounted p R q \<and>
    (reason \<noteq> RemovalReasonCapacityEvicted \<longrightarrow> held q \<lparr>sender = t, nonce = n\<rparr> = None)"
  proof (cases "reason = RemovalReasonCommittedInBlock")
    case True
    then have "removeByReasonLocked E p t n RemovalReasonCommittedInBlock (n + 1) True = (q, R)"
      using q n by (simp add: u64_def)
    from removeByReason_committed [OF s sk this] show ?thesis by simp
  next
    case False
    then have "removeByReasonLocked E p t n reason 0 False = (q, R)" using q by simp
    from removeByReason_demote [OF s sk False this] show ?thesis using False by (cases reason) simp_all
  qed
  then show "sound E q" "leaves {t} p q" "orderSeq q = orderSeq p" "accounted p R q"
    "reason \<noteq> RemovalReasonCapacityEvicted \<Longrightarrow> held q \<lparr>sender = t, nonce = n\<rparr> = None" by simp_all
qed

lemma RemoveWithReason_post:
  assumes s: "sound E p" and sk: "skiplist_ok E" and k: "txKeyFromTx E tx = Inr key" and n: "nonce key < 2 ^ 64 - 1"
    and q: "RemoveWithReason E p tx reason = (q, err)"
  shows "\<exists>R. accounted p R q \<and> (err = None \<longleftrightarrow> R \<noteq> []) \<and> op_ok E p None (removedEvents E R) q"
    and "reason \<noteq> RemovalReasonCapacityEvicted \<Longrightarrow> held q key = None"
proof -
  obtain p1 R where r: "removeByReasonLocked E p (sender key) (nonce key) reason
      (if reason = RemovalReasonCommittedInBlock then u64 (nonce key + 1) else 0)
      (reason = RemovalReasonCommittedInBlock) = (p1, R)" by fastforce
  note rp = removeByReason_post [OF s sk n r]
  have qe: "q = enqueueRemovedEvents E p1 R" "err = None \<longleftrightarrow> R \<noteq> []"
    using q k r by (auto simp: RemoveWithReason_def enqueueRemovedEvents_def split: if_splits)
  have hq: "held q = held p1" unfolding qe by (rule noisyD(2) [OF loggedD [OF enqueueRemoved_logged]])
  show "\<exists>R. accounted p R q \<and> (err = None \<longleftrightarrow> R \<noteq> []) \<and> op_ok E p None (removedEvents E R) q"
    using op_ok_removed [OF rp(1-4)] rp(4) qe hq by (intro exI [of _ R]) (simp add: accounted_def)
  show "held q key = None" if "reason \<noteq> RemovalReasonCapacityEvicted" using rp(5) [OF that] hq by simp
qed

section \<open>PromoteQueued\<close>

text \<open>
  An entry promoted for one sender can be evicted by a later sender of the same run, so the
  promoted entries are only known to have been in the pool when the run started.
\<close>

definition promote_post :: "'s PriorityMempool \<Rightarrow> nat \<Rightarrow> 's PriorityMempool \<Rightarrow> txEntry list \<Rightarrow> txEntry list \<Rightarrow> bool" where
  "promote_post p k q promoted removed \<longleftrightarrow>
     static q = static p \<and> evs q = evs p \<and> orderSeq p \<le> orderSeq q \<and>
     orderSeq q \<le> orderSeq p + int k * maxQueuedPerSender p \<and> accounted p removed q \<and>
     (\<forall>x\<in>set promoted. held p (e_key x) = Some (ident x))"

lemma promote_post_trans:
  assumes a: "promote_post p k q P R" and b: "promote_post q l u P' R'"
  shows "promote_post p (k + l) u (P @ P') (R @ R')"
proof -
  have "held p (e_key x) = Some (ident x)" if "x \<in> set P'" for x
  proof -
    have "held q (e_key x) = Some (ident x)" "held q \<subseteq>\<^sub>m held p"
      using a b that accounted_le [of p R q] by (simp_all add: promote_post_def)
    then show ?thesis by (force simp: map_le_def)
  qed
  moreover have "maxQueuedPerSender q = maxQueuedPerSender p" using a by (simp add: promote_post_def static_def)
  ultimately show ?thesis
    using a b accounted_append [of p R q R' u] by (auto simp: promote_post_def algebra_simps)
qed

lemma PromoteQueued_sender_step:
  assumes s: "sound E p" and sk: "skiplist_ok E" and room: "orderSeq p + maxQueuedPerSender p < 2 ^ 63"
    and q: "PromoteQueued_sender E ctx p t seq = (q, promoted, removed)"
  shows "sound E q \<and> promote_post p 1 q promoted removed \<and>
    (\<forall>x\<in>set promoted. held q (e_key x) = Some (ident x))"
proof (cases "mget (senders p) t")
  case None
  then show ?thesis using q s soundD(8) [OF s] by (auto simp: PromoteQueued_sender_def promote_post_def)
next
  case (Some r)
  obtain p2 R where r2: "removeStaleLocked E (updSender p r (\<lambda>ss. setOnChainSeqLocked ss seq)) r seq = (p2, R)" by fastforce
  note ad = advance_step [OF soundD(1) [OF s] sk Some r2]
  have s2: "sound E p2" by (rule sound_advanced(1) [OF s Some ad])
  obtain p3 es where c: "collectPromotableLocked p2 r = (p3, es)" by fastforce
  obtain p4 P R' where l: "promoteLoop E ctx r p3 es = (p4, P, R')" by (rule prod_cases3)
  have r3: "mget (senders p2) t = Some r" using Some ad(5) by simp
  have room2: "orderSeq p2 + maxQueuedPerSender p2 < 2 ^ 63" using room ad(3) leavesD(5) [OF ad(2)] by simp
  note cp = collect_promote_step [OF s2 sk r3 room2 c l]
  note cl = cleanup_step [OF soundD(1) [OF cp(1)], of t]
  have qq: "(q = p4 \<or> q = cleanupSenderLocked p4 t)" "promoted = P" "removed = R @ R'"
    using q Some r2 c l by (auto simp: PromoteQueued_sender_def Let_def split: if_splits)
  have "held p (e_key x) = Some (ident x)" if "x \<in> set P" for x
    using cp(9) [OF that] accounted_le [OF ad(4)] by (force simp: map_le_def)
  then have "promote_post p 1 p4 P (R @ R')"
    using ad(3) leavesD(1,2,5) [OF ad(2)] cp(4-7) accounted_append [OF ad(4) cp(3)] by (simp add: promote_post_def)
  moreover have "accounted p (R @ R') (cleanupSenderLocked p4 t)" if "accounted p (R @ R') p4"
    using that cl(2) by (simp add: accounted_def)
  ultimately have "promote_post p 1 q P (R @ R')"
    using qq(1) leavesD(1,2) [OF cl(5)] cl(4) by (auto simp: promote_post_def)
  moreover have "held p4 (e_key x) = Some (ident x)" if x: "x \<in> set P" for x
  proof -
    have a: "mget (active (heap p4 r)) (nonce (e_key x)) = Some x" using cp(9) [OF x] by simp
    from sender_core_key(1) [OF consistentD(6) [OF soundD(1) [OF cp(1)] sview_Some [OF cp(2)]] a] held_active [OF cp(2) a]
    show ?thesis by simp
  qed
  ultimately show ?thesis using qq cp(1) sound_cleanup [OF cp(1)] cl(2) by auto
qed

lemma PromoteQueued_senders_step:
  assumes "sound E p" and "skiplist_ok E" and "orderSeq p + int (length seqs) * maxQueuedPerSender p < 2 ^ 63"
    and "PromoteQueued_senders E ctx p seqs = (q, promoted, removed)"
  shows "sound E q \<and> promote_post p (length seqs) q promoted removed \<and>
    (length seqs \<le> 1 \<longrightarrow> (\<forall>x\<in>set promoted. held q (e_key x) = Some (ident x)))"
  using assms
proof (induction seqs arbitrary: p q promoted removed)
  case Nil
  then show ?case by (simp add: promote_post_def)
next
  case (Cons a seqs)
  obtain t seq where a: "a = (t, seq)" by fastforce
  obtain p1 P R where 1: "PromoteQueued_sender E ctx p t seq = (p1, P, R)" by (rule prod_cases3)
  obtain p2 P' R' where 2: "PromoteQueued_senders E ctx p1 seqs = (p2, P', R')" by (rule prod_cases3)
  have pos: "0 \<le> int (length seqs) * maxQueuedPerSender p" using soundD(8) [OF Cons.prems(1)] by simp
  then have "sound E p1 \<and> promote_post p 1 p1 P R \<and> (\<forall>x\<in>set P. held p1 (e_key x) = Some (ident x))"
    using Cons.prems(3) by (intro PromoteQueued_sender_step [OF Cons.prems(1,2) _ 1]) (simp add: algebra_simps)
  then have s1: "sound E p1" and pp: "promote_post p 1 p1 P R"
    and one: "\<forall>x\<in>set P. held p1 (e_key x) = Some (ident x)" by simp_all
  have "orderSeq p1 + int (length seqs) * maxQueuedPerSender p1 < 2 ^ 63"
    using pp Cons.prems(3) by (simp add: promote_post_def static_def algebra_simps)
  note ih = Cons.IH [OF s1 Cons.prems(2) this 2]
  have qq: "q = p2" "promoted = P @ P'" "removed = R @ R'" using Cons.prems(4) a 1 2 by simp_all
  have "seqs = [] \<Longrightarrow> p2 = p1 \<and> P' = []" using 2 by simp
  then show ?case using ih promote_post_trans [OF pp] one unfolding qq by fastforce
qed

lemma cleanupActiveOnly_fold:
  assumes "sound E p"
  shows "sound E (fold (\<lambda>s q. cleanupActiveOnly q s) ss p) \<and> static (fold (\<lambda>s q. cleanupActiveOnly q s) ss p) = static p \<and>
    evs (fold (\<lambda>s q. cleanupActiveOnly q s) ss p) = evs p \<and> held (fold (\<lambda>s q. cleanupActiveOnly q s) ss p) = held p \<and>
    orderSeq (fold (\<lambda>s q. cleanupActiveOnly q s) ss p) = orderSeq p"
  using assms
proof (induction ss arbitrary: p)
  case (Cons t ss)
  note cl = cleanup_step [OF soundD(1) [OF Cons.prems], of t]
  have "cleanupActiveOnly p t = p \<or> cleanupActiveOnly p t = cleanupSenderLocked p t"
    by (auto simp: cleanupActiveOnly_def split: option.split)
  then have "sound E (cleanupActiveOnly p t)" "static (cleanupActiveOnly p t) = static p" "evs (cleanupActiveOnly p t) = evs p"
    "held (cleanupActiveOnly p t) = held p" "orderSeq (cleanupActiveOnly p t) = orderSeq p"
    using Cons.prems sound_cleanup [OF Cons.prems] leavesD(1,2) [OF cl(5)] cl(2,4) by auto
  with Cons.IH [of "cleanupActiveOnly p t"] show ?case by simp
qed simp

abbreviation insertedEvents :: "'s env \<Rightarrow> txEntry list \<Rightarrow> AppMempoolEvent list" where
  "insertedEvents E P \<equiv> map (\<lambda>x. mkEvent E EventTxInserted (e_bytes x)) P"

lemma PromoteQueued_locked_post:
  assumes s: "sound E p" and sk: "skiplist_ok E"
    and room: "orderSeq p + int (length seqs) * maxQueuedPerSender p < 2 ^ 63"
    and q: "PromoteQueued_locked E ctx p seqs ss = q"
  shows "sound E q \<and> static q = static p \<and> orderSeq p \<le> orderSeq q \<and>
    (\<exists>P R. accounted p R q \<and> (\<forall>x\<in>set P. held p (e_key x) = Some (ident x)) \<and>
      (length seqs \<le> 1 \<longrightarrow> (\<forall>x\<in>set P. held q (e_key x) = Some (ident x))) \<and>
      emitted p (removedEvents E R @ insertedEvents E P) q)"
proof -
  obtain p1 P R where 1: "PromoteQueued_senders E ctx p seqs = (p1, P, R)" by (rule prod_cases3)
  have st: "sound E p1" "promote_post p (length seqs) p1 P R"
    "length seqs \<le> 1 \<longrightarrow> (\<forall>x\<in>set P. held p1 (e_key x) = Some (ident x))"
    using PromoteQueued_senders_step [OF s sk room 1] by simp_all
  define p2 where "p2 = fold (\<lambda>s q. cleanupActiveOnly q s) ss p1"
  have f: "sound E p2" "static p2 = static p1" "evs p2 = evs p1" "held p2 = held p1" "orderSeq p2 = orderSeq p1"
    using cleanupActiveOnly_fold [OF st(1), of ss] by (simp_all add: p2_def)
  have l: "logged E p2 (removedEvents E R @ insertedEvents E P) q"
    using q 1 logged_trans [OF enqueueRemoved_logged enqueueInserted_logged] by (auto simp: PromoteQueued_locked_def p2_def)
  note n = noisyD [OF loggedD [OF l]]
  have "emitted p (removedEvents E R @ insertedEvents E P) q"
    using st(2) f(3) by (intro emitted_logged [OF _ l]) (simp add: promote_post_def)
  moreover have "accounted p R q" using st(2) f(4) n(2) by (simp add: promote_post_def accounted_def)
  moreover have "\<forall>x\<in>set P. held p (e_key x) = Some (ident x)" "orderSeq p \<le> orderSeq q" "static q = static p" "sound E q"
    using st(2) f n(6,7,14) by (simp_all add: promote_post_def)
  moreover have "length seqs \<le> 1 \<longrightarrow> (\<forall>x\<in>set P. held q (e_key x) = Some (ident x))" using st(3) f(4) n(2) by simp
  ultimately show ?thesis by blast
qed

section \<open>The cleaning worker\<close>

definition removal :: "'s env \<Rightarrow> 's PriorityMempool \<Rightarrow> txEntry list \<Rightarrow> 's PriorityMempool \<Rightarrow> bool" where
  "removal E p R q \<longleftrightarrow> sound E q \<and> accounted p R q \<and> emitted p (removedEvents E R) q \<and>
     static q = static p \<and> orderSeq q = orderSeq p"

lemma removal_op_ok: "removal E p R q \<Longrightarrow> op_ok E p None (removedEvents E R) q"
  using changes_accounted [of p R q E] by (simp add: removal_def op_ok_def)

lemma emitted_trans: "emitted p a q \<Longrightarrow> emitted q b u \<Longrightarrow> emitted p (a @ b) u"
  by (auto simp: emitted_def)

lemma removal_trans: "removal E p R q \<Longrightarrow> removal E q S u \<Longrightarrow> removal E p (R @ S) u"
  using accounted_append [of p R q S u] emitted_trans [of p "removedEvents E R" q "removedEvents E S" u]
  by (simp add: removal_def)

lemma removal_quiet:
  "sound E q \<Longrightarrow> held q = held p \<Longrightarrow> evs q = evs p \<Longrightarrow> static q = static p \<Longrightarrow> orderSeq q = orderSeq p \<Longrightarrow> removal E p [] q"
  unfolding removal_def by (intro conjI accounted_Nil) (simp_all add: emitted_logged [of q p E "[]" q])

lemma removal_enqueue:
  assumes "sound E p'" and "accounted p R p'" and "evs p' = evs p" and "static p' = static p" and "orderSeq p' = orderSeq p"
  shows "removal E p R (enqueueRemovedEvents E p' R)"
proof -
  note n = noisyD [OF loggedD [OF enqueueRemoved_logged [of E p' R]]]
  have "accounted p R (enqueueRemovedEvents E p' R)" using assms(2) unfolding accounted_def n(2) .
  then show ?thesis
    using assms(1,4,5) n(6,7,14) emitted_logged [OF assms(3) enqueueRemoved_logged] by (simp add: removal_def)
qed

lemma removal_fold:
  assumes "sound E p" and step: "\<And>x q. x \<in> set xs \<Longrightarrow> sound E q \<Longrightarrow> \<exists>R. removal E q R (f x q)"
  shows "\<exists>R. removal E p R (fold f xs p)"
  using assms
proof (induction xs arbitrary: p)
  case Nil
  then show ?case using removal_quiet [of E p p] by auto
next
  case (Cons x xs)
  obtain R where r: "removal E p R (f x p)" using Cons.prems(2) [OF _ Cons.prems(1), of x] by auto
  then have s1: "sound E (f x p)" by (simp add: removal_def)
  have "\<exists>R. removal E q R (f y q)" if "y \<in> set xs" "sound E q" for y q
    by (rule Cons.prems(2)) (simp_all add: that)
  from Cons.IH [OF s1 this] obtain S where "removal E (f x p) S (fold f xs (f x p))" by blast
  from removal_trans [OF r this] show ?case by auto
qed

lemma sound_pruned:
  assumes s: "sound E p" and pr: "pruned p q"
  shows "sound E q"
proof -
  note h = soundD [OF s] and c = pruned_consistent [OF soundD(1) [OF s] pr]
  obtain m where "q = p\<lparr>senders := m\<rparr> \<and> (\<forall>s. mget m s = mget (senders p) s \<or>
      (mget m s = None \<and> (\<exists>r. mget (senders p) s = Some r \<and> isEmpty (heap p r))))"
    using pr unfolding pruned_def by (rule exE)
  then have q: "q = p\<lparr>senders := m\<rparr>" and m: "mget m t = mget (senders p) t \<or> mget m t = None" for t by metis+
  have "sender_inv q ss" if "sview q t = Some ss" for t ss
  proof -
    have "sview p t = Some ss" using that m [of t] by (auto simp: q sview_def)
    from h(2) [OF this] show ?thesis by (simp add: q)
  qed
  moreover have "within q" "config_ok q" using h(3,5) by (simp_all add: q within_def config_ok_def)
  moreover have "priorities_ok q" using h(4) c(2) by (simp add: priorities_ok_def)
  ultimately show ?thesis using c(1) h(6,7) by (simp add: sound_def q)
qed

lemma cleanUp_collect_post:
  assumes s: "sound E p" and q: "cleanUp_collect p = (q, ss)"
  shows "removal E p [] q" and "t \<in> set ss \<longleftrightarrow> (\<exists>v. sview q t = Some v)"
proof -
  let ?f = "\<lambda>(s, r) m. if isEmpty (heap p r) then mdel m s else m"
  have f: "mget (fold ?f xs m) t = (if \<exists>r. (t, r) \<in> set xs \<and> isEmpty (heap p r) then None else mget m t)" for xs m t
    by (induction xs arbitrary: m) auto
  have qe: "q = p\<lparr>senders := fold ?f (mitems (senders p)) (senders p)\<rparr>" using q by (simp add: cleanUp_collect_def)
  have g: "mget (fold ?f (mitems (senders p)) (senders p)) t =
    (case mget (senders p) t of None \<Rightarrow> None | Some r \<Rightarrow> if isEmpty (heap p r) then None else Some r)" for t
    unfolding f by (auto simp: gm.items_iff split: option.split)
  have pr: "pruned p q" unfolding pruned_def qe
    by (rule exI [of _ "fold ?f (mitems (senders p)) (senders p)"]) (auto simp: g split: option.split)
  show "removal E p [] q"
    using sound_pruned [OF s pr] pruned_consistent(2) [OF soundD(1) [OF s] pr]
    by (intro removal_quiet) (simp_all add: qe evs_def static_def)
  show "t \<in> set ss \<longleftrightarrow> (\<exists>v. sview q t = Some v)"
    using q by (force simp: cleanUp_collect_def sview_def g gm.items_iff split: option.splits if_splits)
qed

lemma gapSince_quiet:
  assumes s: "sound E p" and r: "mget (senders p) t = Some r"
  shows "removal E p [] (updSender p r (\<lambda>ss. ss\<lparr>gapSince := g\<rparr>))"
proof (rule removal_quiet)
  show "sound E (updSender p r (\<lambda>ss. ss\<lparr>gapSince := g\<rparr>))"
    using soundD(9) [OF s r] by (intro sound_scalar [OF s r]) simp_all
  show "held (updSender p r (\<lambda>ss. ss\<lparr>gapSince := g\<rparr>)) = held p"
    by (rule updScalar(2) [OF soundD(1) [OF s] r]) simp_all
qed simp_all

lemma removeAllQueued_sound:
  assumes s: "sound E p" and r: "mget (senders p) t = Some r" and q: "removeAllQueuedLocked p r = (q, R)"
  shows "sound E q" and "local_step E r p R q"
proof -
  note st = removeAllQueued_step [OF soundD(1) [OF s] r q]
  show "local_step E r p R q" by (rule st(1))
  have "priorities_ok q"
    using soundD(4) [OF s] accounted_le [OF local_stepD(3) [OF st(1)]] by (force simp: priorities_ok_def map_le_def)
  then show "sound E q"
    using soundD(8) [OF s] st(3)
    by (intro sound_queue_upd [OF s r local_stepD(1,2) [OF st(1)] st(2)]) (simp_all add: gm.len_card)
qed

lemma expireQueuedGap_step:
  assumes s: "sound E p" and r: "mget (senders p) t = Some r" and q: "expireQueuedGapLocked p r now = (q, R)"
  shows "removal E p R (enqueueRemovedEvents E q R) \<and> senders q = senders p"
proof -
  let ?p0 = "updSender p r (\<lambda>ss. ss\<lparr>gapSince := None\<rparr>)"
  note g = gapSince_quiet [OF s r]
  have quiet: "enqueueRemovedEvents E x [] = x" for x :: "'a PriorityMempool" by (simp add: enqueueRemovedEvents_def)
  have expired: ?thesis if "removeAllQueuedLocked ?p0 r = (q, R)"
  proof -
    have g0: "removal E p [] ?p0" by (rule g)
    have "sound E ?p0" "mget (senders ?p0) t = Some r" using g0 r by (simp_all add: removal_def)
    note st = removeAllQueued_sound [OF this that]
    note o = onlyD [OF local_stepD(2) [OF st(2)]]
    have "removal E ?p0 R (enqueueRemovedEvents E q R)"
      by (rule removal_enqueue [OF st(1) local_stepD(3) [OF st(2)]]) (simp_all add: o)
    from removal_trans [OF g0 this] show ?thesis using o(1) by simp
  qed
  have same: "removal E p [] p" by (rule removal_quiet) (simp_all add: s)
  show ?thesis
    using q expired g same
    by (auto simp: expireQueuedGapLocked_def Let_def quiet split: if_splits option.splits)
qed

lemma cleanUp_sender_post:
  assumes s: "sound E p" and sk: "skiplist_ok E"
  shows "\<exists>R. removal E p R (cleanUp_sender E now t seq p)"
proof (cases "mget (senders p) t")
  case None
  then show ?thesis using removal_quiet [of E p p] s by (auto simp: cleanUp_sender_def)
next
  case (Some r)
  obtain p1 R1 where r1: "removeStaleLocked E (updSender p r (\<lambda>ss. setOnChainSeqLocked ss seq)) r seq = (p1, R1)" by fastforce
  define p2 where "p2 = enqueueRemovedEvents E p1 R1"
  obtain p3 R2 where r2: "expireQueuedGapLocked p2 r now = (p3, R2)" by fastforce
  define p4 where "p4 = enqueueRemovedEvents E p3 R2"
  note ad = advance_step [OF soundD(1) [OF s] sk Some r1]
  have m1: "removal E p R1 p2" unfolding p2_def
    using leavesD(1,2) [OF ad(2)] ad(3)
    by (intro removal_enqueue [OF sound_advanced(1) [OF s Some ad] ad(4)]) simp_all
  have sn: "mget (senders p2) t = Some r"
    using Some ad(5) noisyD(4) [OF loggedD [OF enqueueRemoved_logged [of E p1 R1]]] by (simp add: p2_def)
  have s2: "sound E p2" using m1 by (simp add: removal_def)
  have m2: "removal E p2 R2 p4" using expireQueuedGap_step [OF s2 sn r2] by (simp add: p4_def)
  then have s4: "sound E p4" by (simp add: removal_def)
  note cl = cleanup_step [OF soundD(1) [OF s4], of t]
  have m3: "removal E p4 [] (cleanupSenderLocked p4 t)"
    using sound_cleanup [OF s4] leavesD(1,2) [OF cl(5)] cl(2,4) by (intro removal_quiet) simp_all
  have "cleanUp_sender E now t seq p = cleanupSenderLocked p4 t"
    using Some r1 r2 by (simp add: cleanUp_sender_def p2_def p4_def)
  with removal_trans [OF removal_trans [OF m1 m2] m3] show ?thesis by auto
qed

lemma cleanUp_stale_post:
  assumes "sound E p" and sk: "skiplist_ok E"
  shows "\<exists>R. removal E p R (cleanUp_stale E now seqs p)"
  unfolding cleanUp_stale_def by (rule removal_fold [OF assms(1)]) (auto intro: cleanUp_sender_post [OF _ sk])

lemma RemoveWithReason_removal:
  assumes s: "sound E p" and sk: "skiplist_ok E" and n: "\<And>k. txKeyFromTx E tx = Inr k \<Longrightarrow> nonce k < 2 ^ 64 - 1"
  shows "\<exists>R. removal E p R (fst (RemoveWithReason E p tx reason))"
proof (cases "txKeyFromTx E tx")
  case (Inl err)
  then show ?thesis using removal_quiet [of E p p] s by (auto simp: RemoveWithReason_def)
next
  case (Inr k)
  obtain p1 R where r: "removeByReasonLocked E p (sender k) (nonce k) reason
      (if reason = RemovalReasonCommittedInBlock then u64 (nonce k + 1) else 0)
      (reason = RemovalReasonCommittedInBlock) = (p1, R)" by fastforce
  note rp = removeByReason_post [OF s sk n [OF Inr] r]
  have "fst (RemoveWithReason E p tx reason) = enqueueRemovedEvents E p1 R"
    using Inr r by (auto simp: RemoveWithReason_def enqueueRemovedEvents_def)
  then show ?thesis using removal_enqueue [OF rp(1,4)] leavesD(1,2) [OF rp(2)] rp(3) by auto
qed

lemma cleanUp_remove_post:
  assumes "sound E p" and sk: "skiplist_ok E"
    and n: "\<And>e k. e \<in> set es \<Longrightarrow> txKeyFromTx E (e_tx e) = Inr k \<Longrightarrow> nonce k < 2 ^ 64 - 1"
  shows "\<exists>R. removal E p R (cleanUp_remove E es p)"
  unfolding cleanUp_remove_def
  by (rule removal_fold [OF assms(1)]) (rule RemoveWithReason_removal [OF _ sk n])

end
