(* ===== verification/Mempool_Invariant.thy ===== *)
theory Mempool_Invariant
  imports Mempool_Ops
begin

text \<open>
  Model of \<open>abcipp/mempool_invariant.go\<close>: the run-time check \<open>ValidateInvariants\<close> of the mempool,
  with one error constructor per message, and the proof that it finds nothing in a sound pool.
  The checks for nil pointers are left out: a sender state, its maps and its entries are values
  here. Pointer comparison of entries is comparison of the values.
\<close>

section \<open>Operations\<close>

datatype invariant_error =
    ErrEmptyActiveRange string nat nat
  | ErrActiveRange string nat nat
  | ErrActiveMinMissing string nat
  | ErrActiveMaxMissing string nat
  | ErrActiveGap string nat nat nat
  | ErrTailOrder string int int
  | ErrEmptyQueuedRange string nat nat
  | ErrQueuedRange string nat nat
  | ErrQueuedMinMissing string nat
  | ErrQueuedMaxMissing string nat
  | ErrNextExpected string nat nat
  | ErrActiveKey string nat
  | ErrActiveQueuedTier string nat
  | ErrActiveOrder string nat int int
  | ErrActiveNotGlobal string nat
  | ErrActiveGlobalDiffers string nat
  | ErrActiveAndQueued string nat
  | ErrRankPriority string nat int int
  | ErrRankOrder string nat int int
  | ErrQueuedKey string nat
  | ErrQueuedGlobal string nat
  | ErrQueuedOutside string nat nat nat
  | ErrActiveCount nat nat
  | ErrIndexCount nat nat
  | ErrGlobalNoSender string nat
  | ErrGlobalNotActive string nat
  | ErrQueuedCount nat int

text \<open>A sequence of checks that stops at the first error, and a check of every element.\<close>

fun firstOf :: "'e option list \<Rightarrow> 'e option" where
  "firstOf [] = None"
| "firstOf (c # cs) = (case c of Some err \<Rightarrow> Some err | None \<Rightarrow> firstOf cs)"

definition failIf :: "bool \<Rightarrow> 'e \<Rightarrow> 'e option" where
  "failIf b err = (if b then Some err else None)"

definition checkActiveRange :: "string \<Rightarrow> senderState \<Rightarrow> invariant_error option" where
  "checkActiveRange s ss =
     (if mlen (active ss) = 0
      then failIf (activeMin ss \<noteq> 0 \<or> activeMax ss \<noteq> 0) (ErrEmptyActiveRange s (activeMin ss) (activeMax ss))
      else firstOf
        ([failIf (activeMin ss > activeMax ss) (ErrActiveRange s (activeMin ss) (activeMax ss)),
          failIf (mget (active ss) (activeMin ss) = None) (ErrActiveMinMissing s (activeMin ss)),
          failIf (mget (active ss) (activeMax ss) = None) (ErrActiveMaxMissing s (activeMax ss))] @
         map (\<lambda>n. failIf (mget (active ss) n = None) (ErrActiveGap s n (activeMin ss) (activeMax ss)))
           (nonceRange (activeMin ss) (activeMax ss)) @
         [case mget (active ss) (activeMax ss) of
            None \<Rightarrow> Some (ErrActiveMaxMissing s (activeMax ss))
          | Some tail \<Rightarrow>
              failIf (e_clampedOrder tail > e_order tail) (ErrTailOrder s (e_clampedOrder tail) (e_order tail))]))"

definition checkQueuedRange :: "string \<Rightarrow> senderState \<Rightarrow> invariant_error option" where
  "checkQueuedRange s ss =
     (if mlen (queued ss) = 0
      then failIf (queuedMin ss \<noteq> 0 \<or> queuedMax ss \<noteq> 0) (ErrEmptyQueuedRange s (queuedMin ss) (queuedMax ss))
      else firstOf
        [failIf (queuedMin ss > queuedMax ss) (ErrQueuedRange s (queuedMin ss) (queuedMax ss)),
         failIf (mget (queued ss) (queuedMin ss) = None) (ErrQueuedMinMissing s (queuedMin ss)),
         failIf (mget (queued ss) (queuedMax ss) = None) (ErrQueuedMaxMissing s (queuedMax ss))])"

definition checkNextExpected :: "string \<Rightarrow> senderState \<Rightarrow> invariant_error option" where
  "checkNextExpected s ss =
     (let expectedNext = (if mlen (active ss) > 0 then max (onChainSeq ss) (u64 (activeMax ss + 1)) else onChainSeq ss);
          nx = nextExpectedNonce ss
      in failIf (nx \<noteq> expectedNext) (ErrNextExpected s nx expectedNext))"

definition checkActiveEntry ::
    "'s PriorityMempool \<Rightarrow> string \<Rightarrow> senderState \<Rightarrow> nat \<times> txEntry \<Rightarrow> invariant_error option" where
  "checkActiveEntry p s ss = (\<lambda>(n, e). firstOf
     [failIf (sender (e_key e) \<noteq> s \<or> nonce (e_key e) \<noteq> n) (ErrActiveKey s n),
      failIf (e_tier e = queuedTier) (ErrActiveQueuedTier s n),
      failIf (e_clampedOrder e > e_order e) (ErrActiveOrder s n (e_clampedOrder e) (e_order e)),
      (case mget (entries p) (e_key e) of
         None \<Rightarrow> Some (ErrActiveNotGlobal s n)
       | Some global \<Rightarrow> failIf (global \<noteq> e) (ErrActiveGlobalDiffers s n)),
      failIf (mget (queued ss) n \<noteq> None) (ErrActiveAndQueued s n)])"

text \<open>The loop over the nonces after \<open>activeMin\<close>: sender-local rank must not improve.\<close>

definition checkRank :: "string \<Rightarrow> senderState \<Rightarrow> nat \<Rightarrow> invariant_error option" where
  "checkRank s ss n =
     (case (mget (active ss) n, mget (active ss) (n - 1)) of
        (Some cur, Some prev) \<Rightarrow> firstOf
          [failIf (e_clampedPriority cur > e_clampedPriority prev)
             (ErrRankPriority s n (e_clampedPriority cur) (e_clampedPriority prev)),
           failIf (e_clampedPriority cur = e_clampedPriority prev \<and> e_clampedOrder cur < e_clampedOrder prev)
             (ErrRankOrder s n (e_clampedOrder cur) (e_clampedOrder prev))]
      | _ \<Rightarrow> None)"

definition checkQueuedEntry ::
    "'s PriorityMempool \<Rightarrow> string \<Rightarrow> senderState \<Rightarrow> nat \<times> txEntry \<Rightarrow> invariant_error option" where
  "checkQueuedEntry p s ss = (\<lambda>(n, e). firstOf
     [failIf (sender (e_key e) \<noteq> s \<or> nonce (e_key e) \<noteq> n) (ErrQueuedKey s n),
      failIf (mget (entries p) (e_key e) \<noteq> None) (ErrQueuedGlobal s n),
      failIf (n < queuedMin ss \<or> n > queuedMax ss) (ErrQueuedOutside s n (queuedMin ss) (queuedMax ss))])"

definition checkSender :: "'s PriorityMempool \<Rightarrow> string \<times> nat \<Rightarrow> invariant_error option" where
  "checkSender p = (\<lambda>(s, r).
     let ss = heap p r in firstOf
       ([checkActiveRange s ss, checkQueuedRange s ss, checkNextExpected s ss] @
        map (checkActiveEntry p s ss) (mitems (active ss)) @
        map (checkRank s ss) (nonceRange (u64 (activeMin ss + 1)) (activeMax ss)) @
        map (checkQueuedEntry p s ss) (mitems (queued ss))))"

definition checkGlobalEntry :: "'s PriorityMempool \<Rightarrow> txKey \<times> txEntry \<Rightarrow> invariant_error option" where
  "checkGlobalEntry p = (\<lambda>(k, e).
     case mget (senders p) (sender k) of
       None \<Rightarrow> Some (ErrGlobalNoSender (sender k) (nonce k))
     | Some r \<Rightarrow> failIf (mget (active (heap p r)) (nonce k) \<noteq> Some e) (ErrGlobalNotActive (sender k) (nonce k)))"

definition ValidateInvariants :: "'s PriorityMempool \<Rightarrow> invariant_error option" where
  "ValidateInvariants p =
     (let totalActive = (\<Sum>x\<leftarrow>mitems (senders p). mlen (active (heap p (snd x))));
          totalQueued = (\<Sum>x\<leftarrow>mitems (senders p). mlen (queued (heap p (snd x))))
      in firstOf
        (map (checkSender p) (mitems (senders p)) @
         [failIf (totalActive \<noteq> mlen (entries p)) (ErrActiveCount totalActive (mlen (entries p))),
          failIf (length (priorityIndex p) \<noteq> mlen (entries p)) (ErrIndexCount (length (priorityIndex p)) (mlen (entries p)))] @
         map (checkGlobalEntry p) (mitems (entries p)) @
         [failIf (int totalQueued \<noteq> queuedCount p) (ErrQueuedCount totalQueued (queuedCount p))]))"

text \<open>\<open>AssertInvariant\<close> panics with the error; the model is whether it returns.\<close>

definition AssertInvariant :: "'s PriorityMempool \<Rightarrow> bool" where
  "AssertInvariant p \<longleftrightarrow> ValidateInvariants p = None"

section \<open>The check passes on sound pools\<close>

lemma firstOf_None [simp]: "firstOf cs = None \<longleftrightarrow> (\<forall>c\<in>set cs. c = None)"
  by (induction cs) (auto split: option.split)

declare firstOf.simps [simp del]

lemma failIf_None [simp]: "failIf b err = None \<longleftrightarrow> \<not> b"
  by (simp add: failIf_def)

lemma checkActiveRange_ok:
  assumes s: "sound E p" and r: "mget (senders p) t = Some r"
  shows "checkActiveRange t (heap p r) = None"
proof -
  have core: "sender_core E p t (heap p r)" using consistentD(6) [OF soundD(1) [OF s] sview_Some [OF r]] .
  then have ok: "range_ok (active (heap p r)) (activeMin (heap p r)) (activeMax (heap p r))" by (simp add: sender_core_def)
  note i = soundD(9) [OF s r]
  show ?thesis
  proof (cases "mlen (active (heap p r)) = 0")
    case True
    then show ?thesis using ok by (simp add: checkActiveRange_def gm.len_0 range_ok_def)
  next
    case False
    then have b: "activeMin (heap p r) \<in> mdom (active (heap p r))" "activeMax (heap p r) \<in> mdom (active (heap p r))"
      "activeMin (heap p r) \<le> activeMax (heap p r)"
      using ok by (auto simp: range_ok_def gm.len_0)
    then obtain tl where tl: "mget (active (heap p r)) (activeMax (heap p r)) = Some tl" by auto
    have "e_clampedOrder tl \<le> e_order tl" using core tl by (auto simp: sender_core_def entry_active_def)
    moreover have "mget (active (heap p r)) n \<noteq> None"
      if "activeMin (heap p r) \<le> n" "n \<le> activeMax (heap p r)" for n
      using sinvD(1) [OF i b(1,2) that] by auto
    ultimately show ?thesis using False b tl by (auto simp: checkActiveRange_def nonceRange_def)
  qed
qed

lemma checkQueuedRange_ok: "sender_core E p t ss \<Longrightarrow> checkQueuedRange t ss = None"
  by (auto simp: checkQueuedRange_def sender_core_def range_ok_def gm.len_0 split: if_splits)

lemma checkActiveEntry_ok:
  assumes c: "consistent E p" and r: "mget (senders p) t = Some r" and e: "mget (active (heap p r)) n = Some e"
  shows "checkActiveEntry p t (heap p r) (n, e) = None"
proof -
  have core: "sender_core E p t (heap p r)" using consistentD(6) [OF c sview_Some [OF r]] .
  have st: "entry_static E t n e" "entry_active p e" using core e by (auto simp: sender_core_def)
  then have "mget (entries p) (e_key e) = Some e" using entries_of [OF c r, of "e_key e"] e by (simp add: entry_static_def)
  then show ?thesis
    using st sender_core_disjoint [OF core e] by (auto simp: checkActiveEntry_def entry_static_def entry_active_def queuedTier_def)
qed

lemma checkQueuedEntry_ok:
  assumes c: "consistent E p" and r: "mget (senders p) t = Some r" and e: "mget (queued (heap p r)) n = Some e"
  shows "checkQueuedEntry p t (heap p r) (n, e) = None"
proof -
  have core: "sender_core E p t (heap p r)" using consistentD(6) [OF c sview_Some [OF r]] .
  have st: "entry_static E t n e" using core e by (auto simp: sender_core_def)
  have "mget (active (heap p r)) n = None"
    using sender_core_disjoint [OF core, of n] e by (cases "mget (active (heap p r)) n") auto
  then have "mget (entries p) (e_key e) = None" using entries_of [OF c r, of "e_key e"] st by (simp add: entry_static_def)
  moreover have "range_ok (queued (heap p r)) (queuedMin (heap p r)) (queuedMax (heap p r))"
    using core by (simp add: sender_core_def)
  ultimately show ?thesis
    using st range_okD [of "queued (heap p r)" _ _ n e] e by (force simp: checkQueuedEntry_def entry_static_def)
qed

lemma checkRank_ok:
  assumes s: "sound E p" and r: "mget (senders p) t = Some r" and n: "0 < n"
  shows "checkRank t (heap p r) n = None"
proof -
  have "rankWorse (e_clampedPriority b) (e_clampedOrder b) a"
    if "mget (active (heap p r)) (n - 1) = Some a" "mget (active (heap p r)) n = Some b" for a b
    using sinvD(5) [OF soundD(9) [OF s r] _ that] n by simp
  then show ?thesis by (fastforce simp: checkRank_def rankWorse_def split: option.split)
qed

lemma checkSender_ok:
  assumes s: "sound E p" and r: "mget (senders p) t = Some r"
  shows "checkSender p (t, r) = None"
proof -
  have c: "consistent E p" by (rule soundD(1) [OF s])
  have core: "sender_core E p t (heap p r)" using consistentD(6) [OF c sview_Some [OF r]] .
  have u: "u64 (Suc (activeMin (heap p r))) = Suc (activeMin (heap p r))"
  proof -
    have "activeMin (heap p r) < 2 ^ 64 - 1"
      using core by (auto simp: sender_core_def range_ok_def entry_static_def split: if_splits)
    then show ?thesis by (simp add: u64_def)
  qed
  have "checkNextExpected t (heap p r) = None" by (simp add: checkNextExpected_def nextExpectedNonce_def Let_def)
  then show ?thesis
    using checkActiveRange_ok [OF s r] checkQueuedRange_ok [OF core] checkActiveEntry_ok [OF c r]
      checkQueuedEntry_ok [OF c r] checkRank_ok [OF s r]
    by (auto simp: checkSender_def Let_def gm.items_iff u nonceRange_def)
qed

lemma active_total:
  assumes c: "consistent E p"
  shows "(\<Sum>x\<leftarrow>mitems (senders p). mlen (active (heap p (snd x)))) = mlen (entries p)"
proof -
  let ?A = "\<lambda>s. mdom (active (heap p (the (mget (senders p) s))))"
  have "(\<Sum>x\<leftarrow>mitems (senders p). mlen (active (heap p (snd x)))) = (\<Sum>s\<in>mdom (senders p). card (?A s))"
    using gm.sum_items [of "\<lambda>s r. mlen (active (heap p r))" "senders p"] by (simp add: gm.len_card)
  also have "\<dots> = card (SIGMA s:mdom (senders p). ?A s)" by (simp add: card_SigmaI)
  also have "\<dots> = card (mdom (entries p))"
  proof (rule bij_betw_same_card)
    let ?S = "SIGMA s:mdom (senders p). ?A s"
    have m: "(s, n) \<in> ?S \<longleftrightarrow> \<lparr>sender = s, nonce = n\<rparr> \<in> mdom (entries p)" for s n
      using consistentD(2) [OF c] by (auto simp: entries_ok_def sview_def domIff split: option.split)
    have "(\<lambda>(s, n). \<lparr>sender = s, nonce = n\<rparr>) ` ?S \<subseteq> mdom (entries p)"
      by (rule image_subsetI) (metis (no_types, lifting) m case_prod_conv surj_pair)
    moreover have "(\<lambda>k. (sender k, nonce k)) ` mdom (entries p) \<subseteq> ?S"
      by (rule image_subsetI) (simp only: m key_eta)
    ultimately show "bij_betw (\<lambda>(s, n). \<lparr>sender = s, nonce = n\<rparr>) ?S (mdom (entries p))"
      by (intro bij_betw_byWitness [where f' = "\<lambda>k. (sender k, nonce k)"]) simp_all
  qed
  finally show ?thesis by (simp add: gm.len_card)
qed

lemma index_total:
  assumes c: "consistent E p"
  shows "length (priorityIndex p) = mlen (entries p)"
proof -
  have i: "index_sorted compareEntries (priorityIndex p)" "set (priorityIndex p) = ran (mget (entries p))"
    using consistentD(3) [OF c] by (simp_all add: index_ok_def)
  have "length (priorityIndex p) = card (ran (mget (entries p)))"
    using distinct_card [OF ce.index_sorted_distinct [OF i(1)]] i(2) by simp
  also have "ran (mget (entries p)) = (\<lambda>k. the (mget (entries p) k)) ` mdom (entries p)"
    by (force simp: ran_def)
  also have "card \<dots> = card (mdom (entries p))"
  proof (rule card_image, rule inj_onI)
    fix k l assume "k \<in> mdom (entries p)" "l \<in> mdom (entries p)" "the (mget (entries p) k) = the (mget (entries p) l)"
    then show "k = l" using entries_ok_key(1) [OF c, of k] entries_ok_key(1) [OF c, of l] by auto
  qed
  finally show ?thesis by (simp add: gm.len_card)
qed

lemma ValidateInvariants_sound:
  assumes s: "sound E p"
  shows "ValidateInvariants p = None"
proof -
  have c: "consistent E p" by (rule soundD(1) [OF s])
  have "int (\<Sum>x\<leftarrow>mitems (senders p). mlen (queued (heap p (snd x)))) = queuedTotal p"
    using gm.sum_items [of "\<lambda>s r. mlen (queued (heap p r))" "senders p"]
    by (simp add: queuedTotal_def dom_sview) (auto simp: sview_def intro!: sum.cong)
  then have q: "int (\<Sum>x\<leftarrow>mitems (senders p). mlen (queued (heap p (snd x)))) = queuedCount p"
    using consistentD(4) [OF c] by simp
  have "checkGlobalEntry p (k, e) = None" if "mget (entries p) k = Some e" for k e
    using that by (auto simp: checkGlobalEntry_def entries_iff [OF c] sview_def)
  then show ?thesis
    using checkSender_ok [OF s] active_total [OF c] index_total [OF c] q
    by (auto simp: ValidateInvariants_def Let_def gm.items_iff)
qed

end
