(* ===== verification/Mempool_Machine.thy ===== *)
theory Mempool_Machine
  imports Mempool_Events Mempool_Invariant
begin

text \<open>
  The mempool as a state machine. A node is the pool with its two event dispatchers and what they
  have delivered. A step is one critical section of one of the mempool's callers or one move of a
  dispatcher, in any order, so the runs of the machine are the interleavings of the goroutines.
  Values that a caller reads outside the lock (account sequences, the senders listed for
  promotion or cleaning, the entries that failed the ante handler) are arbitrary, since other
  steps may have come in between.
\<close>

section \<open>Steps and runs\<close>

record 's node =
  pool :: "'s PriorityMempool"
  cometD :: dispatcher
  appD :: dispatcher
  cometSent :: "AppMempoolEvent list"
  appSent :: "AppMempoolEvent list"

datatype label = L_Insert | L_Remove | L_Promote nat | L_Clean | L_Wire | L_Stop | L_Comet | L_App

definition boot :: "'s PriorityMempoolConfig \<Rightarrow> 's node" where
  "boot c = \<lparr>pool = NewPriorityMempool c, cometD = Waiting, appD = Waiting, cometSent = [], appSent = []\<rparr>"

text \<open>
  \<open>dec\<close> is the transaction decoder: the bytes given to \<open>Insert\<close> are those the transaction was
  decoded from. Nonces stay below \<open>2 ^ 64 - 1\<close> and an insertion or promotion needs as many unused
  values of the order counter as it may take.
\<close>

inductive step :: "'s env \<Rightarrow> (bytes \<Rightarrow> sdk_tx) \<Rightarrow> 's node \<Rightarrow> label \<Rightarrow> 's node \<Rightarrow> bool"
  for E :: "'s env" and dec :: "bytes \<Rightarrow> sdk_tx" where
  step_Insert: "dec bz = tx \<Longrightarrow> tx_ok E ctx tx key gas \<Longrightarrow> ctx_TxBytes ctx = bz \<Longrightarrow>
    orderSeq (pool n) + 1 + maxQueuedPerSender (pool n) < 2 ^ 63 \<Longrightarrow>
    Insert_locked E ctx (pool n) tx key bz gas fetched = (q, err) \<Longrightarrow> step E dec n L_Insert (n\<lparr>pool := q\<rparr>)"
| step_Remove: "txKeyFromTx E tx = Inr key \<Longrightarrow> nonce key < 2 ^ 64 - 1 \<Longrightarrow>
    RemoveWithReason E (pool n) tx reason = (q, err) \<Longrightarrow> step E dec n L_Remove (n\<lparr>pool := q\<rparr>)"
| step_Promote: "orderSeq (pool n) + int (length seqs) * maxQueuedPerSender (pool n) < 2 ^ 63 \<Longrightarrow>
    PromoteQueued_locked E ctx (pool n) seqs ss = q \<Longrightarrow> step E dec n (L_Promote (length seqs)) (n\<lparr>pool := q\<rparr>)"
| step_Collect: "cleanUp_collect (pool n) = (q, ss) \<Longrightarrow> step E dec n L_Clean (n\<lparr>pool := q\<rparr>)"
| step_Stale: "cleanUp_stale E now seqs (pool n) = q \<Longrightarrow> step E dec n L_Clean (n\<lparr>pool := q\<rparr>)"
| step_SetEventCh: "step E dec n L_Wire (n\<lparr>pool := SetEventCh (pool n)\<rparr>)"
| step_SetAppEventCh: "step E dec n L_Wire (n\<lparr>pool := SetAppEventCh (pool n)\<rparr>)"
| step_Stop: "step E dec n L_Stop (n\<lparr>pool := StopEventDispatch (pool n)\<rparr>)"
| step_Comet: "(q, d, sent) \<in> set (cometDispatchLoop (pool n) (cometD n)) \<Longrightarrow>
    step E dec n L_Comet (n\<lparr>pool := q, cometD := d, cometSent := cometSent n @ (case sent of None \<Rightarrow> [] | Some ev \<Rightarrow> [ev])\<rparr>)"
| step_App: "(q, d, sent) \<in> set (appDispatchLoop (pool n) (appD n)) \<Longrightarrow>
    step E dec n L_App (n\<lparr>pool := q, appD := d, appSent := appSent n @ (case sent of None \<Rightarrow> [] | Some ev \<Rightarrow> [ev])\<rparr>)"

inductive runs :: "'s env \<Rightarrow> (bytes \<Rightarrow> sdk_tx) \<Rightarrow> 's node \<Rightarrow> label list \<Rightarrow> 's node \<Rightarrow> bool"
  for E :: "'s env" and dec :: "bytes \<Rightarrow> sdk_tx" where
  runs_Nil: "runs E dec n [] n"
| runs_snoc: "runs E dec n ls n' \<Longrightarrow> step E dec n' l n'' \<Longrightarrow> runs E dec n (ls @ [l]) n''"

section \<open>The invariant of the machine\<close>

definition decoded :: "(bytes \<Rightarrow> sdk_tx) \<Rightarrow> 's PriorityMempool \<Rightarrow> bool" where
  "decoded dec p \<longleftrightarrow> (\<forall>k tx bz pr. held p k = Some (tx, bz, pr) \<longrightarrow> tx = dec bz)"

definition awake_pool :: "'s PriorityMempool \<Rightarrow> dispatcher \<Rightarrow> dispatcher \<Rightarrow> bool" where
  "awake_pool p c a \<longleftrightarrow>
     awake (eventCh p) c (cometNotify p) (cometQueue p) \<and> awake (appEventCh p) a (appNotify p) (appQueue p) \<and>
     (c = Exited \<or> a = Exited \<longrightarrow> eventStop p)"

definition node_ok :: "'s env \<Rightarrow> (bytes \<Rightarrow> sdk_tx) \<Rightarrow> 's node \<Rightarrow> bool" where
  "node_ok E dec n \<longleftrightarrow> sound E (pool n) \<and> decoded dec (pool n) \<and> awake_pool (pool n) (cometD n) (appD n)"

text \<open>Wiring and dispatching leave the pool proper alone.\<close>

definition rewired :: "'s PriorityMempool \<Rightarrow> 's PriorityMempool \<Rightarrow> bool" where
  "rewired p q \<longleftrightarrow> (\<exists>ec ac st cq aq cn an. q = p\<lparr>eventCh := ec, appEventCh := ac, eventStop := st,
     cometQueue := cq, appQueue := aq, cometNotify := cn, appNotify := an\<rparr>)"

lemma rewiredI:
  "q = p\<lparr>eventCh := eventCh q, appEventCh := appEventCh q, eventStop := eventStop q,
    cometQueue := cometQueue q, appQueue := appQueue q, cometNotify := cometNotify q, appNotify := appNotify q\<rparr> \<Longrightarrow>
   rewired p q"
  unfolding rewired_def by (intro exI)

lemma rewiredD:
  assumes "rewired p q"
  shows "held q = held p" "sound E q = sound E p" "static q = static p" "senders q = senders p" "heap q = heap p"
    "entries q = entries p" "orderSeq q = orderSeq p"
proof -
  obtain ec ac st cq aq cn an where q: "q = p\<lparr>eventCh := ec, appEventCh := ac, eventStop := st,
     cometQueue := cq, appQueue := aq, cometNotify := cn, appNotify := an\<rparr>"
    using assms unfolding rewired_def by (elim exE)
  have sv: "sview q = sview p" by (simp add: q sview_def fun_eq_iff)
  show hd: "held q = held p" by (simp add: held_def sv fun_eq_iff)
  show "static q = static p" "senders q = senders p" "heap q = heap p" "entries q = entries p" "orderSeq q = orderSeq p"
    by (simp_all add: q static_def)
  have "consistent E q = consistent E p"
    by (simp add: consistent_def sv entries_ok_def queuedTotal_def) (simp add: q heap_ok_def sender_core_def
        entry_active_def index_ok_def tier_ok_def tierTotal_def tierName_def)
  moreover have "within q = within p" "config_ok q = config_ok p" by (simp_all add: q within_def config_ok_def)
  moreover have "priorities_ok q = priorities_ok p" by (simp add: priorities_ok_def hd)
  ultimately show "sound E q = sound E p" by (simp add: sound_def sv) (simp add: q)
qed

lemma rewired_ops:
  "rewired p (SetEventCh p)" "rewired p (SetAppEventCh p)" "rewired p (StopEventDispatch p)"
  "(q, d, sent) \<in> set (cometDispatchLoop p c) \<Longrightarrow> rewired p q"
  "(q, d, sent) \<in> set (appDispatchLoop p c) \<Longrightarrow> rewired p q"
  by (rule rewiredI, auto simp: SetEventCh_def SetAppEventCh_def StopEventDispatch_def cometDispatchLoop_def
      appDispatchLoop_def)+

lemma dispatchMoves_exit: "(Exited, n', q', sent) \<in> set (dispatchMoves stop ch d n q) \<Longrightarrow> stop"
  by (auto simp: dispatchMoves_def split: dispatcher.splits list.splits if_splits)

lemma awake_ops:
  assumes "awake_pool p c a"
  shows "awake_pool (SetEventCh p) c a" "awake_pool (SetAppEventCh p) c a" "awake_pool (StopEventDispatch p) c a"
    "(q, d, sent) \<in> set (cometDispatchLoop p c) \<Longrightarrow> awake_pool q d a"
    "(q, d, sent) \<in> set (appDispatchLoop p a) \<Longrightarrow> awake_pool q c d"
  using assms
  by (auto simp: awake_pool_def SetEventCh_def SetAppEventCh_def StopEventDispatch_def cometDispatchLoop_def
      appDispatchLoop_def dest: dispatchMoves_awake dispatchMoves_exit) (auto simp: awake_def)

lemma awake_append:
  "awake ch d n q \<Longrightarrow> (c \<longrightarrow> ch) \<Longrightarrow> awake ch d (n \<or> (c \<and> es \<noteq> [])) (q @ (if c then es else []))"
  by (auto simp: awake_def)

lemma awake_emitted:
  assumes e: "emitted p evts q" and a: "awake_pool p c a"
  shows "awake_pool q c a"
proof -
  let ?es = "filter (\<lambda>ev. ev_Type ev \<noteq> EventTxQueued) evts"
  have "awake (eventCh p) c (cometNotify p \<or> ((eventCh p \<and> \<not> eventStop p) \<and> ?es \<noteq> []))
      (cometQueue p @ (if eventCh p \<and> \<not> eventStop p then ?es else []))"
    "awake (appEventCh p) a (appNotify p \<or> ((appEventCh p \<and> \<not> eventStop p) \<and> evts \<noteq> []))
      (appQueue p @ (if appEventCh p \<and> \<not> eventStop p then evts else []))"
    using a by (auto simp only: awake_pool_def intro!: awake_append)
  moreover have "c = Exited \<or> a = Exited \<longrightarrow> eventStop p" using a by (simp add: awake_pool_def)
  ultimately show ?thesis using e unfolding emitted_def awake_pool_def by (simp only: conj_assoc)
qed

text \<open>What a critical section does to the pool: it may add one decoded entry and reports events.\<close>

lemma changes_from:
  assumes "changes E p new evts q" and "held q k = Some v"
  shows "held p k = Some v \<or> new = Some (k, v)"
proof (cases new)
  case None
  obtain R :: "txEntry list" where "held q = held p |` (- e_key ` set R)"
    using assms(1) [unfolded changes_def None option.case] by (elim exE conjE) (erule that)
  then show ?thesis using assms(2) by (auto simp: restrict_map_def split: if_splits)
next
  case (Some a)
  obtain k' tx bz pr where a: "a = (k', tx, bz, pr)" by (cases a)
  obtain R :: "txEntry list" where "held q = (held p |` (- e_key ` set R))(k' \<mapsto> (tx, bz, pr))"
    using assms(1) [unfolded changes_def Some a option.case prod.case] by (elim exE conjE) (erule that)
  then show ?thesis using assms(2) Some a by (auto simp: restrict_map_def split: if_splits)
qed

lemma op_ok_node:
  assumes "op_ok E (pool n) new evts q" and "node_ok E dec n" and "\<And>k tx bz pr. new = Some (k, tx, bz, pr) \<Longrightarrow> dec bz = tx"
  shows "node_ok E dec (n\<lparr>pool := q\<rparr>)"
proof -
  have "tx = dec bz" if "held q k = Some (tx, bz, pr)" for k tx bz pr
  proof -
    have "changes E (pool n) new evts q" "decoded dec (pool n)" using assms(1,2) by (simp_all add: op_ok_def node_ok_def)
    from changes_from [OF this(1) that] this(2) assms(3) show ?thesis unfolding decoded_def by metis
  qed
  then have "decoded dec q" by (simp add: decoded_def)
  then show ?thesis using assms awake_emitted by (auto simp: node_ok_def op_ok_def)
qed

lemma rewired_node:
  "node_ok E dec n \<Longrightarrow> rewired (pool n) q \<Longrightarrow> awake_pool q c a \<Longrightarrow> node_ok E dec (n\<lparr>pool := q, cometD := c, appD := a\<rparr>)"
  using rewiredD [of "pool n" q] by (simp add: node_ok_def decoded_def)

lemma step_node_ok:
  assumes "step E dec n l n'" and sk: "skiplist_ok E" and ok: "node_ok E dec n"
  shows "node_ok E dec n'"
proof -
  have aw: "awake_pool (pool n) (cometD n) (appD n)" using ok by (simp add: node_ok_def)
  show ?thesis using assms(1)
  proof cases
    case (step_Insert bz tx ctx key gas fetched q err)
    have s: "sound E (pool n)" using ok by (simp add: node_ok_def)
    have "insert_post E (pool n) key (tx, bz, ctx_Priority ctx) q err"
      by (rule Insert_locked_post [OF s sk]) (use step_Insert in simp_all)
    then obtain new evts where "op_ok E (pool n) new evts q" "new = None \<or> new = Some (key, tx, bz, ctx_Priority ctx)"
      unfolding insert_post_def by (auto split: if_splits)
    then show ?thesis using op_ok_node [OF _ ok] step_Insert by auto
  next
    case (step_Remove tx key reason q err)
    have s: "sound E (pool n)" using ok by (simp add: node_ok_def)
    obtain R where "op_ok E (pool n) None (removedEvents E R) q"
      using RemoveWithReason_post(1) [OF s sk] step_Remove by metis
    then show ?thesis using op_ok_node [OF _ ok] step_Remove by auto
  next
    case (step_Promote seqs ctx ss q)
    have s: "sound E (pool n)" using ok by (simp add: node_ok_def)
    note pp = PromoteQueued_locked_post [OF s sk step_Promote(3,4)]
    then obtain P R where a: "accounted (pool n) R q" and em: "emitted (pool n) (removedEvents E R @ insertedEvents E P) q"
      by (elim conjE exE)
    have "decoded dec q"
      unfolding decoded_def
    proof (intro allI impI)
      fix k tx bz pr assume "held q k = Some (tx, bz, pr)"
      then have "held (pool n) k = Some (tx, bz, pr)" using accounted_le [OF a] by (force simp: map_le_def)
      then show "tx = dec bz" using ok unfolding node_ok_def decoded_def by blast
    qed
    then show ?thesis using pp awake_emitted [OF em] ok unfolding step_Promote(2) by (simp add: node_ok_def)
  next
    case (step_Collect q ss)
    then show ?thesis using op_ok_node [OF removal_op_ok [OF cleanUp_collect_post(1)] ok] ok by (simp add: node_ok_def)
  next
    case (step_Stale now seqs q)
    have s: "sound E (pool n)" using ok by (simp add: node_ok_def)
    from cleanUp_stale_post [OF s sk] obtain R where "removal E (pool n) R (cleanUp_stale E now seqs (pool n))" by blast
    from op_ok_node [OF removal_op_ok [OF this] ok] step_Stale show ?thesis by simp
  next
    case step_SetEventCh
    then show ?thesis using rewired_node [OF ok rewired_ops(1) awake_ops(1) [OF aw]] by (simp add: node_ok_def)
  next
    case step_SetAppEventCh
    then show ?thesis using rewired_node [OF ok rewired_ops(2) awake_ops(2) [OF aw]] by (simp add: node_ok_def)
  next
    case step_Stop
    then show ?thesis using rewired_node [OF ok rewired_ops(3) awake_ops(3) [OF aw]] by (simp add: node_ok_def)
  next
    case (step_Comet q d sent)
    then show ?thesis using rewired_node [OF ok rewired_ops(4) awake_ops(4) [OF aw]] by (simp add: node_ok_def)
  next
    case (step_App q d sent)
    then show ?thesis using rewired_node [OF ok rewired_ops(5) awake_ops(5) [OF aw]] by (simp add: node_ok_def)
  qed
qed

lemma boot_ok:
  assumes "cfg_Tiers c = []"
  shows "node_ok E dec (boot c)"
proof -
  let ?p = "NewPriorityMempool c"
  have sv: "sview ?p s = None" for s by (simp add: NewPriorityMempool_def Let_def)
  have hd: "held ?p k = None" for k by (simp add: held_def sv del: sview_None)
  have "length (tiers ?p) = 1" using assms by (simp add: NewPriorityMempool_def Let_def buildTierMatchers_def)
  moreover have "0 < maxQueuedPerSender ?p" by (simp add: NewPriorityMempool_def Let_def DefaultMaxQueuedPerSender_def)
  moreover have "within ?p" "0 \<le> orderSeq ?p" "orderSeq ?p < 2 ^ 63"
    by (simp_all add: within_def NewPriorityMempool_def Let_def gm.len_card)
  ultimately have "sound E ?p"
    using new_consistent [of E c] sv hd by (simp add: sound_def config_ok_def priorities_ok_def del: sview_None)
  moreover have "awake_pool ?p Waiting Waiting" by (simp add: awake_pool_def awake_def NewPriorityMempool_def Let_def)
  ultimately show ?thesis using hd by (simp add: node_ok_def decoded_def boot_def)
qed

lemma runs_node_ok: "runs E dec n ls n' \<Longrightarrow> skiplist_ok E \<Longrightarrow> node_ok E dec n \<Longrightarrow> node_ok E dec n'"
  by (induction rule: runs.induct) (auto intro: step_node_ok)

lemma runs_Cons: "step E dec n l n1 \<Longrightarrow> runs E dec n1 ls n2 \<Longrightarrow> runs E dec n (l # ls) n2"
proof (rotate_tac 1, induction rule: runs.induct)
  case (runs_Nil n1)
  then show ?case using runs.runs_snoc [OF runs.runs_Nil, of E dec n l n1] by simp
next
  case (runs_snoc n1 ls n' l' n'')
  then show ?case using runs.runs_snoc [of E dec n "l # ls" n' l' n''] by simp
qed

lemma step_static:
  assumes "step E dec n l n'" and sk: "skiplist_ok E" and ok: "node_ok E dec n"
  shows "static (pool n') = static (pool n)"
proof -
  have s: "sound E (pool n)" using ok by (simp add: node_ok_def)
  show ?thesis using assms(1)
  proof cases
    case (step_Insert bz tx ctx key gas fetched q err)
    have "insert_post E (pool n) key (tx, bz, ctx_Priority ctx) q err"
      by (rule Insert_locked_post [OF s sk]) (use step_Insert in simp_all)
    then show ?thesis using step_Insert(2) by (auto simp: insert_post_def op_ok_def split: if_splits)
  next
    case (step_Remove tx key reason q err)
    then show ?thesis using RemoveWithReason_post(1) [OF s sk step_Remove(3-5)] by (auto simp: op_ok_def)
  next
    case (step_Promote seqs ctx ss q)
    then show ?thesis using PromoteQueued_locked_post [OF s sk step_Promote(3,4)] by simp
  next
    case (step_Collect q ss)
    then show ?thesis using cleanUp_collect_post(1) [OF s step_Collect(3)] by (simp add: removal_def)
  next
    case (step_Stale now seqs q)
    then show ?thesis using cleanUp_stale_post [OF s sk, of now seqs] by (auto simp: removal_def)
  qed (auto dest: rewiredD(3) [OF rewired_ops(4)] rewiredD(3) [OF rewired_ops(5)] simp: rewiredD(3) [OF rewired_ops(1)]
      rewiredD(3) [OF rewired_ops(2)] rewiredD(3) [OF rewired_ops(3)])
qed

lemma runs_static: "runs E dec n ls n' \<Longrightarrow> skiplist_ok E \<Longrightarrow> node_ok E dec n \<Longrightarrow> static (pool n') = static (pool n)"
  by (induction rule: runs.induct) (auto dest: step_static intro: runs_node_ok)

section \<open>Replaying the events\<close>

text \<open>
  What a consumer of the app channel knows: the set of transactions that its events have put in
  and not taken out. \<open>eventLog\<close> is every event of the app channel so far, delivered or not.
\<close>

definition applyEvent :: "AppMempoolEvent \<Rightarrow> bytes set \<Rightarrow> bytes set" where
  "applyEvent ev S = (case ev_Type ev of EventTxRemoved \<Rightarrow> S - {ev_Tx ev} | _ \<Rightarrow> insert (ev_Tx ev) S)"

definition replay :: "AppMempoolEvent list \<Rightarrow> bytes set \<Rightarrow> bytes set" where
  "replay evts = fold applyEvent evts"

definition poolBytes :: "'s PriorityMempool \<Rightarrow> bytes set" where
  "poolBytes p = {bz. \<exists>k tx pr. held p k = Some (tx, bz, pr)}"

definition eventLog :: "'s node \<Rightarrow> AppMempoolEvent list" where
  "eventLog n = appSent n @ inflight (appD n) @ appQueue (pool n)"

lemma replay_append: "replay (a @ b) S = replay b (replay a S)"
  by (simp add: replay_def)

lemma applyEvent_mono: "S \<subseteq> T \<Longrightarrow> applyEvent ev S \<subseteq> applyEvent ev T"
  by (auto simp: applyEvent_def split: AppMempoolEventType.split)

lemma replay_mono: "S \<subseteq> T \<Longrightarrow> replay evts S \<subseteq> replay evts T"
  unfolding replay_def by (induction evts arbitrary: S T) (simp_all add: applyEvent_mono)

lemma replay_removed: "replay (removedEvents E R) S = S - e_bytes ` set R"
  unfolding replay_def by (induction R arbitrary: S) (auto simp: applyEvent_def mkEvent_def)

lemma replay_added: "\<forall>ev\<in>set N. ev_Type ev \<noteq> EventTxRemoved \<Longrightarrow> replay N S = S \<union> ev_Tx ` set N"
  unfolding replay_def
  by (induction N arbitrary: S) (auto simp: applyEvent_def split: AppMempoolEventType.splits)

lemma replay_inserted: "replay (insertedEvents E P) S = S \<union> e_bytes ` set P"
  by (subst replay_added) (simp_all add: mkEvent_def image_image)

lemma held_key:
  assumes s: "sound E p" and h: "held p k = Some (tx, bz, pr)"
  shows "txKeyFromTx E tx = Inr k"
proof -
  obtain ss where ss: "sview p (sender k) = Some ss" "sheld ss (nonce k) = Some (tx, bz, pr)"
    using h by (auto simp: held_def split: option.splits)
  have core: "sender_core E p (sender k) ss" by (rule consistentD(6) [OF soundD(1) [OF s] ss(1)])
  obtain e where e: "mget (active ss) (nonce k) = Some e \<or> mget (queued ss) (nonce k) = Some e" "e_tx e = tx"
    using ss(2) by (auto simp: sheld_def ident_def split: option.splits)
  then have "entry_static E (sender k) (nonce k) e" using core by (auto simp: sender_core_def)
  then show ?thesis using e(2) by (simp add: entry_static_def)
qed

lemma same_bytes:
  assumes "sound E p" and "decoded dec p" and "held p k = Some (tx, bz, pr)" and "held p k' = Some (tx', bz, pr')"
  shows "k = k'"
proof -
  have "tx = tx'" using assms(2-4) unfolding decoded_def by metis
  then show ?thesis using held_key [OF assms(1,3)] held_key [OF assms(1,4)] by simp
qed

lemma poolBytes_restrict:
  assumes s: "sound E p" "decoded dec p" and R: "\<forall>x\<in>set R. held p (e_key x) = Some (ident x)"
  shows "poolBytes p - e_bytes ` set R = {bz. \<exists>k tx pr. (held p |` (- e_key ` set R)) k = Some (tx, bz, pr)}"
proof (intro equalityI subsetI)
  fix bz assume "bz \<in> poolBytes p - e_bytes ` set R"
  then obtain k tx pr where k: "held p k = Some (tx, bz, pr)" "bz \<notin> e_bytes ` set R" by (auto simp: poolBytes_def)
  have "k \<notin> e_key ` set R" using k R by (auto simp: ident_def)
  then show "bz \<in> {bz. \<exists>k tx pr. (held p |` (- e_key ` set R)) k = Some (tx, bz, pr)}" using k(1) by (auto simp: restrict_map_def)
next
  fix bz assume "bz \<in> {bz. \<exists>k tx pr. (held p |` (- e_key ` set R)) k = Some (tx, bz, pr)}"
  then obtain k tx pr where k: "held p k = Some (tx, bz, pr)" "k \<notin> e_key ` set R"
    by (auto simp: restrict_map_def split: if_splits)
  have "bz \<noteq> e_bytes x" if x: "x \<in> set R" for x
  proof
    assume "bz = e_bytes x"
    then have "held p (e_key x) = Some (e_tx x, bz, e_priority x)" using R x by (simp add: ident_def)
    from same_bytes [OF s k(1) this] k(2) x show False by blast
  qed
  then show "bz \<in> poolBytes p - e_bytes ` set R" using k(1) by (auto simp: poolBytes_def)
qed

lemma bytes_upd:
  assumes "m k = None"
  shows "{bz. \<exists>k' tx pr. (m(k \<mapsto> (t, b, r))) k' = Some (tx, bz, pr)} = insert b {bz. \<exists>k' tx pr. m k' = Some (tx, bz, pr)}"
proof (intro equalityI subsetI)
  fix bz assume "bz \<in> insert b {bz. \<exists>k' tx pr. m k' = Some (tx, bz, pr)}"
  then consider "bz = b" | k' tx pr where "m k' = Some (tx, bz, pr)" "k' \<noteq> k" using assms by fastforce
  then show "bz \<in> {bz. \<exists>k' tx pr. (m(k \<mapsto> (t, b, r))) k' = Some (tx, bz, pr)}"
  proof cases
    case 1
    then show ?thesis by (auto intro!: exI [of _ k])
  next
    case (2 k' tx pr)
    then show ?thesis by (auto intro!: exI [of _ k'])
  qed
qed (auto split: if_splits)

lemma changes_replay:
  assumes s: "sound E p" "decoded dec p" and c: "changes E p new evts q"
  shows "replay evts (poolBytes p) = poolBytes q"
proof -
  obtain R N where e: "evts = removedEvents E R @ N"
    and N: "\<forall>ev\<in>set N. ev_Type ev \<noteq> EventTxRemoved \<and> (\<exists>k tx pr. held q k = Some (tx, ev_Tx ev, pr))"
    and R: "\<forall>x\<in>set R. held p (e_key x) = Some (ident x)"
    and q: "case new of None \<Rightarrow> held q = held p |` (- e_key ` set R)
      | Some (k, tx, bz, pr) \<Rightarrow> held q = (held p |` (- e_key ` set R))(k \<mapsto> (tx, bz, pr)) \<and>
             (held p k \<noteq> None \<longrightarrow> k \<in> e_key ` set R) \<and> (\<exists>ev\<in>set N. ev_Tx ev = bz)"
    using c [unfolded changes_def] by (elim exE conjE)
  define kept where "kept = {bz. \<exists>k tx pr. (held p |` (- e_key ` set R)) k = Some (tx, bz, pr)}"
  have r: "replay evts (poolBytes p) = kept \<union> ev_Tx ` set N"
    using N unfolding e by (simp add: replay_append replay_removed replay_added poolBytes_restrict [OF s R] kept_def)
  have n: "ev_Tx ` set N \<subseteq> poolBytes q" using N by (auto simp: poolBytes_def)
  show ?thesis
  proof (cases new)
    case None
    then have "kept = poolBytes q" using q by (simp add: poolBytes_def kept_def)
    then show ?thesis using r n by blast
  next
    case (Some a)
    obtain k tx bz pr where a: "a = (k, tx, bz, pr)" by (cases a)
    have h: "held q = (held p |` (- e_key ` set R))(k \<mapsto> (tx, bz, pr))" "(held p |` (- e_key ` set R)) k = None"
      and b: "bz \<in> ev_Tx ` set N"
      using q Some a by (auto simp: restrict_map_def)
    have "poolBytes q = insert bz kept" unfolding poolBytes_def kept_def h(1) by (rule bytes_upd) (rule h(2))
    then show ?thesis using r n b by blast
  qed
qed

definition calm :: "label \<Rightarrow> bool" where
  "calm l \<longleftrightarrow> (case l of L_Promote k \<Rightarrow> k \<le> 1 | _ \<Rightarrow> True)"

lemma promote_replay:
  assumes s: "sound E p" "decoded dec p" and a: "accounted p R q"
  shows "poolBytes q \<subseteq> replay (removedEvents E R @ insertedEvents E P) (poolBytes p)"
    and "\<forall>x\<in>set P. held q (e_key x) = Some (ident x) \<Longrightarrow>
      replay (removedEvents E R @ insertedEvents E P) (poolBytes p) = poolBytes q"
proof -
  have R: "\<forall>x\<in>set R. held p (e_key x) = Some (ident x)" and q: "held q = held p |` (- e_key ` set R)"
    using a by (simp_all add: accounted_def)
  have r: "replay (removedEvents E R @ insertedEvents E P) (poolBytes p) = poolBytes q \<union> e_bytes ` set P"
    unfolding replay_append replay_removed replay_inserted poolBytes_restrict [OF s R] by (simp add: poolBytes_def q)
  then show "poolBytes q \<subseteq> replay (removedEvents E R @ insertedEvents E P) (poolBytes p)" by simp
  assume "\<forall>x\<in>set P. held q (e_key x) = Some (ident x)"
  then have "e_bytes ` set P \<subseteq> poolBytes q" by (force simp: poolBytes_def ident_def)
  then show "replay (removedEvents E R @ insertedEvents E P) (poolBytes p) = poolBytes q" using r by blast
qed

definition step_events :: "'s node \<Rightarrow> label \<Rightarrow> 's node \<Rightarrow> AppMempoolEvent list \<Rightarrow> bool" where
  "step_events n l n' evts \<longleftrightarrow>
     appEventCh (pool n') \<and> \<not> eventStop (pool n) \<and> eventLog n' = eventLog n @ evts \<and>
     poolBytes (pool n') \<subseteq> replay evts (poolBytes (pool n)) \<and>
     (calm l \<longrightarrow> replay evts (poolBytes (pool n)) = poolBytes (pool n'))"

lemma op_ok_events:
  assumes "op_ok E (pool n) new evts q" and "node_ok E dec n" and "appEventCh (pool n)" and "\<not> eventStop (pool n)"
  shows "step_events n l (n\<lparr>pool := q\<rparr>) evts"
  using assms changes_replay [of E "pool n" dec new evts q]
  by (simp add: step_events_def eventLog_def op_ok_def emitted_def node_ok_def)

lemma rewired_events:
  assumes "rewired (pool n) q" and "appSent n' @ inflight (appD n') @ appQueue q = eventLog n" and "pool n' = q"
    and "appEventCh q" and "\<not> eventStop (pool n)"
  shows "step_events n l n' []"
proof -
  have "poolBytes q = poolBytes (pool n)" using rewiredD(1) [OF assms(1)] by (simp add: poolBytes_def)
  then show ?thesis using assms(2-5) by (simp add: step_events_def eventLog_def replay_def)
qed

lemma step_view:
  assumes st: "step E dec n l n'" and sk: "skiplist_ok E" and ok: "node_ok E dec n"
    and ch: "appEventCh (pool n)" and ns: "\<not> eventStop (pool n')"
  shows "\<exists>evts. step_events n l n' evts"
proof -
  have s: "sound E (pool n)" and d: "decoded dec (pool n)" using ok by (simp_all add: node_ok_def)
  have op: ?thesis if "op_ok E (pool n) new evts q" "n' = n\<lparr>pool := q\<rparr>" for new evts q
    using op_ok_events [OF that(1) ok ch] that ns by (auto simp: op_ok_def emitted_def)
  show ?thesis using st
  proof cases
    case (step_Insert bz tx ctx key gas fetched q err)
    have "insert_post E (pool n) key (tx, bz, ctx_Priority ctx) q err"
      by (rule Insert_locked_post [OF s sk]) (use step_Insert in simp_all)
    then show ?thesis using op step_Insert(2) unfolding insert_post_def by (cases "err = None") auto
  next
    case (step_Remove tx key reason q err)
    then show ?thesis using RemoveWithReason_post(1) [OF s sk step_Remove(3-5)] op by blast
  next
    case (step_Promote seqs ctx ss q)
    from PromoteQueued_locked_post [OF s sk step_Promote(3,4)] obtain P R where a: "accounted (pool n) R q"
      and one: "length seqs \<le> 1 \<longrightarrow> (\<forall>x\<in>set P. held q (e_key x) = Some (ident x))"
      and em: "emitted (pool n) (removedEvents E R @ insertedEvents E P) q" by (elim conjE exE)
    have "eventLog n' = eventLog n @ (removedEvents E R @ insertedEvents E P)"
      using em ch ns by (simp add: step_Promote(2) eventLog_def emitted_def)
    moreover have "appEventCh q" "\<not> eventStop (pool n)" using em ch ns by (simp_all add: step_Promote(2) emitted_def)
    ultimately have "step_events n l n' (removedEvents E R @ insertedEvents E P)"
      using promote_replay [OF s d a, of P] one unfolding step_events_def by (simp add: step_Promote(1,2) calm_def)
    then show ?thesis by blast
  next
    case (step_Collect q ss)
    then show ?thesis using op [OF removal_op_ok [OF cleanUp_collect_post(1) [OF s]]] by simp
  next
    case (step_Stale now seqs q)
    then show ?thesis using cleanUp_stale_post [OF s sk, of now seqs] op removal_op_ok by metis
  next
    case step_SetEventCh
    show ?thesis
      by (intro exI [of _ "[]"] rewired_events [OF rewired_ops(1)])
        (use step_SetEventCh ch ns in \<open>simp_all add: SetEventCh_def eventLog_def split: if_splits\<close>)
  next
    case step_SetAppEventCh
    show ?thesis
      by (intro exI [of _ "[]"] rewired_events [OF rewired_ops(2)])
        (use step_SetAppEventCh ch ns in \<open>simp_all add: SetAppEventCh_def eventLog_def split: if_splits\<close>)
  next
    case step_Stop
    show ?thesis
      by (intro exI [of _ "[]"] rewired_events [OF rewired_ops(3)])
        (use step_Stop ch ns in \<open>simp_all add: StopEventDispatch_def eventLog_def split: if_splits\<close>)
  next
    case (step_Comet q d sent)
    show ?thesis
      by (intro exI [of _ "[]"] rewired_events [OF rewired_ops(4) [OF step_Comet(3)]])
        (use step_Comet ch ns in \<open>auto simp: cometDispatchLoop_def eventLog_def\<close>)
  next
    case (step_App q d sent)
    then have c: "\<not> eventStop (pool n)" "appEventCh q" using ns ch by (auto simp: appDispatchLoop_def)
    with step_App have "appSent n' @ inflight (appD n') @ appQueue q = eventLog n"
      by (auto simp: appDispatchLoop_def eventLog_def dest!: dispatchMoves_fifo)
    then have "step_events n l n' []"
      by (rule rewired_events [OF rewired_ops(5) [OF step_App(3)]]) (use step_App(2) c in simp_all)
    then show ?thesis by blast
  qed
qed

lemma step_stopped:
  assumes "step E dec n l n'" and sk: "skiplist_ok E" and ok: "node_ok E dec n"
  shows "eventStop (pool n) \<Longrightarrow> eventStop (pool n')"
proof -
  have s: "sound E (pool n)" using ok by (simp add: node_ok_def)
  show "eventStop (pool n) \<Longrightarrow> eventStop (pool n')" using assms(1)
  proof cases
    case (step_Insert bz tx ctx key gas fetched q err)
    assume "eventStop (pool n)"
    moreover have "insert_post E (pool n) key (tx, bz, ctx_Priority ctx) q err"
      by (rule Insert_locked_post [OF s sk]) (use step_Insert in simp_all)
    ultimately show ?thesis using step_Insert(2) by (auto simp: insert_post_def op_ok_def emitted_def split: if_splits)
  next
    case (step_Remove tx key reason q err)
    assume "eventStop (pool n)"
    then show ?thesis
      using step_Remove RemoveWithReason_post(1) [OF s sk step_Remove(3-5)] by (auto simp: op_ok_def emitted_def)
  next
    case (step_Promote seqs ctx ss q)
    assume "eventStop (pool n)"
    then show ?thesis
      using step_Promote(2) PromoteQueued_locked_post [OF s sk step_Promote(3,4)] by (auto simp: emitted_def)
  next
    case (step_Collect q ss)
    assume "eventStop (pool n)"
    then show ?thesis using step_Collect(2) cleanUp_collect_post(1) [OF s step_Collect(3)] by (auto simp: removal_def emitted_def)
  next
    case (step_Stale now seqs q)
    assume "eventStop (pool n)"
    then show ?thesis
      using step_Stale cleanUp_stale_post [OF s sk, of now seqs] by (auto simp: removal_def emitted_def)
  qed (auto simp: SetEventCh_def SetAppEventCh_def StopEventDispatch_def cometDispatchLoop_def appDispatchLoop_def)
qed

lemma runs_view:
  assumes "runs E dec n ls n'" and "skiplist_ok E" and "node_ok E dec n" and "appEventCh (pool n)"
    and "replay (eventLog n) {} = poolBytes (pool n)" and "\<not> eventStop (pool n')"
  shows "appEventCh (pool n') \<and> poolBytes (pool n') \<subseteq> replay (eventLog n') {} \<and>
    ((\<forall>l\<in>set ls. calm l) \<longrightarrow> replay (eventLog n') {} = poolBytes (pool n'))"
  using assms
proof (induction rule: runs.induct)
  case (runs_snoc n ls n' l n'')
  have ok: "node_ok E dec n'" by (rule runs_node_ok [OF runs_snoc.hyps(1) runs_snoc.prems(1,2)])
  have stop: "\<not> eventStop (pool n')" if "step_events n' l n'' evts" for evts using that by (simp add: step_events_def)
  have "appEventCh (pool n')"
  proof (rule ccontr)
    assume no: "\<not> appEventCh (pool n')"
    then have "eventStop (pool n')" using runs_snoc.IH [OF runs_snoc.prems(1-4)] by blast
    then have "eventStop (pool n'')" using step_stopped [OF runs_snoc.hyps(2) runs_snoc.prems(1) ok] by simp
    then show False using runs_snoc.prems(5) by simp
  qed
  from step_view [OF runs_snoc.hyps(2) runs_snoc.prems(1) ok this runs_snoc.prems(5)]
  obtain evts where ev: "step_events n' l n'' evts" by blast
  note ih = runs_snoc.IH [OF runs_snoc.prems(1-4) stop [OF ev]]
  have e: "replay (eventLog n'') {} = replay evts (replay (eventLog n') {})"
    using ev by (simp add: step_events_def replay_append)
  have "poolBytes (pool n'') \<subseteq> replay (eventLog n'') {}"
    using ev ih replay_mono [of "poolBytes (pool n')" "replay (eventLog n') {}" evts] unfolding e step_events_def by blast
  moreover have "replay (eventLog n'') {} = poolBytes (pool n'')" if "\<forall>l\<in>set (ls @ [l]). calm l"
    using ev ih that unfolding e step_events_def by simp
  ultimately show ?case using ev by (simp add: step_events_def)
qed simp

text \<open>The app dispatcher alone delivers all that is pending.\<close>

lemma drains_runs:
  assumes "drains d b q out d' b' q'" and "appD n = d" and "appNotify (pool n) = b" and "appQueue (pool n) = q"
    and "appEventCh (pool n)" and "\<not> eventStop (pool n)"
  shows "\<exists>ls n'. runs E dec n ls n' \<and> set ls \<subseteq> {L_App} \<and> appSent n' = appSent n @ out \<and> appD n' = d' \<and>
    appQueue (pool n') = q' \<and> poolBytes (pool n') = poolBytes (pool n)"
  using assms
proof (induction arbitrary: n rule: drains.induct)
  case (drains_refl d b q)
  then show ?case by (intro exI [of _ "[]"] exI [of _ n]) (auto intro: runs_Nil)
next
  case (drains_move d1 b1 q1 sent d b q out d' b' q')
  let ?n1 = "n\<lparr>pool := (pool n)\<lparr>appQueue := q1, appNotify := b1\<rparr>, appD := d1,
    appSent := appSent n @ (case sent of None \<Rightarrow> [] | Some ev \<Rightarrow> [ev])\<rparr>"
  have m: "((pool n)\<lparr>appQueue := q1, appNotify := b1\<rparr>, d1, sent) \<in> set (appDispatchLoop (pool n) (appD n))"
    using drains_move.hyps(1) drains_move.prems by (force simp: appDispatchLoop_def)
  have st: "step E dec n L_App ?n1" by (rule step_App [OF m])
  obtain ls n' where "runs E dec ?n1 ls n'" "set ls \<subseteq> {L_App}" "appSent n' = appSent ?n1 @ out" "appD n' = d'"
    "appQueue (pool n') = q'" "poolBytes (pool n') = poolBytes (pool ?n1)"
    using drains_move.IH [of ?n1] drains_move.prems by auto
  moreover have "poolBytes (pool ?n1) = poolBytes (pool n)"
    using rewiredD(1) [OF rewired_ops(5) [OF m]] by (simp add: poolBytes_def)
  ultimately show ?case
    using runs_Cons [OF st] by (intro exI [of _ "L_App # ls"] exI [of _ n']) auto
qed

lemma delivers:
  assumes ok: "node_ok E dec n" and ch: "appEventCh (pool n)" and ns: "\<not> eventStop (pool n)"
  shows "\<exists>ls n'. runs E dec n ls n' \<and> set ls \<subseteq> {L_App} \<and> appSent n' = eventLog n \<and> appD n' = Waiting \<and>
    appQueue (pool n') = [] \<and> poolBytes (pool n') = poolBytes (pool n)"
proof -
  have a: "awake True (appD n) (appNotify (pool n)) (appQueue (pool n))" "appD n \<noteq> Exited"
    using ok ch ns by (auto simp: node_ok_def awake_pool_def)
  from drains_all [OF this] obtain b' where
    "drains (appD n) (appNotify (pool n)) (appQueue (pool n)) (inflight (appD n) @ appQueue (pool n)) Waiting b' []" by blast
  from drains_runs [OF this refl refl refl ch ns, of E dec] show ?thesis by (simp add: eventLog_def)
qed

end
