(* ===== verification/Go_Strings.thy ===== *)
theory Go_Strings
  imports Initia_Prelude
begin

text \<open>
  The parts of Go's \<open>strings\<close> and \<open>encoding/hex\<close> packages that the transaction hash, the address
  decoder and the NFT transfer module use: hexadecimal text, prefixes, and splitting and joining at
  a separator byte. The lemmas are their round trips.
\<close>

section \<open>Hexadecimal text\<close>

definition hexDigit :: "nat \<Rightarrow> char" where
  "hexDigit d = char_of (if d < 10 then 48 + d else 87 + d)"

definition hexEncode :: "bytes \<Rightarrow> string" where
  "hexEncode bs = concat (map (\<lambda>c. [hexDigit (of_char c div 16), hexDigit (of_char c mod 16)]) bs)"

definition toUpper :: "string \<Rightarrow> string" where
  "toUpper s = map (\<lambda>c. if 97 \<le> (of_char c :: nat) \<and> (of_char c :: nat) \<le> 122
                        then char_of (of_char c - 32 :: nat) else c) s"

text \<open>An odd length or a character that is not a hexadecimal digit is a decoding error.\<close>

definition fromHexChar :: "char \<Rightarrow> nat option" where
  "fromHexChar c =
     (let n = of_char c in
      if 48 \<le> n \<and> n \<le> 57 then Some (n - 48)
      else if 97 \<le> n \<and> n \<le> 102 then Some (n - 87)
      else if 65 \<le> n \<and> n \<le> 70 then Some (n - 55)
      else None)"

fun hexDecode :: "string \<Rightarrow> bytes option" where
  "hexDecode [] = Some []"
| "hexDecode [c] = None"
| "hexDecode (c # d # rest) =
     (case (fromHexChar c, fromHexChar d) of
        (Some a, Some b) \<Rightarrow> map_option ((#) (char_of (16 * a + b))) (hexDecode rest)
      | _ \<Rightarrow> None)"

section \<open>Prefixes, split and join\<close>

definition HasPrefix :: "string \<Rightarrow> string \<Rightarrow> bool" where
  "HasPrefix s p \<longleftrightarrow> take (length p) s = p"

definition CutPrefix :: "string \<Rightarrow> string \<Rightarrow> string option" where
  "CutPrefix s p = (if HasPrefix s p then Some (drop (length p) s) else None)"

definition TrimPrefix :: "string \<Rightarrow> string \<Rightarrow> string" where
  "TrimPrefix s p = (if HasPrefix s p then drop (length p) s else s)"

fun Split :: "string \<Rightarrow> char \<Rightarrow> string list" where
  "Split [] c = [[]]"
| "Split (x # s) c =
     (if x = c then [] # Split s c
      else case Split s c of [] \<Rightarrow> [[x]] | w # ws \<Rightarrow> (x # w) # ws)"

text \<open>\<open>strings.SplitN(s, sep, 2)\<close>: at most one cut, at the first separator.\<close>

definition SplitN2 :: "string \<Rightarrow> char \<Rightarrow> string list" where
  "SplitN2 s c =
     (if c \<in> set s then [takeWhile (\<lambda>x. x \<noteq> c) s, tl (dropWhile (\<lambda>x. x \<noteq> c) s)] else [s])"

fun Join :: "string list \<Rightarrow> char \<Rightarrow> string" where
  "Join [] c = []"
| "Join [w] c = w"
| "Join (w # ws) c = w @ c # Join ws c"

section \<open>Lemmas\<close>

lemma nibbles: "(of_char c :: nat) div 16 < 16" "(of_char c :: nat) mod 16 < 16"
proof -
  have "(of_char c :: nat) < 16 * 16" using nat_of_char_less_256 [of c] by simp
  then show "(of_char c :: nat) div 16 < 16" by (rule less_mult_imp_div_less)
qed simp

lemma fromHexChar_hexDigit: "d < 16 \<Longrightarrow> fromHexChar (hexDigit d) = Some d"
  by (simp add: fromHexChar_def hexDigit_def Let_def)

lemma hexDecode_encode: "hexDecode (hexEncode bs) = Some bs"
proof (induction bs)
  case (Cons c bs)
  show ?case using Cons nibbles [of c] by (simp add: hexEncode_def fromHexChar_hexDigit)
qed (simp add: hexEncode_def)

lemma hexDecode_toUpper: "hexDecode (toUpper (hexEncode bs)) = Some bs"
proof (induction bs)
  case (Cons c bs)
  have up: "fromHexChar (if 97 \<le> (of_char (hexDigit d) :: nat) \<and> (of_char (hexDigit d) :: nat) \<le> 122
      then char_of (of_char (hexDigit d) - 32 :: nat) else hexDigit d) = Some d" if "d < 16" for d
    using that by (simp add: fromHexChar_def hexDigit_def Let_def)
  show ?case using Cons up nibbles [of c] by (simp add: hexEncode_def toUpper_def)
qed (simp add: hexEncode_def toUpper_def)

lemma HasPrefix_iff: "HasPrefix s p \<longleftrightarrow> (\<exists>t. s = p @ t)"
  unfolding HasPrefix_def by (metis append_eq_conv_conj append_take_drop_id)

lemma HasPrefix_append [simp]: "HasPrefix (p @ t) p"
  by (simp add: HasPrefix_def)

lemma Split_not_Nil [simp]: "Split s c \<noteq> []"
  by (induction s) (auto split: list.splits)

lemma Join_Cons: "Join (w # ws) c = (if ws = [] then w else w @ c # Join ws c)"
  by (cases ws) simp_all

lemma Join_Split: "Join (Split s c) c = s"
proof (induction s)
  case (Cons x s)
  show ?case using Cons by (cases "Split s c") (auto simp: Join_Cons split: if_splits)
qed simp

lemma Join_append:
  "us \<noteq> [] \<Longrightarrow> ws \<noteq> [] \<Longrightarrow> Join (us @ ws) c = Join us c @ c # Join ws c"
  by (induction us) (auto simp: Join_Cons)

lemma Split_word: "c \<notin> set w \<Longrightarrow> Split w c = [w]"
  by (induction w) auto

lemma Split_append_sep: "c \<notin> set w \<Longrightarrow> Split (w @ c # s) c = w # Split s c"
  by (induction w) auto

lemma Split_words: "w \<in> set (Split s c) \<Longrightarrow> c \<notin> set w"
proof (induction s arbitrary: w)
  case (Cons x s)
  then show ?case by (cases "Split s c") (auto split: if_splits)
qed simp

lemma Split_Join: "ws \<noteq> [] \<Longrightarrow> \<forall>w\<in>set ws. c \<notin> set w \<Longrightarrow> Split (Join ws c) c = ws"
  by (induction ws) (auto simp: Join_Cons Split_word Split_append_sep)

lemma Split_single: "hd (Split s c) = s \<longleftrightarrow> c \<notin> set s"
proof
  assume h: "hd (Split s c) = s"
  have "hd (Split s c) \<in> set (Split s c)" by simp
  then show "c \<notin> set s" using Split_words [of "hd (Split s c)" s c] h by simp
qed (simp add: Split_word)

lemma Join_inj:
  assumes "ws \<noteq> []" and "vs \<noteq> []" and "\<forall>w\<in>set ws. c \<notin> set w" and "\<forall>w\<in>set vs. c \<notin> set w"
    and "Join ws c = Join vs c"
  shows "ws = vs"
  using assms Split_Join by metis

end
