(* ===== verification/Mempool_Query.thy ===== *)
theory Mempool_Query
  imports Mempool_Insert Go_Strings
begin

text \<open>
  Model of \<open>abcipp/mempool_query.go\<close>, the iterator of \<open>abcipp/mempool.go\<close>, \<open>TxHash\<close> of
  \<open>abcipp/utils.go\<close>, and the two queries of \<open>abcipp/query_server.go\<close>.
\<close>

section \<open>Operations\<close>

record TxInfo =
  ti_Sender :: string
  ti_Sequence :: nat
  ti_Size :: int
  ti_GasLimit :: nat
  ti_Tier :: string
  ti_TxBytes :: bytes

record TxInfoEntry =
  tie_Tx :: sdk_tx
  tie_Info :: TxInfo

definition TxHash :: "'s env \<Rightarrow> bytes \<Rightarrow> string" where
  "TxHash E txBytes = toUpper (hexEncode (Tx_Hash E txBytes))"

definition Contains :: "'s env \<Rightarrow> 's PriorityMempool \<Rightarrow> sdk_tx \<Rightarrow> bool" where
  "Contains E p tx =
     (case txKeyFromTx E tx of
        Inl err \<Rightarrow> False
      | Inr key \<Rightarrow>
          (if mget (entries p) key \<noteq> None then True
           else case mget (senders p) (sender key) of
             Some r \<Rightarrow> mget (queued (heap p r)) (nonce key) \<noteq> None
           | None \<Rightarrow> False))"

definition CountTx :: "'s PriorityMempool \<Rightarrow> int" where
  "CountTx p = int (mlen (entries p)) + queuedCount p"

definition GetTxDistribution :: "'s PriorityMempool \<Rightarrow> (string, nat) gomap" where
  "GetTxDistribution p =
     (if queuedCount p > 0 then mput (tierDistribution p) ''queued'' (nat (queuedCount p))
      else tierDistribution p)"

definition infoOf :: "txEntry \<Rightarrow> string \<Rightarrow> TxInfo" where
  "infoOf e tier =
     \<lparr>ti_Sender = sender (e_key e), ti_Sequence = e_sequence e, ti_Size = e_size e,
      ti_GasLimit = e_gas e, ti_Tier = tier, ti_TxBytes = e_bytes e\<rparr>"

record priorityIterator =
  it_entries :: "TxInfoEntry list"
  it_idx :: nat

definition Select :: "'s PriorityMempool \<Rightarrow> priorityIterator option" where
  "Select p =
     (if priorityIndex p = [] then None
      else Some \<lparr>it_entries =
                   map (\<lambda>e. \<lparr>tie_Tx = e_tx e, tie_Info = infoOf e (tierName p (e_tier e))\<rparr>)
                     (priorityIndex p),
                 it_idx = 0\<rparr>)"

definition Next :: "priorityIterator \<Rightarrow> priorityIterator option" where
  "Next it =
     (let it' = it\<lparr>it_idx := it_idx it + 1\<rparr>
      in if it_idx it' \<ge> length (it_entries it') then None else Some it')"

definition Tx :: "priorityIterator \<Rightarrow> sdk_tx option" where
  "Tx it = (if it_idx it \<ge> length (it_entries it) then None
            else Some (tie_Tx (it_entries it ! it_idx it)))"

definition TxInfo_of :: "priorityIterator \<Rightarrow> TxInfo" where
  "TxInfo_of it =
     (if it_idx it \<ge> length (it_entries it)
      then \<lparr>ti_Sender = '''', ti_Sequence = 0, ti_Size = 0, ti_GasLimit = 0, ti_Tier = '''', ti_TxBytes = ''''\<rparr>
      else tie_Info (it_entries it ! it_idx it))"

definition Lookup :: "'s env \<Rightarrow> 's PriorityMempool \<Rightarrow> string \<Rightarrow> nat \<Rightarrow> string option" where
  "Lookup E p s n =
     (case mget (entries p) \<lparr>sender = s, nonce = n\<rparr> of
        Some e \<Rightarrow> Some (TxHash E (e_bytes e))
      | None \<Rightarrow>
          (case mget (senders p) s of
             Some r \<Rightarrow> map_option (\<lambda>e. TxHash E (e_bytes e)) (mget (queued (heap p r)) n)
           | None \<Rightarrow> None))"

definition GetTxInfo :: "'s env \<Rightarrow> 's PriorityMempool \<Rightarrow> sdk_tx \<Rightarrow> mp_error + TxInfo" where
  "GetTxInfo E p tx =
     (case txKeyFromTx E tx of
        Inl err \<Rightarrow> Inl err
      | Inr key \<Rightarrow>
          (case mget (entries p) key of
             Some e \<Rightarrow> Inr (infoOf e (tierName p (e_tier e)))
           | None \<Rightarrow>
               (case mget (senders p) (sender key) of
                  Some r \<Rightarrow>
                    (case mget (queued (heap p r)) (nonce key) of
                       Some e \<Rightarrow> Inr (infoOf e ''queued'')
                     | None \<Rightarrow> Inl ErrTxNotFound)
                | None \<Rightarrow> Inl ErrTxNotFound)))"

definition NextExpectedSequence :: "'s PriorityMempool \<Rightarrow> string \<Rightarrow> nat \<times> bool" where
  "NextExpectedSequence p s =
     (case mget (senders p) s of
        None \<Rightarrow> (0, False)
      | Some r \<Rightarrow> (nextExpectedNonce (heap p r), True))"

text \<open>
  The two iterations collect a slice, sort it by sender and nonce, and call \<open>fn\<close> until it
  returns false; the model returns the arguments of the calls that are made.
\<close>

fun callUntilFalse :: "('a \<Rightarrow> bool) \<Rightarrow> 'a list \<Rightarrow> 'a list" where
  "callUntilFalse fn [] = []"
| "callUntilFalse fn (x # xs) = (if fn x then x # callUntilFalse fn xs else [x])"

definition sortItems :: "(string \<times> nat \<times> sdk_tx) list \<Rightarrow> (string \<times> nat \<times> sdk_tx) list" where
  "sortItems xs = sort_key (\<lambda>(s, n, tx). (s, n)) xs"

definition IteratePendingTxs ::
    "'s PriorityMempool \<Rightarrow> (string \<times> nat \<times> sdk_tx \<Rightarrow> bool) \<Rightarrow> (string \<times> nat \<times> sdk_tx) list" where
  "IteratePendingTxs p fn =
     callUntilFalse fn (sortItems
       [(s, n, e_tx e). (s, r) \<leftarrow> mitems (senders p), (n, e) \<leftarrow> mitems (active (heap p r))])"

definition IterateQueuedTxs ::
    "'s PriorityMempool \<Rightarrow> (string \<times> nat \<times> sdk_tx \<Rightarrow> bool) \<Rightarrow> (string \<times> nat \<times> sdk_tx) list" where
  "IterateQueuedTxs p fn =
     callUntilFalse fn (sortItems
       [(s, n, e_tx e). (s, r) \<leftarrow> mitems (senders p), (n, e) \<leftarrow> mitems (queued (heap p r))])"

end
