(* ===== verification/Abci_Mempool.thy ===== *)
theory Abci_Mempool
  imports Mempool_Ops Mempool_Query
begin

text \<open>
  The interface \<open>Mempool\<close> of \<open>abcipp/interface.go\<close> as the handlers use it: a record of methods on
  a pool of any type, the laws its users rely on as a locale, and the priority mempool as the
  implementation.
\<close>

section \<open>The interface\<close>

text \<open>
  \<open>m_Select\<close> gives the sequence of transactions and infos that the iterator yields until it is
  nil. The removal's error is only logged by the handlers and left out.
\<close>

record 'p Mempool =
  m_Select :: "'p \<Rightarrow> TxInfoEntry list"
  m_Contains :: "'p \<Rightarrow> sdk_tx \<Rightarrow> bool"
  m_RemoveWithReason :: "'p \<Rightarrow> sdk_tx \<Rightarrow> RemovalReason \<Rightarrow> 'p"
  m_Lookup :: "'p \<Rightarrow> string \<Rightarrow> nat \<Rightarrow> string option"
  m_GetTxDistribution :: "'p \<Rightarrow> (string, nat) gomap"

text \<open>The loop \<open>for iter := Select(); iter != nil; iter = iter.Next()\<close> over the pool's iterator.\<close>

function iterAll :: "priorityIterator option \<Rightarrow> TxInfoEntry list" where
  "iterAll None = []"
| "iterAll (Some it) =
     (case Tx it of
        None \<Rightarrow> []
      | Some tx \<Rightarrow> \<lparr>tie_Tx = tx, tie_Info = TxInfo_of it\<rparr> # iterAll (Next it))"
  by pat_completeness auto
termination
  by (relation "measure (\<lambda>x. case x of None \<Rightarrow> 0 | Some it \<Rightarrow> Suc (length (it_entries it) - it_idx it))")
    (auto simp: Next_def Tx_def Let_def split: option.split if_splits)

definition PriorityMempool_iface :: "'s env \<Rightarrow> 's PriorityMempool Mempool" where
  "PriorityMempool_iface E =
     \<lparr>m_Select = (\<lambda>p. iterAll (Select p)), m_Contains = Contains E,
      m_RemoveWithReason = (\<lambda>p tx reason. fst (RemoveWithReason E p tx reason)),
      m_Lookup = Lookup E, m_GetTxDistribution = GetTxDistribution\<rparr>"

section \<open>What the iterator yields\<close>

lemma iterAll_drop:
  "it_idx it \<le> length (it_entries it) \<Longrightarrow> iterAll (Some it) = drop (it_idx it) (it_entries it)"
proof (induction "length (it_entries it) - it_idx it" arbitrary: it)
  case 0
  then show ?case by (simp add: Tx_def)
next
  case (Suc k)
  let ?it = "it\<lparr>it_idx := Suc (it_idx it)\<rparr>"
  have lt: "it_idx it < length (it_entries it)" using Suc.hyps(2) by simp
  have nx: "iterAll (Next it) = drop (Suc (it_idx it)) (it_entries it)"
  proof (cases "Suc (it_idx it) < length (it_entries it)")
    case True
    then have "iterAll (Some ?it) = drop (it_idx ?it) (it_entries ?it)" using Suc.hyps(2) by (intro Suc.hyps(1)) simp_all
    then show ?thesis using True by (simp add: Next_def Let_def del: iterAll.simps(2))
  qed (simp add: Next_def Let_def)
  show ?case using lt nx by (simp add: Tx_def TxInfo_of_def Cons_nth_drop_Suc [symmetric])
qed

lemma Select_all:
  "iterAll (Select p) = map (\<lambda>e. \<lparr>tie_Tx = e_tx e, tie_Info = infoOf e (tierName p (e_tier e))\<rparr>) (priorityIndex p)"
  by (simp add: Select_def iterAll_drop del: iterAll.simps(2))

section \<open>The laws\<close>

text \<open>
  \<open>inv\<close> is the pool's invariant and \<open>key\<close> the sender and sequence a transaction is filed under.
  What a user may rely on: an info describes its transaction, a sender's transactions are
  yielded in order of their sequences, and a transaction that is removed is no longer there.
\<close>

locale mempool_laws =
  fixes M :: "'p Mempool" and inv :: "'p \<Rightarrow> bool" and key :: "sdk_tx \<Rightarrow> txKey option" and hash :: "bytes \<Rightarrow> string"
  assumes select_info: "inv p \<Longrightarrow> i \<in> set (m_Select M p) \<Longrightarrow>
      ti_Size (tie_Info i) = int (length (ti_TxBytes (tie_Info i))) \<and>
      tx_GetGas (tie_Tx i) = Some (ti_GasLimit (tie_Info i)) \<and>
      key (tie_Tx i) = Some \<lparr>sender = ti_Sender (tie_Info i), nonce = ti_Sequence (tie_Info i)\<rparr>"
    and select_order: "inv p \<Longrightarrow> sorted_wrt (\<lambda>i j. ti_Sender (tie_Info i) = ti_Sender (tie_Info j) \<longrightarrow>
      ti_Sequence (tie_Info i) < ti_Sequence (tie_Info j)) (m_Select M p)"
    and select_lookup: "inv p \<Longrightarrow> i \<in> set (m_Select M p) \<Longrightarrow>
      m_Lookup M p (ti_Sender (tie_Info i)) (ti_Sequence (tie_Info i)) = Some (hash (ti_TxBytes (tie_Info i)))"
    and select_short: "inv p \<Longrightarrow> i \<in> set (m_Select M p) \<Longrightarrow> ti_Sequence (tie_Info i) < 2 ^ 64 - 1"
    and remove_inv: "inv p \<Longrightarrow> key tx = Some k \<Longrightarrow> nonce k < 2 ^ 64 - 1 \<Longrightarrow> inv (m_RemoveWithReason M p tx reason)"
    and remove_gone: "inv p \<Longrightarrow> key tx = Some k \<Longrightarrow> nonce k < 2 ^ 64 - 1 \<Longrightarrow>
      reason \<noteq> RemovalReasonCapacityEvicted \<Longrightarrow> m_Lookup M (m_RemoveWithReason M p tx reason) (sender k) (nonce k) = None"
    and remove_others: "inv p \<Longrightarrow> key tx = Some k \<Longrightarrow> nonce k < 2 ^ 64 - 1 \<Longrightarrow>
      m_Lookup M (m_RemoveWithReason M p tx reason) s n = None \<or>
      m_Lookup M (m_RemoveWithReason M p tx reason) s n = m_Lookup M p s n"
    and contains_lookup: "inv p \<Longrightarrow> key tx = Some k \<Longrightarrow>
      m_Contains M p tx \<longleftrightarrow> m_Lookup M p (sender k) (nonce k) \<noteq> None"
    and contains_key: "m_Contains M p tx \<Longrightarrow> key tx \<noteq> None"
begin

lemma remove_not_contains:
  "inv p \<Longrightarrow> key tx = Some k \<Longrightarrow> nonce k < 2 ^ 64 - 1 \<Longrightarrow> reason \<noteq> RemovalReasonCapacityEvicted \<Longrightarrow>
    \<not> m_Contains M (m_RemoveWithReason M p tx reason) tx"
  using remove_gone remove_inv contains_lookup by simp

end

section \<open>The priority mempool keeps the laws\<close>

definition keyOf :: "'s env \<Rightarrow> sdk_tx \<Rightarrow> txKey option" where
  "keyOf E tx = (case txKeyFromTx E tx of Inl err \<Rightarrow> None | Inr k \<Rightarrow> Some k)"

lemma Lookup_held:
  assumes "consistent E p"
  shows "Lookup E p s n = map_option (\<lambda>(tx, bz, pr). TxHash E bz) (held p \<lparr>sender = s, nonce = n\<rparr>)"
proof (cases "mget (senders p) s")
  case None
  then have "mget (entries p) \<lparr>sender = s, nonce = n\<rparr> = None" using consistentD(2) [OF assms] by (simp add: entries_ok_def sview_def)
  then show ?thesis using None by (simp add: Lookup_def held_def sview_def)
next
  case (Some r)
  have "mget (entries p) \<lparr>sender = s, nonce = n\<rparr> = mget (active (heap p r)) n" using entries_of [OF assms Some] by simp
  then show ?thesis
    using Some by (cases "mget (active (heap p r)) n"; cases "mget (queued (heap p r)) n")
      (simp_all add: Lookup_def held_def sheld_def sview_def ident_def)
qed

lemma Contains_held:
  assumes "consistent E p" and "txKeyFromTx E tx = Inr k"
  shows "Contains E p tx \<longleftrightarrow> held p k \<noteq> None"
proof (cases "mget (senders p) (sender k)")
  case None
  then have "mget (entries p) k = None" using consistentD(2) [OF assms(1)] by (simp add: entries_ok_def sview_def)
  then show ?thesis using None assms(2) by (simp add: Contains_def held_def sview_def)
next
  case (Some r)
  have "mget (entries p) k = mget (active (heap p r)) (nonce k)" using entries_of [OF assms(1) Some] by simp
  then show ?thesis
    using Some assms(2) by (auto simp: Contains_def held_def sheld_def sview_def split: option.split)
qed

lemma index_entry:
  assumes s: "sound E p" and e: "e \<in> set (priorityIndex p)"
  obtains r where "mget (senders p) (sender (e_key e)) = Some r" "mget (active (heap p r)) (nonce (e_key e)) = Some e"
    "entry_static E (sender (e_key e)) (nonce (e_key e)) e"
proof -
  have c: "consistent E p" by (rule soundD(1) [OF s])
  have "e \<in> ran (mget (entries p))" using e consistentD(3) [OF c] by (simp add: index_ok_def)
  then obtain k where k: "mget (entries p) k = Some e" by (auto simp: ran_def)
  then have ke: "k = e_key e" using entries_ok_key(1) [OF c k] by simp
  obtain r where r: "mget (senders p) (sender k) = Some r" using entries_ok_key(2) [OF c k] by auto
  have a: "mget (active (heap p r)) (nonce k) = Some e" using entries_of [OF c r refl] k by simp
  have "entry_static E (sender k) (nonce k) e"
    using consistentD(6) [OF c sview_Some [OF r]] a by (simp add: sender_core_def)
  with that r a show ?thesis unfolding ke by blast
qed

lemma index_nonce_order:
  assumes s: "sound E p" and ord: "rankOf a < rankOf b" and a: "a \<in> set (priorityIndex p)" and b: "b \<in> set (priorityIndex p)"
    and sn: "sender (e_key a) = sender (e_key b)"
  shows "nonce (e_key a) < nonce (e_key b)"
proof (rule ccontr)
  assume nl: "\<not> nonce (e_key a) < nonce (e_key b)"
  obtain r where r: "mget (senders p) (sender (e_key a)) = Some r" "mget (active (heap p r)) (nonce (e_key a)) = Some a"
    by (rule index_entry [OF s a])
  obtain r' where r': "mget (senders p) (sender (e_key b)) = Some r'" "mget (active (heap p r')) (nonce (e_key b)) = Some b"
    by (rule index_entry [OF s b])
  have rr: "r' = r" using r(1) r'(1) sn by simp
  show False
  proof (cases "nonce (e_key a) = nonce (e_key b)")
    case True
    then have "a = b" using r(2) r'(2) rr by simp
    then show False using ord by simp
  next
    case False
    then have "rankWorse (e_clampedPriority a) (e_clampedOrder a) b"
      using sinvD(5) [OF soundD(9) [OF s r(1)], of "nonce (e_key b)" "nonce (e_key a)" b a] r(2) r'(2) rr nl by simp
    then show False using ord sn nl False by (auto simp: rankWorse_def rankOf_def less_prod_def')
  qed
qed

lemma Select_order:
  assumes s: "sound E p"
  shows "sorted_wrt (\<lambda>i j. ti_Sender (tie_Info i) = ti_Sender (tie_Info j) \<longrightarrow>
      ti_Sequence (tie_Info i) < ti_Sequence (tie_Info j)) (iterAll (Select p))"
proof -
  have i: "index_sorted compareEntries (priorityIndex p)" using consistentD(3) [OF soundD(1) [OF s]] by (simp add: index_ok_def)
  have sq: "e_sequence e = nonce (e_key e)" if "e \<in> set (priorityIndex p)" for e
    by (rule index_entry [OF s that]) (simp add: entry_static_def)
  have "sorted_wrt (\<lambda>a b. sender (e_key a) = sender (e_key b) \<longrightarrow> e_sequence a < e_sequence b) (priorityIndex p)"
    using i unfolding index_sorted_def
    by (rule sorted_wrt_mono_rel [rotated]) (auto simp: ce.cmp_lt sq intro: index_nonce_order [OF s])
  then show ?thesis by (simp add: Select_all sorted_wrt_map infoOf_def)
qed

lemma RemoveWithReason_held:
  assumes s: "sound E p" and sk: "skiplist_ok E" and k: "txKeyFromTx E tx = Inr k" and n: "nonce k < 2 ^ 64 - 1"
  shows "sound E (fst (RemoveWithReason E p tx reason))"
    and "reason \<noteq> RemovalReasonCapacityEvicted \<Longrightarrow> held (fst (RemoveWithReason E p tx reason)) k = None"
    and "held (fst (RemoveWithReason E p tx reason)) \<subseteq>\<^sub>m held p"
proof -
  obtain q err where q: "RemoveWithReason E p tx reason = (q, err)" by fastforce
  note rp = RemoveWithReason_post [OF s sk k n q]
  show "sound E (fst (RemoveWithReason E p tx reason))" using rp(1) q by (auto simp: op_ok_def)
  show "held (fst (RemoveWithReason E p tx reason)) \<subseteq>\<^sub>m held p" using rp(1) q accounted_le by auto
  show "held (fst (RemoveWithReason E p tx reason)) k = None" if "reason \<noteq> RemovalReasonCapacityEvicted"
    using rp(2) [OF that] q by simp
qed

lemma selected:
  assumes s: "sound E p" and i: "i \<in> set (iterAll (Select p))"
  shows "txKeyFromTx E (tie_Tx i) = Inr \<lparr>sender = ti_Sender (tie_Info i), nonce = ti_Sequence (tie_Info i)\<rparr>"
    and "ti_Size (tie_Info i) = int (length (ti_TxBytes (tie_Info i)))"
    and "tx_GetGas (tie_Tx i) = Some (ti_GasLimit (tie_Info i))" and "ti_Sequence (tie_Info i) < 2 ^ 64 - 1"
    and "\<exists>pr. held p \<lparr>sender = ti_Sender (tie_Info i), nonce = ti_Sequence (tie_Info i)\<rparr> =
      Some (tie_Tx i, ti_TxBytes (tie_Info i), pr)"
proof -
  obtain e where e: "e \<in> set (priorityIndex p)" "i = \<lparr>tie_Tx = e_tx e, tie_Info = infoOf e (tierName p (e_tier e))\<rparr>"
    using i by (auto simp: Select_all)
  obtain r where r: "mget (senders p) (sender (e_key e)) = Some r" "mget (active (heap p r)) (nonce (e_key e)) = Some e"
    and st: "entry_static E (sender (e_key e)) (nonce (e_key e)) e" by (rule index_entry [OF s e(1)])
  have sq: "e_sequence e = nonce (e_key e)" using st by (simp add: entry_static_def)
  show "txKeyFromTx E (tie_Tx i) = Inr \<lparr>sender = ti_Sender (tie_Info i), nonce = ti_Sequence (tie_Info i)\<rparr>"
    "ti_Size (tie_Info i) = int (length (ti_TxBytes (tie_Info i)))"
    "tx_GetGas (tie_Tx i) = Some (ti_GasLimit (tie_Info i))" "ti_Sequence (tie_Info i) < 2 ^ 64 - 1"
    using st by (simp_all add: e(2) infoOf_def sq entry_static_def)
  show "\<exists>pr. held p \<lparr>sender = ti_Sender (tie_Info i), nonce = ti_Sequence (tie_Info i)\<rparr> =
      Some (tie_Tx i, ti_TxBytes (tie_Info i), pr)"
    using held_active [OF r] by (simp add: e(2) infoOf_def sq ident_def)
qed

text \<open>
  The laws hold of the priority mempool for every set of outside functions whose skip list is
  correct; since a locale is interpreted for fixed parameters, the invariant carries that hypothesis.
\<close>

definition pool_inv :: "'s env \<Rightarrow> 's PriorityMempool \<Rightarrow> bool" where
  "pool_inv E p \<longleftrightarrow> sound E p \<and> skiplist_ok E"

interpretation pm: mempool_laws "PriorityMempool_iface E" "pool_inv E" "keyOf E" "TxHash E" for E
proof (unfold_locales, goal_cases)
  case (1 p i)
  then show ?case using selected [of E p i] by (simp add: PriorityMempool_iface_def pool_inv_def keyOf_def)
next
  case (2 p)
  then show ?case using Select_order [of E p] by (simp add: PriorityMempool_iface_def pool_inv_def)
next
  case (3 p i)
  then have s: "sound E p" "i \<in> set (iterAll (Select p))" by (simp_all add: PriorityMempool_iface_def pool_inv_def)
  show ?case using selected(5) [OF s] Lookup_held [OF soundD(1) [OF s(1)]] by (auto simp: PriorityMempool_iface_def)
next
  case (4 p i)
  then show ?case using selected(4) [of E p i] by (simp add: PriorityMempool_iface_def pool_inv_def)
next
  case (5 p tx k reason)
  then show ?case using RemoveWithReason_held(1)
    by (auto simp: PriorityMempool_iface_def pool_inv_def keyOf_def split: sum.splits)
next
  case (6 p tx k reason)
  then have t: "txKeyFromTx E tx = Inr k" "sound E p" "skiplist_ok E" by (auto simp: pool_inv_def keyOf_def split: sum.splits)
  note rh = RemoveWithReason_held [OF t(2,3,1) 6(3), of reason]
  show ?case using rh(2) [OF 6(4)] Lookup_held [OF soundD(1) [OF rh(1)]] by (simp add: PriorityMempool_iface_def)
next
  case (7 p tx k reason s n)
  then have t: "txKeyFromTx E tx = Inr k" "sound E p" "skiplist_ok E" by (auto simp: pool_inv_def keyOf_def split: sum.splits)
  note rh = RemoveWithReason_held [OF t(2,3,1) 7(3), of reason]
  have "held (fst (RemoveWithReason E p tx reason)) \<lparr>sender = s, nonce = n\<rparr> = None \<or>
    held (fst (RemoveWithReason E p tx reason)) \<lparr>sender = s, nonce = n\<rparr> = held p \<lparr>sender = s, nonce = n\<rparr>"
    using rh(3) by (auto simp: map_le_def)
  then show ?case using Lookup_held [OF soundD(1) [OF rh(1)]] Lookup_held [OF soundD(1) [OF t(2)]]
    by (auto simp: PriorityMempool_iface_def)
next
  case (8 p tx k)
  then have t: "txKeyFromTx E tx = Inr k" "sound E p" by (auto simp: pool_inv_def keyOf_def split: sum.splits)
  show ?case using Contains_held [OF soundD(1) [OF t(2)] t(1)] Lookup_held [OF soundD(1) [OF t(2)]]
    by (simp add: PriorityMempool_iface_def)
next
  case (9 p tx)
  then show ?case by (auto simp: PriorityMempool_iface_def Contains_def keyOf_def split: sum.splits)
qed

end
