(* ===== verification/Abci_Proposals.thy ===== *)
theory Abci_Proposals
  imports Abci_Mempool "HOL-Library.Sublist"
begin

text \<open>
  Model of \<open>abcipp/proposals.go\<close>: the proposal handler and its two ABCI methods. The decoder and
  the ante handler are fields of the handler, as in the code; the ante handler returns an error
  or the context whose store the caller writes back. Logging and the recovery from a panic of
  the ante handler are not modelled.
\<close>

section \<open>Operations\<close>

record ('s, 'p) ProposalHandler =
  ph_txDecoder :: "bytes \<Rightarrow> string + sdk_tx"
  ph_mempool :: "'p Mempool"
  ph_anteHandler :: "'s AnteHandler"

text \<open>The arguments that can be nil are options.\<close>

definition NewProposalHandler ::
    "bool \<Rightarrow> (bytes \<Rightarrow> string + sdk_tx) option \<Rightarrow> (sdk_tx \<Rightarrow> string + bytes) option \<Rightarrow> 'p Mempool option \<Rightarrow>
     's AnteHandler option \<Rightarrow> string + ('s, 'p) ProposalHandler" where
  "NewProposalHandler hasLogger txDecoder encoder mempool anteHandler =
     (if \<not> hasLogger then Inl ''logger is required''
      else case txDecoder of None \<Rightarrow> Inl ''txDecoder is required'' | Some dec \<Rightarrow>
        if Option.is_none encoder then Inl ''txEncoder is required''
        else case mempool of None \<Rightarrow> Inl ''mempool is required'' | Some m \<Rightarrow>
          case anteHandler of None \<Rightarrow> Inl ''anteHandler is required'' | Some ante \<Rightarrow>
            Inr \<lparr>ph_txDecoder = dec, ph_mempool = m, ph_anteHandler = ante\<rparr>)"

fun GetDecodedTxs :: "(bytes \<Rightarrow> string + sdk_tx) \<Rightarrow> bytes list \<Rightarrow> string + sdk_tx list" where
  "GetDecodedTxs dec [] = Inr []"
| "GetDecodedTxs dec (bz # bzs) =
     (case dec bz of
        Inl err \<Rightarrow> Inl err
      | Inr tx \<Rightarrow> (case GetDecodedTxs dec bzs of Inl err \<Rightarrow> Inl err | Inr txs \<Rightarrow> Inr (tx # txs)))"

definition maxGasLimit :: "'s sdk_ctx \<Rightarrow> int" where
  "maxGasLimit ctx = (case ctx_Block ctx of None \<Rightarrow> 0 | Some b \<Rightarrow> MaxGas b)"

definition maxBlockSize :: "'s sdk_ctx \<Rightarrow> int" where
  "maxBlockSize ctx = (case ctx_Block ctx of None \<Rightarrow> 0 | Some b \<Rightarrow> MaxBytes b)"

record 's prepareState =
  ps_ctx :: "'s sdk_ctx"
  totalSize :: int
  totalGas :: nat
  txsToInclude :: "bytes list"
  txsToRemove :: "TxInfoEntry list"
  blockedSenders :: "(string, unit) gomap"

definition prepareInit :: "'s sdk_ctx \<Rightarrow> 's prepareState" where
  "prepareInit ctx = \<lparr>ps_ctx = ctx, totalSize = 0, totalGas = 0, txsToInclude = [], txsToRemove = [],
     blockedSenders = mempty\<rparr>"

text \<open>The body of the selection loop for one transaction.\<close>

definition prepareStep :: "('s, 'p) ProposalHandler \<Rightarrow> TxInfoEntry \<Rightarrow> 's prepareState \<Rightarrow> 's prepareState" where
  "prepareStep h i st =
     (let info = tie_Info i; maxSize = maxBlockSize (ps_ctx st); maxGas = maxGasLimit (ps_ctx st);
          block = (\<lambda>over. st\<lparr>txsToRemove := (if over then txsToRemove st @ [i] else txsToRemove st),
                             blockedSenders := mput (blockedSenders st) (ti_Sender info) ()\<rparr>)
      in if mget (blockedSenders st) (ti_Sender info) \<noteq> None then st
         else if maxSize > 0 \<and> i64 (totalSize st + ti_Size info) > maxSize then block (ti_Size info > maxSize)
         else if maxGas > 0 \<and> int (u64 (totalGas st + ti_GasLimit info)) > maxGas then block (int (ti_GasLimit info) > maxGas)
         else case ph_anteHandler h (ps_ctx st) (tie_Tx i) False of
           Inl err \<Rightarrow> st\<lparr>txsToRemove := txsToRemove st @ [i]\<rparr>
         | Inr ctx' \<Rightarrow>
             st\<lparr>ps_ctx := (ps_ctx st)\<lparr>ctx_store := ctx_store ctx'\<rparr>,
                totalSize := i64 (totalSize st + ti_Size info),
                totalGas := u64 (totalGas st + ti_GasLimit info),
                txsToInclude := txsToInclude st @ [ti_TxBytes info]\<rparr>)"

text \<open>The removal loop: an entry goes only if the pool still holds the bytes that were tried.\<close>

definition prepareRemove :: "(bytes \<Rightarrow> string) \<Rightarrow> ('s, 'p) ProposalHandler \<Rightarrow> TxInfoEntry list \<Rightarrow> 'p \<Rightarrow> 'p" where
  "prepareRemove hash h es p =
     fold (\<lambda>i q.
       if m_Lookup (ph_mempool h) q (ti_Sender (tie_Info i)) (ti_Sequence (tie_Info i)) =
            Some (hash (ti_TxBytes (tie_Info i)))
       then m_RemoveWithReason (ph_mempool h) q (tie_Tx i) RemovalReasonAnteRejectedInPrepare
       else q) es p"

text \<open>The result is the pool and the transactions of the proposal; \<open>hash\<close> is \<open>TxHash\<close>.\<close>

definition PrepareProposal ::
    "(bytes \<Rightarrow> string) \<Rightarrow> ('s, 'p) ProposalHandler \<Rightarrow> 's sdk_ctx \<Rightarrow> int \<Rightarrow> bytes list \<Rightarrow> 'p \<Rightarrow> 'p \<times> bytes list" where
  "PrepareProposal hash h ctx height reqTxs p =
     (if height \<le> 1 then (p, reqTxs)
      else
        let st = fold (prepareStep h) (m_Select (ph_mempool h) p) (prepareInit ctx)
        in (prepareRemove hash h (txsToRemove st) p, txsToInclude st))"

datatype proposal_error =
    ErrDecode string
  | ErrGasLimit
  | ErrNoFeeTx
  | ErrBlockSize
  | ErrAnte string

fun processLoop ::
    "'s AnteHandler \<Rightarrow> 's sdk_ctx \<Rightarrow> int \<Rightarrow> nat \<Rightarrow> (sdk_tx \<times> bytes) list \<Rightarrow> proposal_error + ('s sdk_ctx \<times> int \<times> nat)" where
  "processLoop ante ctx totalTxBytes totGas [] = Inr (ctx, totalTxBytes, totGas)"
| "processLoop ante ctx totalTxBytes totGas ((tx, bz) # rest) =
     (case tx_GetGas tx of
        None \<Rightarrow> Inl ErrNoFeeTx
      | Some gas \<Rightarrow>
          (if maxGasLimit ctx > 0 \<and> int (u64 (totGas + gas)) > maxGasLimit ctx then Inl ErrGasLimit
           else if maxBlockSize ctx > 0 \<and> i64 (totalTxBytes + int (length bz)) > maxBlockSize ctx
             then Inl ErrBlockSize
           else case ante ctx tx False of
             Inl err \<Rightarrow> Inl (ErrAnte err)
           | Inr ctx' \<Rightarrow>
               processLoop ante (ctx\<lparr>ctx_store := ctx_store ctx'\<rparr>)
                 (i64 (totalTxBytes + int (length bz))) (u64 (totGas + gas)) rest))"

text \<open>\<open>None\<close> is ACCEPT, \<open>Some err\<close> is REJECT with the error.\<close>

definition ProcessProposal ::
    "('s, 'p) ProposalHandler \<Rightarrow> 's sdk_ctx \<Rightarrow> int \<Rightarrow> bytes list \<Rightarrow> proposal_error option" where
  "ProcessProposal h ctx height txs =
     (if height \<le> 1 then None
      else case GetDecodedTxs (ph_txDecoder h) txs of
        Inl err \<Rightarrow> Some (ErrDecode err)
      | Inr decoded \<Rightarrow>
          (case processLoop (ph_anteHandler h) ctx 0 0 (zip decoded txs) of
             Inl err \<Rightarrow> Some err
           | Inr _ \<Rightarrow> None))"

section \<open>ProcessProposal\<close>

lemma GetDecodedTxs_append:
  "GetDecodedTxs dec (xs @ ys) =
    (case GetDecodedTxs dec xs of Inl err \<Rightarrow> Inl err
     | Inr txs \<Rightarrow> (case GetDecodedTxs dec ys of Inl err \<Rightarrow> Inl err | Inr txs' \<Rightarrow> Inr (txs @ txs')))"
  by (induction xs) (auto split: sum.split)

lemma GetDecodedTxs_length: "GetDecodedTxs dec bzs = Inr txs \<Longrightarrow> length txs = length bzs"
  by (induction bzs arbitrary: txs) (auto split: sum.splits)

lemma limits_store [simp]:
  "maxGasLimit (ctx\<lparr>ctx_store := s\<rparr>) = maxGasLimit ctx" "maxBlockSize (ctx\<lparr>ctx_store := s\<rparr>) = maxBlockSize ctx"
  by (simp_all add: maxGasLimit_def maxBlockSize_def)

lemma processLoop_append:
  "processLoop ante ctx b g (xs @ ys) =
    (case processLoop ante ctx b g xs of Inl err \<Rightarrow> Inl err | Inr (ctx', b', g') \<Rightarrow> processLoop ante ctx' b' g' ys)"
  by (induction ante ctx b g xs rule: processLoop.induct) (auto split: option.split sum.split)

lemma processLoop_limits:
  "processLoop ante ctx b g xs = Inr (ctx', b', g') \<Longrightarrow> maxGasLimit ctx' = maxGasLimit ctx \<and> maxBlockSize ctx' = maxBlockSize ctx"
  by (induction ante ctx b g xs rule: processLoop.induct) (auto split: option.splits sum.splits if_splits)

text \<open>
  An accepted list stays within both limits. Sizes are far from \<open>2 ^ 63\<close>; a gas limit is at most
  \<open>2 ^ 63 - 1\<close>, the SDK's bound on the gas a transaction may want.
\<close>

definition gasOf :: "sdk_tx \<Rightarrow> nat" where
  "gasOf tx = (case tx_GetGas tx of None \<Rightarrow> 0 | Some g \<Rightarrow> g)"

lemma processLoop_bounds:
  assumes "processLoop ante ctx b g xs = Inr (ctx', b', g')" and "\<forall>(tx, bz)\<in>set xs. gasOf tx < 2 ^ 63"
    and "0 \<le> b" and "b + (\<Sum>(tx, bz)\<leftarrow>xs. int (length bz)) < 2 ^ 63"
    and "0 < maxBlockSize ctx \<longrightarrow> b \<le> maxBlockSize ctx"
    and "0 < maxGasLimit ctx" and "maxGasLimit ctx < 2 ^ 63" and "int g \<le> maxGasLimit ctx"
  shows "b' = b + (\<Sum>(tx, bz)\<leftarrow>xs. int (length bz)) \<and> (0 < maxBlockSize ctx \<longrightarrow> b' \<le> maxBlockSize ctx) \<and>
    g' = g + (\<Sum>(tx, bz)\<leftarrow>xs. gasOf tx) \<and> int g' \<le> maxGasLimit ctx"
  using assms
proof (induction ante ctx b g xs rule: processLoop.induct)
  case (2 ante ctx b g tx bz rest)
  obtain gas where gas: "tx_GetGas tx = Some gas" using 2(2) by (cases "tx_GetGas tx") auto
  have tot: "0 \<le> (\<Sum>(tx, bz)\<leftarrow>rest. int (length bz))" by (intro sum_list_nonneg) auto
  have gg: "gas < 2 ^ 63" using 2(3) gas by (simp add: gasOf_def)
  have u: "u64 (g + gas) = g + gas" using gg 2(8,9) by (simp add: u64_def)
  have i: "i64 (b + int (length bz)) = b + int (length bz)" using 2(4,5) tot by (intro i64_id) (simp add: is_i64_def)
  have lim: "int (g + gas) \<le> maxGasLimit ctx" "0 < maxBlockSize ctx \<longrightarrow> b + int (length bz) \<le> maxBlockSize ctx"
    using 2(2,7) gas u i by (auto split: if_splits)
  obtain ctx1 where a: "ante ctx tx False = Inr ctx1" using 2(2) gas u i lim by (cases "ante ctx tx False") (auto split: if_splits)
  have rest: "processLoop ante (ctx\<lparr>ctx_store := ctx_store ctx1\<rparr>) (b + int (length bz)) (g + gas) rest = Inr (ctx', b', g')"
    using 2(2) gas a lim u i by (auto split: if_splits)
  have "b' = (b + int (length bz)) + (\<Sum>(tx, bz)\<leftarrow>rest. int (length bz)) \<and> (0 < maxBlockSize ctx \<longrightarrow> b' \<le> maxBlockSize ctx) \<and>
    g' = (g + gas) + (\<Sum>(tx, bz)\<leftarrow>rest. gasOf tx) \<and> int g' \<le> maxGasLimit ctx"
  proof -
    let ?c = "ctx\<lparr>ctx_store := ctx_store ctx1\<rparr>"
    have ok: "\<not> (0 < maxGasLimit ctx \<and> maxGasLimit ctx < int (u64 (g + gas)))"
      "\<not> (0 < maxBlockSize ctx \<and> maxBlockSize ctx < i64 (b + int (length bz)))"
      using lim u i by auto
    note ih = 2(1) [OF gas ok a, unfolded u i limits_store]
    show ?thesis by (rule ih [OF rest]) (use 2(3-9) lim in auto)
  qed
  moreover have "gasOf tx = gas" by (simp add: gasOf_def gas)
  ultimately show ?case by (auto simp: add.assoc)
qed simp

section \<open>PrepareProposal\<close>

text \<open>
  The selection loop keeps the state that \<open>processLoop\<close> would have after the transactions chosen so
  far: the same store, the same totals. \<open>agrees\<close> says so.
\<close>

definition agrees :: "('s, 'p) ProposalHandler \<Rightarrow> 's sdk_ctx \<Rightarrow> 's prepareState \<Rightarrow> bool" where
  "agrees h ctx st \<longleftrightarrow>
     (\<exists>txs. GetDecodedTxs (ph_txDecoder h) (txsToInclude st) = Inr txs \<and>
        processLoop (ph_anteHandler h) ctx 0 0 (zip txs (txsToInclude st)) = Inr (ps_ctx st, totalSize st, totalGas st))"

lemma prepareStep_agrees:
  assumes a: "agrees h ctx st" and d: "ph_txDecoder h (ti_TxBytes (tie_Info i)) = Inr (tie_Tx i)"
    and s: "ti_Size (tie_Info i) = int (length (ti_TxBytes (tie_Info i)))"
    and g: "tx_GetGas (tie_Tx i) = Some (ti_GasLimit (tie_Info i))"
  shows "agrees h ctx (prepareStep h i st)"
proof -
  obtain txs where t: "GetDecodedTxs (ph_txDecoder h) (txsToInclude st) = Inr txs"
    "processLoop (ph_anteHandler h) ctx 0 0 (zip txs (txsToInclude st)) = Inr (ps_ctx st, totalSize st, totalGas st)"
    using a by (auto simp: agrees_def)
  let ?st = "prepareStep h i st" and ?info = "tie_Info i"
  define out where "out \<longleftrightarrow> mget (blockedSenders st) (ti_Sender ?info) \<noteq> None \<or>
    (maxBlockSize (ps_ctx st) > 0 \<and> i64 (totalSize st + ti_Size ?info) > maxBlockSize (ps_ctx st)) \<or>
    (maxGasLimit (ps_ctx st) > 0 \<and> int (u64 (totalGas st + ti_GasLimit ?info)) > maxGasLimit (ps_ctx st))"
  show ?thesis
  proof (cases "out \<or> (\<exists>err. ph_anteHandler h (ps_ctx st) (tie_Tx i) False = Inl err)")
    case True
    then have "ps_ctx ?st = ps_ctx st \<and> totalSize ?st = totalSize st \<and> totalGas ?st = totalGas st \<and>
      txsToInclude ?st = txsToInclude st"
      unfolding out_def prepareStep_def Let_def by (elim disjE exE) simp_all
    then show ?thesis using t by (auto simp: agrees_def)
  next
    case False
    then obtain ctx' where ante: "ph_anteHandler h (ps_ctx st) (tie_Tx i) False = Inr ctx'" and no: "\<not> out"
      by (cases "ph_anteHandler h (ps_ctx st) (tie_Tx i) False") auto
    have b: "\<not> mget (blockedSenders st) (ti_Sender ?info) \<noteq> None"
      "\<not> (maxBlockSize (ps_ctx st) > 0 \<and> i64 (totalSize st + ti_Size ?info) > maxBlockSize (ps_ctx st))"
      "\<not> (maxGasLimit (ps_ctx st) > 0 \<and> int (u64 (totalGas st + ti_GasLimit ?info)) > maxGasLimit (ps_ctx st))"
      using no unfolding out_def by blast+
    have st: "ps_ctx ?st = (ps_ctx st)\<lparr>ctx_store := ctx_store ctx'\<rparr>" "totalSize ?st = i64 (totalSize st + ti_Size ?info)"
      "totalGas ?st = u64 (totalGas st + ti_GasLimit ?info)" "txsToInclude ?st = txsToInclude st @ [ti_TxBytes ?info]"
      unfolding prepareStep_def Let_def if_not_P [OF b(1)] if_not_P [OF b(2)] if_not_P [OF b(3)] ante by simp_all
    have "length txs = length (txsToInclude st)" by (rule GetDecodedTxs_length [OF t(1)])
    then have "processLoop (ph_anteHandler h) ctx 0 0 (zip (txs @ [tie_Tx i]) (txsToInclude ?st)) =
        Inr (ps_ctx ?st, totalSize ?st, totalGas ?st)"
      using t(2) ante g b(2,3) unfolding st s by (auto simp: processLoop_append)
    moreover have "GetDecodedTxs (ph_txDecoder h) (txsToInclude ?st) = Inr (txs @ [tie_Tx i])"
      using t(1) st(4) d by (simp add: GetDecodedTxs_append)
    ultimately show ?thesis by (auto simp: agrees_def)
  qed
qed

lemma prepare_agrees:
  assumes "agrees h ctx st" and "\<And>i. i \<in> set is \<Longrightarrow> ph_txDecoder h (ti_TxBytes (tie_Info i)) = Inr (tie_Tx i) \<and>
      ti_Size (tie_Info i) = int (length (ti_TxBytes (tie_Info i))) \<and> tx_GetGas (tie_Tx i) = Some (ti_GasLimit (tie_Info i))"
  shows "agrees h ctx (fold (prepareStep h) is st)"
  using assms by (induction "is" arbitrary: st) (simp_all add: prepareStep_agrees)

text \<open>What is proposed and what is removed comes from the pool, in the pool's order.\<close>

lemma prepareStep_lists:
  "(txsToInclude (prepareStep h i st) = txsToInclude st \<or>
     txsToInclude (prepareStep h i st) = txsToInclude st @ [ti_TxBytes (tie_Info i)]) \<and>
   (txsToRemove (prepareStep h i st) = txsToRemove st \<or> txsToRemove (prepareStep h i st) = txsToRemove st @ [i])"
  by (auto simp: prepareStep_def Let_def split: sum.split)

lemma prepare_included:
  "\<exists>xs. txsToInclude (fold (prepareStep h) is st) = txsToInclude st @ map (ti_TxBytes \<circ> tie_Info) xs \<and> subseq xs is"
proof (induction "is" arbitrary: st)
  case (Cons i "is")
  obtain xs where xs: "txsToInclude (fold (prepareStep h) is (prepareStep h i st)) =
      txsToInclude (prepareStep h i st) @ map (ti_TxBytes \<circ> tie_Info) xs" "subseq xs is"
    using Cons by blast
  show ?case
  proof (cases "txsToInclude (prepareStep h i st) = txsToInclude st")
    case True
    then show ?thesis using xs by (intro exI [of _ xs]) (simp add: list_emb_Cons)
  next
    case False
    then show ?thesis using xs prepareStep_lists [of h i st] by (intro exI [of _ "i # xs"]) auto
  qed
qed (auto intro: exI [of _ "[]"])

lemma prepare_removed: "set (txsToRemove (fold (prepareStep h) is st)) \<subseteq> set (txsToRemove st) \<union> set is"
proof (induction "is" arbitrary: st)
  case (Cons i "is")
  then show ?case using prepareStep_lists [of h i st] by fastforce
qed simp

text \<open>A transaction that was blocked by a limit keeps its sender's later transactions out.\<close>

lemma prepare_blocked:
  assumes "mget (blockedSenders st) s \<noteq> None" and "\<forall>i\<in>set is. ti_Sender (tie_Info i) = s"
  shows "fold (prepareStep h) is st = st"
  using assms by (induction "is") (simp_all add: prepareStep_def Let_def)

lemma set_subseq: "subseq xs ys \<Longrightarrow> set xs \<subseteq> set ys"
  by (induction rule: list_emb.induct) auto

lemma sorted_wrt_subseq: "subseq xs ys \<Longrightarrow> sorted_wrt P ys \<Longrightarrow> sorted_wrt P xs"
  by (induction rule: list_emb.induct) (auto dest: set_subseq)

context mempool_laws
begin

lemma prepareRemove_spec:
  assumes "inv p" and "ph_mempool h = M"
    and "\<And>i. i \<in> set es \<Longrightarrow> key (tie_Tx i) = Some \<lparr>sender = ti_Sender (tie_Info i), nonce = ti_Sequence (tie_Info i)\<rparr> \<and>
      ti_Sequence (tie_Info i) < 2 ^ 64 - 1"
  shows "inv (prepareRemove hash h es p) \<and>
    (\<forall>s n. m_Lookup M (prepareRemove hash h es p) s n = None \<or> m_Lookup M (prepareRemove hash h es p) s n = m_Lookup M p s n) \<and>
    (\<forall>i\<in>set es. m_Lookup M (prepareRemove hash h es p) (ti_Sender (tie_Info i)) (ti_Sequence (tie_Info i)) \<noteq>
      Some (hash (ti_TxBytes (tie_Info i))))"
  using assms
proof (induction es arbitrary: p)
  case (Cons i es)
  let ?s = "ti_Sender (tie_Info i)" and ?n = "ti_Sequence (tie_Info i)"
  define q where "q = (if m_Lookup M p ?s ?n = Some (hash (ti_TxBytes (tie_Info i)))
    then m_RemoveWithReason M p (tie_Tx i) RemovalReasonAnteRejectedInPrepare else p)"
  have k: "key (tie_Tx i) = Some \<lparr>sender = ?s, nonce = ?n\<rparr>" "nonce \<lparr>sender = ?s, nonce = ?n\<rparr> < 2 ^ 64 - 1"
    using Cons.prems(3) [of i] by simp_all
  have q1: "inv q" using Cons.prems(1) remove_inv [OF _ k] by (simp add: q_def)
  have q2: "m_Lookup M q s n = None \<or> m_Lookup M q s n = m_Lookup M p s n" for s n
    using remove_others [OF Cons.prems(1) k] by (simp add: q_def)
  have q3: "m_Lookup M q ?s ?n \<noteq> Some (hash (ti_TxBytes (tie_Info i)))"
    using remove_gone [OF Cons.prems(1) k] by (simp add: q_def)
  have e: "prepareRemove hash h (i # es) p = prepareRemove hash h es q"
    using Cons.prems(2) by (simp add: prepareRemove_def q_def)
  note ih = Cons.IH [OF q1 Cons.prems(2)]
  have ih': "inv (prepareRemove hash h es q)"
    "\<And>s n. m_Lookup M (prepareRemove hash h es q) s n = None \<or> m_Lookup M (prepareRemove hash h es q) s n = m_Lookup M q s n"
    "\<forall>i\<in>set es. m_Lookup M (prepareRemove hash h es q) (ti_Sender (tie_Info i)) (ti_Sequence (tie_Info i)) \<noteq>
      Some (hash (ti_TxBytes (tie_Info i)))"
    using ih Cons.prems(3) by auto
  have "m_Lookup M (prepareRemove hash h es q) ?s ?n \<noteq> Some (hash (ti_TxBytes (tie_Info i)))"
    using ih'(2) [of ?s ?n] q3 by auto
  moreover have "m_Lookup M (prepareRemove hash h es q) s n = None \<or> m_Lookup M (prepareRemove hash h es q) s n = m_Lookup M p s n" for s n
    using ih'(2) [of s n] q2 [of s n] by auto
  ultimately show ?case unfolding e using ih'(1,3) by simp
qed (simp add: prepareRemove_def)

lemma prepared_accepted:
  assumes "inv p" and "ph_mempool h = M" and "1 < height" and "PrepareProposal hash h ctx height reqTxs p = (q, txs)"
    and "\<And>i. i \<in> set (m_Select M p) \<Longrightarrow> ph_txDecoder h (ti_TxBytes (tie_Info i)) = Inr (tie_Tx i)"
  shows "ProcessProposal h ctx height txs = None"
proof -
  define st where "st = fold (prepareStep h) (m_Select M p) (prepareInit ctx)"
  have "agrees h ctx (prepareInit ctx)" by (simp add: agrees_def prepareInit_def)
  then have "agrees h ctx st" unfolding st_def by (rule prepare_agrees) (use select_info [OF assms(1)] assms(5) in blast)
  moreover have "txs = txsToInclude st" using assms(2-4) by (simp add: PrepareProposal_def st_def Let_def)
  ultimately show ?thesis using assms(3) by (auto simp: ProcessProposal_def agrees_def)
qed

lemma prepared_pool:
  assumes "inv p" and "ph_mempool h = M" and "PrepareProposal hash h ctx height reqTxs p = (q, txs)"
  shows "inv q" and "m_Lookup M q s n = None \<or> m_Lookup M q s n = m_Lookup M p s n"
proof -
  define st where "st = fold (prepareStep h) (m_Select M p) (prepareInit ctx)"
  have "set (txsToRemove st) \<subseteq> set (m_Select M p)"
    using prepare_removed [of h "m_Select M p" "prepareInit ctx"] by (simp add: st_def prepareInit_def)
  then have r: "inv (prepareRemove hash h (txsToRemove st) p) \<and>
    (\<forall>s n. m_Lookup M (prepareRemove hash h (txsToRemove st) p) s n = None \<or>
      m_Lookup M (prepareRemove hash h (txsToRemove st) p) s n = m_Lookup M p s n)"
    using prepareRemove_spec [OF assms(1,2), of "txsToRemove st"] select_info [OF assms(1)] select_short [OF assms(1)] by blast
  have "q = p \<or> q = prepareRemove hash h (txsToRemove st) p"
    using assms(2,3) by (auto simp: PrepareProposal_def st_def Let_def split: if_splits)
  then show "inv q" "m_Lookup M q s n = None \<or> m_Lookup M q s n = m_Lookup M p s n" using r assms(1) by auto
qed

lemma prepared_order:
  assumes "inv p" and "ph_mempool h = M" and "1 < height" and "PrepareProposal hash h ctx height reqTxs p = (q, txs)"
    and "\<And>i. i \<in> set (m_Select M p) \<Longrightarrow> ph_txDecoder h (ti_TxBytes (tie_Info i)) = Inr (tie_Tx i)"
  shows "sorted_wrt (\<lambda>a b. \<forall>t u k l. ph_txDecoder h a = Inr t \<longrightarrow> ph_txDecoder h b = Inr u \<longrightarrow> key t = Some k \<longrightarrow>
    key u = Some l \<longrightarrow> sender k = sender l \<longrightarrow> nonce k < nonce l) txs"
proof -
  obtain xs where xs: "txs = map (ti_TxBytes \<circ> tie_Info) xs" "subseq xs (m_Select M p)"
    using prepare_included [of h "m_Select M p" "prepareInit ctx"] assms(2-4)
    by (auto simp: PrepareProposal_def prepareInit_def Let_def)
  have o: "sorted_wrt (\<lambda>i j. ti_Sender (tie_Info i) = ti_Sender (tie_Info j) \<longrightarrow>
      ti_Sequence (tie_Info i) < ti_Sequence (tie_Info j)) xs"
    by (rule sorted_wrt_subseq [OF xs(2) select_order [OF assms(1)]])
  have m: "i \<in> set (m_Select M p)" if "i \<in> set xs" for i using set_subseq [OF xs(2)] that by blast
  show ?thesis unfolding xs(1) sorted_wrt_map
  proof (rule sorted_wrt_mono_rel [OF _ o])
    fix i j assume ij: "i \<in> set xs" "j \<in> set xs" "ti_Sender (tie_Info i) = ti_Sender (tie_Info j) \<longrightarrow>
      ti_Sequence (tie_Info i) < ti_Sequence (tie_Info j)"
    have "key (tie_Tx i) = Some \<lparr>sender = ti_Sender (tie_Info i), nonce = ti_Sequence (tie_Info i)\<rparr>"
      "key (tie_Tx j) = Some \<lparr>sender = ti_Sender (tie_Info j), nonce = ti_Sequence (tie_Info j)\<rparr>"
      using select_info [OF assms(1) m] ij(1,2) by blast+
    then show "\<forall>t u k l. ph_txDecoder h ((ti_TxBytes \<circ> tie_Info) i) = Inr t \<longrightarrow>
        ph_txDecoder h ((ti_TxBytes \<circ> tie_Info) j) = Inr u \<longrightarrow> key t = Some k \<longrightarrow> key u = Some l \<longrightarrow>
        sender k = sender l \<longrightarrow> nonce k < nonce l"
      using assms(5) [OF m [OF ij(1)]] assms(5) [OF m [OF ij(2)]] ij(3) by auto
  qed
qed

end

end
