(* ===== verification/Abci_CheckTx.thy ===== *)
theory Abci_CheckTx
  imports Abci_Mempool
begin

text \<open>
  Model of \<open>abcipp/checktx.go\<close>, \<open>abcipp/query_server.go\<close>, \<open>DecodeAddress\<close> of \<open>abcipp/utils.go\<close> and
  \<open>abcipp/config.go\<close>.
\<close>

section \<open>CheckTx\<close>

record RequestCheckTx =
  rq_Tx :: bytes
  rq_Recheck :: bool  \<comment> \<open>\<open>Type == CheckTxType_Recheck\<close>\<close>

record ResponseCheckTx =
  rs_Code :: nat
  rs_Log :: string

text \<open>
  \<open>ch_checkTx\<close> is the base application's CheckTx, which may insert into the mempool;
  \<open>ch_ErrorResponse\<close> is the SDK's response for an error.
\<close>

record 'p CheckTxHandler =
  ch_mempool :: "'p Mempool"
  ch_txDecoder :: "bytes \<Rightarrow> string + sdk_tx"
  ch_checkTx :: "RequestCheckTx \<Rightarrow> 'p \<Rightarrow> 'p \<times> ResponseCheckTx option \<times> string option"
  ch_ErrorResponse :: "string \<Rightarrow> ResponseCheckTx"

definition NewCheckTxHandler ::
    "bool \<Rightarrow> bool \<Rightarrow> 'p Mempool option \<Rightarrow> (bytes \<Rightarrow> string + sdk_tx) option \<Rightarrow>
     (RequestCheckTx \<Rightarrow> 'p \<Rightarrow> 'p \<times> ResponseCheckTx option \<times> string option) option \<Rightarrow> bool \<Rightarrow>
     (string \<Rightarrow> ResponseCheckTx) \<Rightarrow> string + 'p CheckTxHandler" where
  "NewCheckTxHandler hasLogger hasBaseApp mempool txDecoder checkTx hasFeeChecker errorResponse =
     (if \<not> hasLogger then Inl ''logger is required''
      else if \<not> hasBaseApp then Inl ''baseApp is required''
      else case mempool of None \<Rightarrow> Inl ''mempool is required'' | Some m \<Rightarrow>
        case txDecoder of None \<Rightarrow> Inl ''txDecoder is required'' | Some dec \<Rightarrow>
          case checkTx of None \<Rightarrow> Inl ''checkTx is required'' | Some check \<Rightarrow>
            if \<not> hasFeeChecker then Inl ''feeChecker is required''
            else Inr \<lparr>ch_mempool = m, ch_txDecoder = dec, ch_checkTx = check, ch_ErrorResponse = errorResponse\<rparr>)"

definition isInvalidCheckTxExecution :: "ResponseCheckTx option \<Rightarrow> string option \<Rightarrow> bool" where
  "isInvalidCheckTxExecution resp checkTxErr \<longleftrightarrow>
     (case resp of None \<Rightarrow> True | Some r \<Rightarrow> rs_Code r \<noteq> 0 \<or> checkTxErr \<noteq> None)"

definition CheckTx :: "'p CheckTxHandler \<Rightarrow> RequestCheckTx \<Rightarrow> 'p \<Rightarrow> 'p \<times> ResponseCheckTx option \<times> string option" where
  "CheckTx h req p =
     (let isRecheck = rq_Recheck req in
      case ch_txDecoder h (rq_Tx req) of
        Inl err \<Rightarrow> (p, Some (ch_ErrorResponse h (''failed to decode tx: '' @ err)), None)
      | Inr tx \<Rightarrow>
          (let txInMempool = m_Contains (ch_mempool h) p tx in
           if isRecheck \<and> \<not> txInMempool then
             (p, Some (ch_ErrorResponse h ''tx from comet mempool not found in app-side mempool''), None)
           else
             let (q, resp, err) = ch_checkTx h req p
             in if isInvalidCheckTxExecution resp err \<and> isRecheck \<and> txInMempool
                then (m_RemoveWithReason (ch_mempool h) q tx RemovalReasonAnteRejectedInPrepare, resp, err)
                else (q, resp, err)))"

section \<open>Addresses\<close>

datatype address_error = ErrInvalidHex | ErrBech32

text \<open>After the prefix test, replacing the first \<open>0x\<close> drops the prefix.\<close>

definition DecodeAddress :: "'s env \<Rightarrow> string \<Rightarrow> address_error + bytes" where
  "DecodeAddress E sndr =
     (if take 2 sndr = ''0x'' then
        (case hexDecode (drop 2 sndr) of None \<Rightarrow> Inl ErrInvalidHex | Some raw \<Rightarrow> Inr raw)
      else
        (case AccAddressFromBech32 E sndr of None \<Rightarrow> Inl ErrBech32 | Some a \<Rightarrow> Inr a))"

section \<open>Queries\<close>

definition QueryTxDistribution :: "'p Mempool \<Rightarrow> 'p \<Rightarrow> (string, nat) gomap" where
  "QueryTxDistribution M p = m_GetTxDistribution M p"

datatype query_error = ErrAddress address_error | ErrInvalidSequence string | ErrSequenceRange string

text \<open>\<open>newInt\<close> is the math library's parser of integers.\<close>

definition QueryTxHash ::
    "'s env \<Rightarrow> (string \<Rightarrow> int option) \<Rightarrow> 'p Mempool \<Rightarrow> 'p \<Rightarrow> string \<Rightarrow> string \<Rightarrow> query_error + string" where
  "QueryTxHash E newInt M p reqSender reqSequence =
     (case DecodeAddress E reqSender of
        Inl err \<Rightarrow> Inl (ErrAddress err)
      | Inr addr \<Rightarrow>
          (let sndr = AccAddress_String E addr in
           case newInt reqSequence of
             None \<Rightarrow> Inl (ErrInvalidSequence reqSequence)
           | Some n \<Rightarrow>
               (if \<not> (0 \<le> n \<and> n < 2 ^ 64) then Inl (ErrSequenceRange reqSequence)
                else case m_Lookup M p sndr (nat n) of Some h \<Rightarrow> Inr h | None \<Rightarrow> Inr '''')))"

section \<open>Configuration\<close>

record AppConfig =
  ac_MaxQueuedPerSender :: int
  ac_MaxQueuedTotal :: int
  ac_QueuedGapTTL :: int

definition DefaultAppConfig :: AppConfig where
  "DefaultAppConfig =
     \<lparr>ac_MaxQueuedPerSender = DefaultMaxQueuedPerSender, ac_MaxQueuedTotal = DefaultMaxQueuedTotal,
      ac_QueuedGapTTL = DefaultQueuedGapTTL\<rparr>"

text \<open>\<open>toInt\<close> and \<open>toDuration\<close> are the cast library's conversions of an option, given by its flag.\<close>

definition GetConfig :: "(string \<Rightarrow> int) \<Rightarrow> (string \<Rightarrow> int) \<Rightarrow> AppConfig" where
  "GetConfig toInt toDuration =
     \<lparr>ac_MaxQueuedPerSender = toInt ''abcipp.max-queued-per-sender'',
      ac_MaxQueuedTotal = toInt ''abcipp.max-queued-total'',
      ac_QueuedGapTTL = toDuration ''abcipp.queued-gap-ttl''\<rparr>"

section \<open>CheckTx and the pool\<close>

context mempool_laws
begin

lemma recheck_absent:
  assumes "ch_mempool h = M" and "rq_Recheck req" and "ch_txDecoder h (rq_Tx req) = Inr tx" and "\<not> m_Contains M p tx"
  shows "CheckTx h req p = (p, Some (ch_ErrorResponse h ''tx from comet mempool not found in app-side mempool''), None)"
  using assms by (simp add: CheckTx_def)

lemma recheck_purged:
  assumes "ch_mempool h = M" and "rq_Recheck req" and "ch_txDecoder h (rq_Tx req) = Inr tx" and "m_Contains M p tx"
    and "key tx = Some k" and "nonce k < 2 ^ 64 - 1"
    and "ch_checkTx h req p = (p1, resp, err)" and "isInvalidCheckTxExecution resp err" and "inv p1"
    and "CheckTx h req p = (q, r)"
  shows "inv q" and "\<not> m_Contains M q tx" and "m_Lookup M q s n = None \<or> m_Lookup M q s n = m_Lookup M p1 s n"
proof -
  have q: "q = m_RemoveWithReason M p1 tx RemovalReasonAnteRejectedInPrepare" using assms by (simp add: CheckTx_def)
  show "inv q" "\<not> m_Contains M q tx" "m_Lookup M q s n = None \<or> m_Lookup M q s n = m_Lookup M p1 s n"
    unfolding q using remove_inv [OF assms(9,5,6)] remove_not_contains [OF assms(9,5,6)] remove_others [OF assms(9,5,6)]
    by simp_all
qed

end

lemma TxHash_inj: "TxHash E a = TxHash E b \<longleftrightarrow> Tx_Hash E a = Tx_Hash E b"
  unfolding TxHash_def using hexDecode_toUpper by (metis option.inject)
end
