(* ===== verification/Mempool_Example.thy ===== *)
theory Mempool_Example
  imports Mempool_Machine Abci_Proposals Abci_CheckTx
begin

text \<open>
  A concrete node: two senders, the reference skip list, and the run that wires the app channel and
  inserts two active transactions and one queued transaction. The witnesses of the properties evaluate it.
\<close>

definition ex_env :: "unit env" where
  "ex_env =
     \<lparr>AccAddress_String = (\<lambda>a. a), AccAddressFromBech32 = Some, GetSequence = (\<lambda>_ _. Some 0),
      txEncoder = (\<lambda>_. Inl ''no encoder''), Tx_Hash = (\<lambda>bz. bz), skiplist_Set = insort_cmp compareEntries,
      skiplist_Remove = (\<lambda>e. filter (\<lambda>x. compareEntries x e \<noteq> 0))\<rparr>"

lemma ex_skiplist: "skiplist_ok ex_env"
  by (rule skiplist_ok_reference) (simp_all add: ex_env_def)

text \<open>A transaction is written as its sender and its nonce in one digit.\<close>

definition ex_tx :: "string \<Rightarrow> nat \<Rightarrow> sdk_tx" where
  "ex_tx s n = \<lparr>tx_sigVerifiable = True, tx_GetSignaturesV2 = Inr [\<lparr>sig_PubKey = Some s, sig_Sequence = n\<rparr>],
     tx_GetGas = Some 10, tx_GetExtensionOptions = Some [Some ExtensionOptionQueuedTxTypeURL]\<rparr>"

definition ex_dec :: "bytes \<Rightarrow> sdk_tx" where
  "ex_dec bz = ex_tx (take 1 bz) (of_char (bz ! 1) - 48)"

definition ex_ctx :: "bytes \<Rightarrow> int \<Rightarrow> unit sdk_ctx" where
  "ex_ctx bz pr = \<lparr>ctx_Priority = pr, ctx_TxBytes = bz, ctx_Block = Some \<lparr>MaxBytes = 100, MaxGas = 100\<rparr>,
     ctx_IsReCheckTx = False, ctx_store = ()\<rparr>"

definition ex_cfg :: "unit PriorityMempoolConfig" where
  "ex_cfg = \<lparr>cfg_MaxTx = 10, cfg_MaxQueuedPerSender = 4, cfg_MaxQueuedTotal = 8, cfg_QueuedGapTTL = 1000,
     cfg_Tiers = [], cfg_AnteHandler = None\<rparr>"


text \<open>The pool with its app channel wired, and with the first transaction of sender \<open>a\<close> inserted.\<close>

definition ex_p0 :: "unit PriorityMempool" where
  "ex_p0 = SetAppEventCh (NewPriorityMempool ex_cfg)"

definition ex_p1 :: "unit PriorityMempool" where
  "ex_p1 = fst (Insert_locked ex_env (ex_ctx ''a0'' 3) ex_p0 (ex_dec ''a0'') \<lparr>sender = ''a'', nonce = 0\<rparr> ''a0'' 10 0)"

definition ex_wired :: "unit node" where
  "ex_wired = (boot ex_cfg)\<lparr>pool := ex_p0\<rparr>"

definition ex_node :: "unit node" where
  "ex_node = ex_wired\<lparr>pool := ex_p1\<rparr>"

lemma ex_dec_a0: "ex_dec ''a0'' = ex_tx ''a'' 0"
  by (simp add: ex_dec_def)

lemma ex_tx_ok: "tx_ok ex_env (ex_ctx ''a0'' 3) (ex_dec ''a0'') \<lparr>sender = ''a'', nonce = 0\<rparr> 10"
  by (simp add: tx_ok_def ex_dec_a0 ex_tx_def txKeyFromTx_def FirstSignature_def ex_env_def ex_ctx_def is_i64_def)

lemma ex_step_wire: "step ex_env ex_dec (boot ex_cfg) L_Wire ex_wired"
  using step_SetAppEventCh [of ex_env ex_dec "boot ex_cfg"] by (simp add: ex_wired_def ex_p0_def boot_def)

lemma ex_step_insert: "step ex_env ex_dec ex_wired L_Insert ex_node"
proof -
  have room: "orderSeq (pool ex_wired) + 1 + maxQueuedPerSender (pool ex_wired) < 2 ^ 63" by code_simp
  have "ctx_TxBytes (ex_ctx ''a0'' 3) = ''a0''" by (simp add: ex_ctx_def)
  moreover have "Insert_locked ex_env (ex_ctx ''a0'' 3) (pool ex_wired) (ex_dec ''a0'') \<lparr>sender = ''a'', nonce = 0\<rparr> ''a0'' 10 0 =
      (ex_p1, snd (Insert_locked ex_env (ex_ctx ''a0'' 3) ex_p0 (ex_dec ''a0'') \<lparr>sender = ''a'', nonce = 0\<rparr> ''a0'' 10 0))"
    by (simp add: ex_wired_def ex_p1_def)
  ultimately show ?thesis
    unfolding ex_node_def using step_Insert [where dec = ex_dec and bz = "''a0''", OF refl ex_tx_ok _ room] by blast
qed

lemma ex_runs: "runs ex_env ex_dec ex_wired [L_Insert] ex_node"
  using runs_snoc [OF runs_Nil ex_step_insert] by simp

lemma ex_runs_boot: "runs ex_env ex_dec (boot ex_cfg) [L_Wire, L_Insert] ex_node"
  using runs_Cons [OF ex_step_wire ex_runs] .

lemma ex_tiers: "cfg_Tiers ex_cfg = []"
  by (simp add: ex_cfg_def)

lemma ex_pool: "pool ex_node = ex_p1"
  by (simp add: ex_node_def)

lemma ex_count: "CountTx ex_p1 = 1"
  by code_simp

lemma ex_queue: "map ev_Tx (appQueue ex_p1) = [''a0'']"
  by code_simp

definition ex_entry :: txEntry where
  "ex_entry = \<lparr>e_tx = ex_tx ''a'' 0, e_priority = 3, e_size = 2, e_key = \<lparr>sender = ''a'', nonce = 0\<rparr>, e_sequence = 0,
     e_order = 1, e_tier = 0, e_gas = 10, e_bytes = ''a0'', e_clampedPriority = 3, e_clampedOrder = 1\<rparr>"

lemma ex_index: "priorityIndex ex_p1 = [ex_entry]"
  by code_simp

lemma ex_channels: "appEventCh ex_p1 \<and> \<not> eventStop ex_p1"
  by code_simp

end
