(* ===== verification/Mempool_Properties.thy ===== *)
theory Mempool_Properties
  imports Mempool_Example
begin

text \<open>
  The properties of the priority mempool, its events, rechecks and ordering, stated on the nodes that
  the machine reaches from a freshly constructed pool, with witnesses on the example node.
\<close>

section \<open>What every reachable node satisfies\<close>

lemma reach_sound:
  assumes "skiplist_ok E" and "cfg_Tiers c = []" and "runs E dec (boot c) ls n"
  shows "node_ok E dec n" and "sound E (pool n)" and "pool_inv E (pool n)"
  using runs_node_ok [OF assms(3,1) boot_ok [OF assms(2)]] assms(1) by (simp_all add: node_ok_def pool_inv_def)

lemma ex_inv: "pool_inv ex_env ex_p1"
  using reach_sound(3) [OF ex_skiplist ex_tiers ex_runs_boot] by (simp add: ex_pool)



text \<open>
  C2: a reachable pool respects its limits: at most \<open>MaxTx\<close> active entries when that is set, and for
  every sender at most the configured number of queued transactions, or the default if none is configured.
\<close>

theorem reachable_capacity:
  assumes "skiplist_ok E" and "cfg_Tiers c = []" and "runs E dec (boot c) ls n"
  shows "(0 < cfg_MaxTx c \<longrightarrow> int (mlen (entries (pool n))) \<le> cfg_MaxTx c) \<and>
    (\<forall>s r. mget (senders (pool n)) s = Some r \<longrightarrow> int (mlen (queued (heap (pool n) r))) \<le>
      (if cfg_MaxQueuedPerSender c \<le> 0 then DefaultMaxQueuedPerSender else cfg_MaxQueuedPerSender c))"
proof -
  have st: "static (pool n) = static (NewPriorityMempool c)"
    using runs_static [OF assms(3,1) boot_ok [OF assms(2)]] by (simp add: boot_def)
  then have cap: "cfg (pool n) = c"
    "maxQueuedPerSender (pool n) = (if cfg_MaxQueuedPerSender c \<le> 0 then DefaultMaxQueuedPerSender else cfg_MaxQueuedPerSender c)"
    by (simp_all add: static_def NewPriorityMempool_def Let_def)
  note s = reach_sound(2) [OF assms]
  have "int (mlen (queued (heap (pool n) r))) \<le> maxQueuedPerSender (pool n)" if "mget (senders (pool n)) t = Some r" for t r
    using soundD(9) [OF s that] sinvD(7) by (auto simp: gm.len_card)
  then show ?thesis using soundD(3) [OF s] unfolding within_def cap by blast
qed

theorem reachable_capacity_witness:
  "runs ex_env ex_dec (boot ex_cfg) [L_Wire, L_Insert] ex_node \<and> int (mlen (entries (pool ex_node))) \<le> 10"
  using reachable_capacity [OF ex_skiplist ex_tiers ex_runs_boot] ex_runs_boot by (simp add: ex_cfg_def)



text \<open>
  C4: no event is stuck. In every reachable node whose app channel is wired and not stopped, steps of
  the app dispatcher alone deliver everything that is pending, in the order it was logged, and leave
  the dispatcher waiting with an empty queue and the pool's content untouched.
\<close>

theorem event_delivery:
  assumes "skiplist_ok E" and "cfg_Tiers c = []" and "runs E dec (boot c) ls n"
    and "appEventCh (pool n)" and "\<not> eventStop (pool n)"
  shows "\<exists>ls' n'. runs E dec n ls' n' \<and> set ls' \<subseteq> {L_App} \<and> appSent n' = eventLog n \<and> appD n' = Waiting \<and>
    appQueue (pool n') = [] \<and> poolBytes (pool n') = poolBytes (pool n)"
  by (rule delivers [OF reach_sound(1) [OF assms(1-3)] assms(4,5)])

theorem event_delivery_witness:
  "map ev_Tx (eventLog ex_node) = [''a0''] \<and> (\<exists>ls' n'. runs ex_env ex_dec ex_node ls' n' \<and> appSent n' = eventLog ex_node)"
proof -
  have "eventLog ex_node = appQueue ex_p1"
    by (simp add: eventLog_def ex_node_def ex_wired_def boot_def inflight_def)
  then show ?thesis
    using event_delivery [OF ex_skiplist ex_tiers ex_runs_boot] ex_channels ex_queue by (auto simp: ex_pool)
qed

section \<open>Insertion, removal and promotion\<close>







section \<open>Rechecks, queries and ordering\<close>

text \<open>
  C12: a recheck of a transaction that a reachable pool holds and that the application now rejects
  takes it out of the pool. The application's own CheckTx may have moved the pool to another reachable
  node first; nothing else of that pool is changed, except by being removed.
\<close>

theorem recheck_purges:
  assumes "skiplist_ok E" and "cfg_Tiers c = []" and "runs E dec (boot c) ls n" and "runs E dec (boot c) ls1 n1"
    and "ch_mempool h = PriorityMempool_iface E" and "rq_Recheck req" and "ch_txDecoder h (rq_Tx req) = Inr tx"
    and "Contains E (pool n) tx" and "txKeyFromTx E tx = Inr k" and "nonce k < 2 ^ 64 - 1"
    and "ch_checkTx h req (pool n) = (pool n1, resp, err)" and "isInvalidCheckTxExecution resp err"
    and "CheckTx h req (pool n) = (q, r)"
  shows "ValidateInvariants q = None \<and> \<not> Contains E q tx \<and>
    (Lookup E q s m = None \<or> Lookup E q s m = Lookup E (pool n1) s m)"
proof -
  have k: "keyOf E tx = Some k" using assms(9) by (simp add: keyOf_def)
  have c: "m_Contains (PriorityMempool_iface E) (pool n) tx" using assms(8) by (simp add: PriorityMempool_iface_def)
  note rp = pm.recheck_purged [OF assms(5-7) c k assms(10-12) reach_sound(3) [OF assms(1,2,4)] assms(13)]
  from rp(1) have "ValidateInvariants q = None" using ValidateInvariants_sound [of E q] by (simp add: pool_inv_def)
  with rp(2) rp(3) [of s m] show ?thesis by (simp add: PriorityMempool_iface_def)
qed

definition ex_check :: "unit PriorityMempool CheckTxHandler" where
  "ex_check = \<lparr>ch_mempool = PriorityMempool_iface ex_env, ch_txDecoder = (\<lambda>bz. Inr (ex_dec bz)),
     ch_checkTx = (\<lambda>req p. (p, Some \<lparr>rs_Code = 1, rs_Log = ''rejected''\<rparr>, None)),
     ch_ErrorResponse = (\<lambda>msg. \<lparr>rs_Code = 2, rs_Log = msg\<rparr>)\<rparr>"

lemma ex_contains: "Contains ex_env ex_p1 (ex_dec ''a0'')"
  by code_simp

theorem recheck_purges_witness:
  "\<not> Contains ex_env (fst (CheckTx ex_check \<lparr>rq_Tx = ''a0'', rq_Recheck = True\<rparr> (pool ex_node))) (ex_dec ''a0'')"
proof -
  have "txKeyFromTx ex_env (ex_dec ''a0'') = Inr \<lparr>sender = ''a'', nonce = 0\<rparr>" using ex_tx_ok by (simp add: tx_ok_def)
  from recheck_purges [OF ex_skiplist ex_tiers ex_runs_boot ex_runs_boot _ _ _ _ this _ _ _ prod.collapse [symmetric],
      of ex_check "\<lparr>rq_Tx = ''a0'', rq_Recheck = True\<rparr>" "Some \<lparr>rs_Code = 1, rs_Log = ''rejected''\<rparr>" None] ex_contains
  show ?thesis by (simp add: ex_check_def ex_pool isInvalidCheckTxExecution_def)
qed

text \<open>
  C13: a lookup by sender and nonce in a reachable pool returns the hash of the transaction the pool
  holds there, active or queued, and nothing if it holds none.
\<close>

theorem lookup_exact:
  assumes "skiplist_ok E" and "cfg_Tiers c = []" and "runs E dec (boot c) ls n"
  shows "Lookup E (pool n) s k = map_option (\<lambda>(tx, bz, pr). TxHash E bz) (held (pool n) \<lparr>sender = s, nonce = k\<rparr>)"
  by (rule Lookup_held [OF soundD(1) [OF reach_sound(2) [OF assms]]])

theorem lookup_exact_witness:
  "Lookup ex_env (pool ex_node) ''b'' 4 = map_option (\<lambda>(tx, bz, pr). TxHash ex_env bz) (held (pool ex_node) \<lparr>sender = ''b'', nonce = 4\<rparr>)"
  by (rule lookup_exact [OF ex_skiplist ex_tiers ex_runs_boot])



text \<open>
  C15: \<open>compareEntries\<close> is the lexicographic order on score, order of arrival, sender and nonce, the
  score descending; in particular it is a strict total order on entries with different keys.
\<close>

theorem compareEntries_rank:
  "compareEntries a b =
    (if rankOf a < rankOf b then -1 else if rankOf a = rankOf b then 0 else 1) \<and>
   (compareEntries a b = 0 \<longleftrightarrow> e_key a = e_key b \<and> e_clampedPriority a = e_clampedPriority b \<and>
      e_clampedOrder a = e_clampedOrder b)"
  unfolding compareEntries_cases by (auto simp: rankOf_def txKey.equality)

text \<open>
  C16: the score puts the tier before the priority as long as priorities are non-negative and below
  \<open>2 ^ 50\<close> in the worse tier, and the tier index is below \<open>2 ^ 12\<close>.
\<close>

theorem tier_dominates:
  assumes "0 \<le> t" and "t < t'" and "t' < 2 ^ 12" and "0 \<le> p" and "p < 2 ^ 63" and "0 \<le> p'" and "p' < 2 ^ 50"
  shows "scoreByTierPriority t' p' < scoreByTierPriority t p"
proof -
  have b: "0 \<le> t * 2 ^ 50" "t * 2 ^ 50 + 2 ^ 50 \<le> t' * 2 ^ 50" "t' * 2 ^ 50 < 2 ^ 62" using assms(1-3) by simp_all
  then have "i64 (t * 2 ^ 50) = t * 2 ^ 50" "i64 (t' * 2 ^ 50) = t' * 2 ^ 50"
    by (simp_all add: i64_id is_i64_def)
  moreover have "i64 (p - t * 2 ^ 50) = p - t * 2 ^ 50" "i64 (p' - t' * 2 ^ 50) = p' - t' * 2 ^ 50"
    using b assms(4-7) by (simp_all add: i64_id is_i64_def)
  ultimately show ?thesis using b assms(4-7) by (simp add: scoreByTierPriority_def)
qed

theorem tier_dominates_witness:
  "scoreByTierPriority 1 1000 < scoreByTierPriority 0 1"
  using tier_dominates [of 0 1 1 1000] by simp



text \<open>
  C19: when the lowest queued nonce of a sender is removed and the next one is \<open>m\<close>, the new lower bound
  is \<open>m\<close>, and finding it takes as many iterations as there are nonces in between, however few
  transactions are queued: the cap on the queue does not bound the scan.
\<close>

theorem queuedMin_scan_cost:
  assumes "mget (queued ss) m = Some e" and "queuedMin ss < m"
    and "\<forall>k. queuedMin ss < k \<and> k < m \<longrightarrow> mget (queued ss) k = None"
    and "m \<le> queuedMax ss" and "queuedMax ss \<in> mdom (queued ss)" and "queuedMax ss < 2 ^ 64"
  shows "queuedMin (setQueuedRangeOnRemoveLocked ss (queuedMin ss)) = m \<and>
    scanUp_steps (queued ss) (queuedMin ss + 1) (queuedMax ss) = m - queuedMin ss"
proof -
  let ?q = "queued ss" and ?n = "queuedMin ss + 1" and ?hi = "queuedMax ss"
  have le: "?n \<le> ?hi" using assms(2,4) by simp
  have a: "scanUp ?q ?n ?hi \<in> mdom ?q" "?n \<le> scanUp ?q ?n ?hi" "\<forall>k\<in>mdom ?q. ?n \<le> k \<longrightarrow> scanUp ?q ?n ?hi \<le> k"
    using scanUp_least [OF le assms(5)] by simp_all
  have "m \<in> mdom ?q" using assms(1) by blast
  then have "scanUp ?q ?n ?hi \<le> m" using a(3) assms(2) by simp
  moreover have "\<not> scanUp ?q ?n ?hi < m" using a(1,2) assms(3) by force
  ultimately have sc: "scanUp ?q ?n ?hi = m" by simp
  have "u64 ?n = ?n" using le assms(6) by (simp add: u64_def)
  moreover have "mlen ?q \<noteq> 0" using gm.len_pos [OF assms(1)] by simp
  ultimately show ?thesis
    using sc scanUp_steps_eq [OF le, of ?q] assms(2) by (simp add: setQueuedRangeOnRemoveLocked_def)
qed

definition ex_gap :: senderState where
  "ex_gap = \<lparr>onChainSeq = 0, gapSince = None, activeMin = 0, activeMax = 0, active = mempty, queuedMin = 1,
     queuedMax = 1000000, queued = mput mempty 1000000 ex_entry\<rparr>"

theorem queuedMin_scan_cost_witness:
  "mlen (queued ex_gap) = 1 \<and> scanUp_steps (queued ex_gap) (1 + 1) 1000000 = 999999"
  using queuedMin_scan_cost [of ex_gap 1000000 ex_entry]
  by (auto simp: ex_gap_def gm.len_put gm.len_card)

end
