(* ===== verification/Go_Outcome.thy ===== *)
theory Go_Outcome
  imports Go_Strings "HOL-Library.Word"
begin

text \<open>
  The outcome of a Go call that can return an error or panic, its sequencing, and Go's slice
  expressions on byte slices. A slice expression out of bounds panics; a byte slice that comes out
  of the store or the VM is taken to have no spare capacity, so its capacity is its length.
\<close>

datatype ('e, 'a) outcome = Ok 'a | Fail 'e | Panic

fun obind :: "('e, 'a) outcome \<Rightarrow> ('a \<Rightarrow> ('e, 'b) outcome) \<Rightarrow> ('e, 'b) outcome" where
  "obind (Ok x) f = f x"
| "obind (Fail e) f = Fail e"
| "obind Panic f = Panic"

definition orFail :: "'e \<Rightarrow> 'a option \<Rightarrow> ('e, 'a) outcome" where
  "orFail e x = (case x of None \<Rightarrow> Fail e | Some v \<Rightarrow> Ok v)"

definition orPanic :: "'a option \<Rightarrow> ('e, 'a) outcome" where
  "orPanic x = (case x of None \<Rightarrow> Panic | Some v \<Rightarrow> Ok v)"

definition guard :: "bool \<Rightarrow> 'e \<Rightarrow> ('e, unit) outcome" where
  "guard b e = (if b then Ok () else Fail e)"

definition mapFail :: "('e \<Rightarrow> 'f) \<Rightarrow> ('e, 'a) outcome \<Rightarrow> ('f, 'a) outcome" where
  "mapFail f x = (case x of Ok v \<Rightarrow> Ok v | Fail e \<Rightarrow> Fail (f e) | Panic \<Rightarrow> Panic)"

text \<open>\<open>bz[lo:hi]\<close> and \<open>bz[lo:]\<close>.\<close>

definition subslice :: "bytes \<Rightarrow> int \<Rightarrow> int \<Rightarrow> ('e, bytes) outcome" where
  "subslice bz lo hi =
     (if 0 \<le> lo \<and> lo \<le> hi \<and> hi \<le> int (length bz)
      then Ok (take (nat (hi - lo)) (drop (nat lo) bz)) else Panic)"

definition sliceFrom :: "bytes \<Rightarrow> int \<Rightarrow> ('e, bytes) outcome" where
  "sliceFrom bz lo = subslice bz lo (int (length bz))"

text \<open>\<open>xs[i]\<close> on a slice.\<close>

definition index :: "'a list \<Rightarrow> int \<Rightarrow> ('e, 'a) outcome" where
  "index xs i = (if 0 \<le> i \<and> i < int (length xs) then Ok (xs ! nat i) else Panic)"

section \<open>Lemmas\<close>

lemma obind_Ok_iff: "obind x f = Ok y \<longleftrightarrow> (\<exists>v. x = Ok v \<and> f v = Ok y)"
  by (cases x) simp_all

lemma obind_Panic_iff: "obind x f = Panic \<longleftrightarrow> x = Panic \<or> (\<exists>v. x = Ok v \<and> f v = Panic)"
  by (cases x) simp_all

lemma obind_assoc: "obind (obind x f) g = obind x (\<lambda>v. obind (f v) g)"
  by (cases x) simp_all

lemma orFail_simps [simp]: "orFail e None = Fail e" "orFail e (Some v) = Ok v"
  by (simp_all add: orFail_def)

lemma orPanic_simps [simp]: "orPanic None = Panic" "orPanic (Some v) = Ok v"
  by (simp_all add: orPanic_def)

lemma orFail_Ok [simp]: "orFail e x = Ok v \<longleftrightarrow> x = Some v"
  by (cases x) simp_all

lemma orPanic_Ok [simp]: "orPanic x = Ok v \<longleftrightarrow> x = Some v"
  by (cases x) simp_all

lemma guard_Ok [simp]: "guard b e = Ok u \<longleftrightarrow> b"
  by (simp add: guard_def)

lemma guard_simps [simp]: "guard True e = Ok ()" "guard False e = Fail e"
  by (simp_all add: guard_def)

lemma mapFail_simps [simp]:
  "mapFail f (Ok v) = Ok v" "mapFail f (Fail e) = Fail (f e)" "mapFail f Panic = Panic"
  by (simp_all add: mapFail_def)

lemma mapFail_Ok [simp]: "mapFail f x = Ok v \<longleftrightarrow> x = Ok v"
  by (cases x) simp_all

lemma subslice_middle: "subslice (u @ v @ w) (int (length u)) (int (length u) + int (length v)) = Ok v"
  by (simp add: subslice_def)

lemma subslice_middle': "lo = int (length u) \<Longrightarrow> hi = lo + int (length v) \<Longrightarrow> subslice (u @ v @ w) lo hi = Ok v"
  using subslice_middle by blast

lemma sliceFrom_append: "lo = int (length u) \<Longrightarrow> sliceFrom (u @ v) lo = Ok v"
  by (simp add: sliceFrom_def subslice_def)

lemma index_Ok: "index xs i = Ok x \<longleftrightarrow> 0 \<le> i \<and> i < int (length xs) \<and> x = xs ! nat i"
  by (auto simp: index_def)

end
