(* ===== verification/Move_Bcs.thy ===== *)
theory Move_Bcs
  imports Go_Outcome
begin

text \<open>
  Model of the readers of \<open>x/move/types/connector.go\<close>, which take fields out of the BCS encoding of
  Move resources, and of the price arithmetic beside them. Every reader moves an \<open>int\<close> cursor over
  the bytes; an index or slice out of bounds is a panic. The address and number decoders belong to
  the \<open>movevm\<close> module and the \<open>Int\<close> and \<open>LegacyDec\<close> types to \<open>cosmossdk.io/math\<close>: they are the
  parameters \<open>vmLib\<close> and \<open>mathLib\<close>. The lemmas show that a reader returns the fields that were
  encoded.
\<close>

unbundle bit_operations_syntax

section \<open>Parameters\<close>

record vmLib =
  NewAccountAddressFromBytes :: "bytes \<Rightarrow> bytes option"
  vm_DeserializeUint64 :: "bytes \<Rightarrow> nat option"
  vm_DeserializeUint128 :: "bytes \<Rightarrow> (nat \<times> nat) option"
  SerializeString :: "string \<Rightarrow> bytes option"
  CanonicalString :: "bytes \<Rightarrow> string"
  StdAddress :: bytes
  sha3_256 :: "bytes \<Rightarrow> bytes"

text \<open>\<open>None\<close> is a panic of the library on overflow or on division by zero.\<close>

record ('i, 'd) mathLib =
  NewIntFromBigInt :: "int \<Rightarrow> 'i option"
  NewIntFromUint64 :: "nat \<Rightarrow> 'i"
  BigInt :: "'i \<Rightarrow> int"
  Int_GT :: "'i \<Rightarrow> 'i \<Rightarrow> bool"
  Int_GTE :: "'i \<Rightarrow> 'i \<Rightarrow> bool"
  Int_IsZero :: "'i \<Rightarrow> bool"
  Int_Sub :: "'i \<Rightarrow> 'i \<Rightarrow> 'i option"
  LegacyNewDecFromIntWithPrec :: "'i \<Rightarrow> nat \<Rightarrow> 'd"
  LegacyZeroDec :: 'd
  Dec_MulInt :: "'d \<Rightarrow> 'i \<Rightarrow> 'd option"
  Dec_Add :: "'d \<Rightarrow> 'd \<Rightarrow> 'd option"
  Dec_QuoInt :: "'d \<Rightarrow> 'i \<Rightarrow> 'd option"
  Dec_QuoTruncate :: "'d \<Rightarrow> 'd \<Rightarrow> 'd option"

datatype move_error =
    ErrAddressBytes
  | ErrNumberBytes
  | ErrShortPool nat
  | ErrZeroSqrtPrice

type_synonym 'a reading = "(move_error, 'a) outcome"

definition AddressBytesLength :: int where
  "AddressBytesLength = 32"

section \<open>Numbers\<close>

text \<open>
  The loop of \<open>readULEB128\<close>: \<open>int(b&0x7F) << shift\<close> is zero once the shift reaches 64, and \<open>total\<close>
  (\<open>tot\<close>) is a signed 64-bit value.
\<close>

fun readULEB128_loop :: "bytes \<Rightarrow> nat \<Rightarrow> 64 word \<Rightarrow> int \<Rightarrow> (int \<times> int) reading" where
  "readULEB128_loop [] shift tot len = Panic"
| "readULEB128_loop (c # r) shift tot len =
     (let b = (of_char c :: 64 word);
          len = len + 1;
          tot = tot OR push_bit shift (b AND 0x7F)
      in if b AND 0x80 = 0 then Ok (sint tot, len)
         else readULEB128_loop r (u64 (shift + 7)) tot len)"

definition readULEB128 :: "bytes \<Rightarrow> (int \<times> int) reading" where
  "readULEB128 r = readULEB128_loop r 0 0 0"

definition DeserializeUint64 :: "vmLib \<Rightarrow> ('i, 'd) mathLib \<Rightarrow> bytes \<Rightarrow> 'i reading" where
  "DeserializeUint64 V M bz =
     obind (orFail ErrNumberBytes (vm_DeserializeUint64 V bz)) (\<lambda>val. Ok (NewIntFromUint64 M val))"

text \<open>\<open>big.Int.SetBytes\<close>: big-endian, unsigned.\<close>

definition SetBytes :: "bytes \<Rightarrow> int" where
  "SetBytes bz = foldl (\<lambda>n c. 256 * n + of_char c) 0 bz"

definition DeserializeBigDecimal :: "('i, 'd) mathLib \<Rightarrow> bytes \<Rightarrow> 'd reading" where
  "DeserializeBigDecimal M bz =
     obind (orPanic (NewIntFromBigInt M (SetBytes (rev bz)))) (\<lambda>num.
     Ok (LegacyNewDecFromIntWithPrec M num 18))"

definition DeserializeUint128 :: "vmLib \<Rightarrow> ('i, 'd) mathLib \<Rightarrow> bytes \<Rightarrow> 'i reading" where
  "DeserializeUint128 V M bz =
     obind (orFail ErrNumberBytes (vm_DeserializeUint128 V bz)) (\<lambda>(high, low).
     orPanic (NewIntFromBigInt M (int high * 2 ^ 64 + int low)))"

section \<open>Cursor steps\<close>

text \<open>
  The steps the readers repeat: read a length-prefixed byte string, skip one, and read an address
  or a 64-bit number at the cursor. Each returns the moved cursor.
\<close>

definition readVec :: "bytes \<Rightarrow> int \<Rightarrow> (bytes \<times> int) reading" where
  "readVec bz cursor =
     obind (sliceFrom bz cursor) (\<lambda>r.
     obind (readULEB128 r) (\<lambda>(vecLen, len).
     let cursor = i64 (cursor + len) in
     obind (subslice bz cursor (i64 (cursor + vecLen))) (\<lambda>s.
     Ok (s, i64 (cursor + vecLen)))))"

definition skipVec :: "bytes \<Rightarrow> int \<Rightarrow> int reading" where
  "skipVec bz cursor =
     obind (sliceFrom bz cursor) (\<lambda>r.
     obind (readULEB128 r) (\<lambda>(vecLen, len).
     Ok (i64 (cursor + i64 (vecLen + len)))))"

definition readAddress :: "vmLib \<Rightarrow> bytes \<Rightarrow> int \<Rightarrow> bytes reading" where
  "readAddress V bz cursor =
     obind (subslice bz cursor (i64 (cursor + AddressBytesLength))) (\<lambda>s.
     orFail ErrAddressBytes (NewAccountAddressFromBytes V s))"

definition readUint64 :: "vmLib \<Rightarrow> bytes \<Rightarrow> int \<Rightarrow> nat reading" where
  "readUint64 V bz cursor =
     obind (subslice bz cursor (i64 (cursor + 8))) (\<lambda>s.
     orFail ErrNumberBytes (vm_DeserializeUint64 V s))"

section \<open>Tables, metadata and stores\<close>

definition ReadTableHandleFromTable :: "vmLib \<Rightarrow> bytes \<Rightarrow> bytes reading" where
  "ReadTableHandleFromTable V bz = readAddress V bz 0"

definition ReadTableLengthFromTable :: "vmLib \<Rightarrow> ('i, 'd) mathLib \<Rightarrow> bytes \<Rightarrow> 'i reading" where
  "ReadTableLengthFromTable V M bz =
     obind (subslice bz AddressBytesLength (AddressBytesLength + 8)) (DeserializeUint64 V M)"

definition ReadSymbolFromMetadata :: "bytes \<Rightarrow> string reading" where
  "ReadSymbolFromMetadata bz =
     obind (skipVec bz 0) (\<lambda>cursor.
     obind (readVec bz cursor) (\<lambda>(symbol, _).
     Ok symbol))"

definition ReadSupplyFromSupply :: "vmLib \<Rightarrow> ('i, 'd) mathLib \<Rightarrow> bytes \<Rightarrow> 'i reading" where
  "ReadSupplyFromSupply V M bz = obind (subslice bz 0 16) (DeserializeUint128 V M)"

definition ReadBalanceFromFungibleStore :: "vmLib \<Rightarrow> ('i, 'd) mathLib \<Rightarrow> bytes \<Rightarrow> (bytes \<times> 'i) reading" where
  "ReadBalanceFromFungibleStore V M bz =
     obind (readAddress V bz 0) (\<lambda>metadata.
     obind (readUint64 V bz AddressBytesLength) (\<lambda>amount.
     Ok (metadata, NewIntFromUint64 M amount)))"

definition ReadIssuersTableHandleFromModuleStore :: "vmLib \<Rightarrow> bytes \<Rightarrow> bytes reading" where
  "ReadIssuersTableHandleFromModuleStore V bz =
     obind (subslice bz 0 (AddressBytesLength + 8)) (ReadTableHandleFromTable V)"

definition ReadUserStoresTableHandleFromModuleStore :: "vmLib \<Rightarrow> bytes \<Rightarrow> bytes reading" where
  "ReadUserStoresTableHandleFromModuleStore V bz =
     (let cursor = AddressBytesLength + 8 in
      obind (subslice bz cursor (cursor + AddressBytesLength + 8)) (ReadTableHandleFromTable V))"

definition ReadMetadataTableHandleFromMetadataStore :: "vmLib \<Rightarrow> bytes \<Rightarrow> bytes reading" where
  "ReadMetadataTableHandleFromMetadataStore V bz =
     obind (subslice bz 0 (AddressBytesLength + 8)) (ReadTableHandleFromTable V)"

definition ReadStakingStatesTableHandleFromModuleStore :: "vmLib \<Rightarrow> bytes \<Rightarrow> bytes reading" where
  "ReadStakingStatesTableHandleFromModuleStore V bz =
     obind (subslice bz 0 (AddressBytesLength + 8)) (ReadTableHandleFromTable V)"

text \<open>\<open>UpgradePolicy(int8(bz[0]))\<close>: the byte read as a signed 8-bit value.\<close>

definition ReadUpgradePolicyFromModuleMetadata :: "bytes \<Rightarrow> int reading" where
  "ReadUpgradePolicyFromModuleMetadata bz =
     obind (index bz 0) (\<lambda>c. Ok (sint (of_char c :: 8 word)))"

section \<open>The dex\<close>

definition GetPoolWeights ::
    "('i, 'd) mathLib \<Rightarrow> 'd \<Rightarrow> 'd \<Rightarrow> 'd \<Rightarrow> 'd \<Rightarrow> 'i \<Rightarrow> 'i \<Rightarrow> 'i \<Rightarrow> ('d \<times> 'd) reading" where
  "GetPoolWeights M aBefore bBefore aAfter bAfter timestampBefore timestampAfter timestamp =
     (if Int_GT M timestampBefore timestamp then Ok (aBefore, bBefore)
      else if Int_GTE M timestamp timestampAfter then Ok (aAfter, bAfter)
      else
        obind (orPanic (Int_Sub M timestampAfter timestampBefore)) (\<lambda>interval.
        obind (orPanic (Int_Sub M timestamp timestampBefore)) (\<lambda>timeDiffBefore.
        obind (orPanic (Int_Sub M timestampAfter timestamp)) (\<lambda>timeDiffAfter.
        let weigh = (\<lambda>after before.
              obind (orPanic (Dec_MulInt M after timeDiffBefore)) (\<lambda>x.
              obind (orPanic (Dec_MulInt M before timeDiffAfter)) (\<lambda>y.
              obind (orPanic (Dec_Add M x y)) (\<lambda>s.
              orPanic (Dec_QuoInt M s interval)))))
        in obind (weigh aAfter aBefore) (\<lambda>weightCoinA.
           obind (weigh bAfter bBefore) (\<lambda>weightCoinB.
           Ok (weightCoinA, weightCoinB)))))))"

definition GetBaseSpotPrice :: "('i, 'd) mathLib \<Rightarrow> 'i \<Rightarrow> 'i \<Rightarrow> 'd \<Rightarrow> 'd \<Rightarrow> 'd reading" where
  "GetBaseSpotPrice M balanceBase balanceQuote weightBase weightQuote =
     (if Int_IsZero M balanceBase \<or> Int_IsZero M balanceQuote then Ok (LegacyZeroDec M)
      else
        obind (orPanic (Dec_MulInt M weightQuote balanceBase)) (\<lambda>numerator.
        obind (orPanic (Dec_MulInt M weightBase balanceQuote)) (\<lambda>denominator.
        orPanic (Dec_QuoTruncate M numerator denominator))))"

definition ReadWeightsFromDexConfig ::
    "vmLib \<Rightarrow> ('i, 'd) mathLib \<Rightarrow> 'i \<Rightarrow> bytes \<Rightarrow> ('d \<times> 'd) reading" where
  "ReadWeightsFromDexConfig V M timestamp bz =
     (let readDec = (\<lambda>cursor.
            obind (readVec bz cursor) (\<lambda>(s, cursor).
            obind (DeserializeBigDecimal M s) (\<lambda>d. Ok (d, cursor))));
          readTime = (\<lambda>cursor.
            obind (subslice bz cursor (i64 (cursor + 8))) (\<lambda>s.
            obind (DeserializeUint64 V M s) (\<lambda>t. Ok (t, i64 (cursor + 8)))))
      in obind (readDec (AddressBytesLength + 8)) (\<lambda>(weightCoinABefore, cursor).
         obind (readDec cursor) (\<lambda>(weightCoinBBefore, cursor).
         obind (readTime cursor) (\<lambda>(timestampBefore, cursor).
         obind (readDec cursor) (\<lambda>(weightCoinAAfter, cursor).
         obind (readDec cursor) (\<lambda>(weightCoinBAfter, cursor).
         obind (readTime cursor) (\<lambda>(timestampAfter, _).
         GetPoolWeights M weightCoinABefore weightCoinBBefore weightCoinAAfter weightCoinBAfter
           timestampBefore timestampAfter timestamp)))))))"

definition ReadStoresFromPool :: "vmLib \<Rightarrow> bytes \<Rightarrow> (bytes \<times> bytes) reading" where
  "ReadStoresFromPool V bz =
     obind (readAddress V bz 0) (\<lambda>storeAAddr.
     obind (readAddress V bz AddressBytesLength) (\<lambda>storeBAddr.
     Ok (storeAAddr, storeBAddr)))"

definition ReadCLAMMPool :: "vmLib \<Rightarrow> ('i, 'd) mathLib \<Rightarrow> bytes \<Rightarrow> (bytes \<times> bytes \<times> 'i) reading" where
  "ReadCLAMMPool V M bz =
     obind (guard (\<not> length bz < 232 + 16) (ErrShortPool (length bz))) (\<lambda>_.
     obind (readAddress V bz 0) (\<lambda>metadata0.
     obind (readAddress V bz AddressBytesLength) (\<lambda>metadata1.
     obind (subslice bz 232 (232 + 16)) (\<lambda>s.
     obind (DeserializeUint128 V M s) (\<lambda>sqrtPrice.
     Ok (metadata0, metadata1, sqrtPrice))))))"

text \<open>
  The scaled integer of \<open>CLAMMBaseSpotPrice\<close>; \<open>big.Int.Quo\<close> truncates towards zero, which is
  division here since both operands are non-negative.
\<close>

definition clammPrice :: "int \<Rightarrow> bool \<Rightarrow> int" where
  "clammPrice sqrtPrice isBase0 =
     (let two128 = 2 ^ 128; precision = 10 ^ 18; sqrtPriceSq = sqrtPrice * sqrtPrice
      in if isBase0 then (two128 * precision) div sqrtPriceSq
         else (sqrtPriceSq * precision) div two128)"

definition CLAMMBaseSpotPrice :: "('i, 'd) mathLib \<Rightarrow> 'i \<Rightarrow> bool \<Rightarrow> 'd reading" where
  "CLAMMBaseSpotPrice M sqrtPrice isBase0 =
     obind (guard (BigInt M sqrtPrice \<noteq> 0) ErrZeroSqrtPrice) (\<lambda>_.
     obind (orPanic (NewIntFromBigInt M (clammPrice (BigInt M sqrtPrice) isBase0))) (\<lambda>n.
     Ok (LegacyNewDecFromIntWithPrec M n 18)))"

text \<open>The loops that read a vector of addresses; converting a slice of the right length cannot fail.\<close>

fun readAddresses :: "(bytes \<Rightarrow> int \<Rightarrow> bytes reading) \<Rightarrow> bytes \<Rightarrow> int \<Rightarrow> nat \<Rightarrow> bytes list reading" where
  "readAddresses rd bz cursor 0 = Ok []"
| "readAddresses rd bz cursor (Suc n) =
     obind (rd bz cursor) (\<lambda>a.
     obind (readAddresses rd bz (i64 (cursor + AddressBytesLength)) n) (\<lambda>as.
     Ok (a # as)))"

text \<open>\<open>make([]T, n)\<close> panics for a negative length; the allocation itself is taken to succeed.\<close>

definition ReadCodeModuleStore :: "vmLib \<Rightarrow> bytes \<Rightarrow> bytes list reading" where
  "ReadCodeModuleStore V bz =
     obind (sliceFrom bz 0) (\<lambda>r.
     obind (readULEB128 r) (\<lambda>(addrsLen, len).
     if addrsLen < 0 then Panic
     else readAddresses (readAddress V) bz len (nat addrsLen)))"

definition ReadStableSwapPool :: "bytes \<Rightarrow> bytes list reading" where
  "ReadStableSwapPool bz =
     obind (skipVec bz (AddressBytesLength + 8 + 8 * 4)) (\<lambda>cursor.
     obind (sliceFrom bz cursor) (\<lambda>r.
     obind (readULEB128 r) (\<lambda>(numMetadata, len).
     if numMetadata < 0 then Panic
     else readAddresses (\<lambda>bz c. subslice bz c (i64 (c + AddressBytesLength))) bz (i64 (cursor + len))
            (nat numMetadata))))"

section \<open>Staking, vesting, collections and tokens\<close>

definition ReadUnbondingInfosFromStakingState ::
    "vmLib \<Rightarrow> ('i, 'd) mathLib \<Rightarrow> bytes \<Rightarrow> ('d \<times> bytes) reading" where
  "ReadUnbondingInfosFromStakingState V M bz =
     obind (skipVec bz AddressBytesLength) (\<lambda>cursor.
     obind (skipVec bz cursor) (\<lambda>cursor.
     obind (readVec bz cursor) (\<lambda>(s, cursor).
     obind (DeserializeBigDecimal M s) (\<lambda>unbondingShare.
     obind (skipVec bz cursor) (\<lambda>cursor.
     let cursor = i64 (cursor + (AddressBytesLength + 8) + (AddressBytesLength + 8) + AddressBytesLength) in
     obind (readAddress V bz cursor) (\<lambda>unbondingCoinStore.
     Ok (unbondingShare, unbondingCoinStore)))))))"

text \<open>Creator, name, URI and description, in the order of the Go results.\<close>

definition ReadCollectionInfo :: "vmLib \<Rightarrow> bytes \<Rightarrow> (bytes \<times> string \<times> string \<times> string) reading" where
  "ReadCollectionInfo V bz =
     obind (readAddress V bz 0) (\<lambda>creator.
     obind (readVec bz AddressBytesLength) (\<lambda>(desc, cursor).
     obind (readVec bz cursor) (\<lambda>(name, cursor).
     obind (readVec bz cursor) (\<lambda>(uri, cursor).
     Ok (creator, name, uri, desc)))))"

definition ReadNftInfo :: "bytes \<Rightarrow> (string \<times> string \<times> string) reading" where
  "ReadNftInfo bz =
     obind (readVec bz AddressBytesLength) (\<lambda>(tokenDesc, cursor).
     obind (readVec bz cursor) (\<lambda>(tokenId, cursor).
     obind (readVec bz cursor) (\<lambda>(tokenUri, cursor).
     Ok (tokenId, tokenUri, tokenDesc))))"

definition ReadFungibleAssetMetadata :: "bytes \<Rightarrow> (string \<times> string \<times> char) reading" where
  "ReadFungibleAssetMetadata bz =
     obind (readVec bz 0) (\<lambda>(name, cursor).
     obind (readVec bz cursor) (\<lambda>(symbol, cursor).
     obind (index bz cursor) (\<lambda>decimals.
     Ok (name, symbol, decimals))))"

definition ReadVesting :: "vmLib \<Rightarrow> bytes \<Rightarrow> (nat \<times> nat \<times> nat \<times> nat) reading" where
  "ReadVesting V bz =
     obind (readUint64 V bz 0) (\<lambda>allocation.
     obind (readUint64 V bz 8) (\<lambda>claimedAmount.
     obind (readUint64 V bz 16) (\<lambda>startTime.
     obind (readUint64 V bz 24) (\<lambda>vestingPeriod.
     Ok (allocation, claimedAmount, startTime, vestingPeriod)))))"

section \<open>Reading what was encoded\<close>

text \<open>\<open>uleb\<close> and \<open>bcsVec\<close> are the BCS encodings of a length and of a byte vector.\<close>

fun uleb :: "nat \<Rightarrow> bytes" where
  "uleb n = (if n < 128 then [char_of n] else char_of (n mod 128 + 128) # uleb (n div 128))"

declare uleb.simps [simp del]

lemma byte_word: "of_char (char_of n) = (of_nat (n mod 256) :: 64 word)"
proof -
  have "of_nat (of_char (char_of n :: char)) = (of_char (char_of n) :: 64 word)" by (rule of_nat_of_char)
  then show ?thesis by (simp only: of_char_of)
qed

lemma byte_low: "(of_nat m :: 64 word) AND 0x7F = of_nat (m mod 128)"
proof -
  have "(of_nat m :: 64 word) AND mask 7 = of_nat (take_bit 7 m)"
    by (simp only: take_bit_eq_mask [symmetric] take_bit_of_nat)
  then show ?thesis by (simp add: mask_eq_exp_minus_1 take_bit_eq_mod)
qed

lemma byte_high: "(of_nat m :: 64 word) AND 0x80 = 0 \<longleftrightarrow> even (m div 128)"
proof -
  have "(of_nat m :: 64 word) AND 2 ^ 7 = 0 \<longleftrightarrow> \<not> bit (of_nat m :: 64 word) 7"
    by (rule and_exp_eq_0_iff_not_bit)
  also have "bit (of_nat m :: 64 word) 7 \<longleftrightarrow> bit m 7" by (simp add: bit_simps)
  finally show ?thesis by (simp add: bit_iff_odd)
qed

lemma continuation_byte: "(of_char (char_of ((n :: nat) mod 128 + 128)) :: 64 word) AND 0x80 \<noteq> 0"
proof -
  have "(n mod 128 + 128) div 128 = n mod 128 div 128 + 1" by (rule div_add_self2) simp
  then have "\<not> even ((n mod 128 + 128) div 128)" by simp
  moreover have "(n mod 128 + 128) mod 256 = n mod 128 + 128" by simp
  ultimately show ?thesis unfolding byte_word by (simp only: byte_high simp_thms)
qed

lemma split7: "(of_nat (n mod 128) :: 64 word) OR push_bit 7 (of_nat (n div 128)) = of_nat n"
proof -
  have m: "n mod 128 = take_bit 7 n" by (simp add: take_bit_eq_mod)
  have d: "n div 128 = drop_bit 7 n" by (simp add: drop_bit_eq_div)
  show ?thesis unfolding m d by (rule bit_word_eqI) (auto simp: bit_simps)
qed

lemma readULEB128_loop_uleb:
  assumes "n * 2 ^ s < 2 ^ 63"
  shows "readULEB128_loop (uleb n @ r) s t l =
    Ok (sint (t OR push_bit s (of_nat n)), l + int (length (uleb n)))"
  using assms
proof (induction n arbitrary: s t l rule: uleb.induct)
  case (1 n)
  show ?case
  proof (cases "n < 128")
    case True
    then show ?thesis
      by (subst (1 2) uleb.simps) (simp add: Let_def byte_word byte_low byte_high del: push_bit_and)
  next
    case False
    have "2 ^ s * 128 \<le> n * 2 ^ s" using False by simp
    then have s: "u64 (s + 7) = s + 7"
    proof -
      have "2 ^ s * 128 < (2 ^ 63 :: nat)" using \<open>2 ^ s * 128 \<le> n * 2 ^ s\<close> 1(2) by linarith
      then have "(2 :: nat) ^ (s + 7) < 2 ^ 63" by (simp add: power_add)
      then have "s + 7 < 63" by (rule power_less_imp_less_exp [rotated]) simp
      then show ?thesis by (simp add: u64_def)
    qed
    have m: "(n mod 128 + 128) mod 256 = n mod 128 + 128" by simp
    have lo: "(of_char (char_of (n mod 128 + 128)) :: 64 word) AND 0x7F = of_nat (n mod 128)"
      unfolding byte_word m byte_low by simp
    have "(n div 128) * 2 ^ (s + 7) \<le> n * 2 ^ s"
      by (simp add: power_add)
    then have ih: "readULEB128_loop (uleb (n div 128) @ r) (s + 7) t' l' =
        Ok (sint (t' OR push_bit (s + 7) (of_nat (n div 128))), l' + int (length (uleb (n div 128))))" for t' l'
      using 1(1) [OF False, of "s + 7" t' l'] 1(2) by linarith
    have w: "(t OR push_bit s (of_nat (n mod 128))) OR push_bit (s + 7) (of_nat (n div 128) :: 64 word)
        = t OR push_bit s (of_nat n)"
      unfolding split7 [of n, symmetric]
      by (simp add: or.assoc push_bit_or push_bit_push_bit add.commute)
    show ?thesis
      by (subst (1 2) uleb.simps) (simp only: False if_False append_Cons readULEB128_loop.simps Let_def
          lo continuation_byte s ih w list.size of_nat_add add.assoc, simp)
  qed
qed

lemma readULEB128_uleb:
  assumes "n < 2 ^ 63"
  shows "readULEB128 (uleb n @ r) = Ok (int n, int (length (uleb n)))"
proof -
  have "sint (of_nat n :: 64 word) = int n"
    using assms by (simp add: signed_of_nat signed_take_bit_int_eq_self)
  then show ?thesis unfolding readULEB128_def using readULEB128_loop_uleb [of n 0 r 0 0] assms by simp
qed

definition bcsVec :: "bytes \<Rightarrow> bytes" where
  "bcsVec s = uleb (length s) @ s"

lemma i64_nat: "int n < 2 ^ 63 \<Longrightarrow> i64 (int n) = int n"
  by (rule i64_id) (simp add: is_i64_def)

lemma bcsVec_header:
  assumes "length bz < 2 ^ 63" and "bz = u @ bcsVec s @ w" and "c = int (length u)"
  shows "obind (sliceFrom bz c) readULEB128 = Ok (int (length s), int (length (uleb (length s))))"
    and "int (length u) + int (length (bcsVec s)) < 2 ^ 63"
proof -
  have "(sliceFrom bz c :: bytes reading) = Ok (uleb (length s) @ s @ w)"
    unfolding assms(2) bcsVec_def append_assoc using assms(3) by (rule sliceFrom_append)
  moreover have "readULEB128 (uleb (length s) @ s @ w) = Ok (int (length s), int (length (uleb (length s))))"
    by (rule readULEB128_uleb) (use assms(1,2) in \<open>simp add: bcsVec_def\<close>)
  ultimately show "obind (sliceFrom bz c) readULEB128 = Ok (int (length s), int (length (uleb (length s))))"
    by simp
  show "int (length u) + int (length (bcsVec s)) < 2 ^ 63" using assms(1,2) by simp
qed

lemma readVec_bcsVec:
  assumes "length bz < 2 ^ 63" and "bz = u @ bcsVec s @ w" and "c = int (length u)"
  shows "readVec bz c = Ok (s, c + int (length (bcsVec s)))"
proof -
  note h = bcsVec_header [OF assms]
  have c1: "i64 (c + int (length (uleb (length s)))) = int (length (u @ uleb (length s)))"
    unfolding assms(3) using h(2) by (subst i64_id) (simp_all add: bcsVec_def is_i64_def)
  have c2: "i64 (int (length (u @ uleb (length s))) + int (length s)) = c + int (length (bcsVec s))"
    unfolding assms(3) using h(2) by (subst i64_id) (simp_all add: bcsVec_def is_i64_def)
  have sl: "subslice bz (int (length (u @ uleb (length s)))) (c + int (length (bcsVec s))) = Ok s"
    unfolding assms(2,3) bcsVec_def append_assoc
    using subslice_middle [of "u @ uleb (length s)" s w] by (simp add: add.assoc)
  show ?thesis unfolding readVec_def obind_assoc [symmetric] h(1)
    by (simp add: c1 c2 sl Let_def del: length_append)
qed

lemma skipVec_bcsVec:
  assumes "length bz < 2 ^ 63" and "bz = u @ bcsVec s @ w" and "c = int (length u)"
  shows "skipVec bz c = Ok (c + int (length (bcsVec s)))"
proof -
  note h = bcsVec_header [OF assms]
  have "i64 (int (length s) + int (length (uleb (length s)))) = int (length (bcsVec s))"
    using h(2) by (subst i64_id) (simp_all add: bcsVec_def is_i64_def)
  moreover have "i64 (c + int (length (bcsVec s))) = c + int (length (bcsVec s))"
    unfolding assms(3) using h(2) by (subst i64_id) (simp_all add: is_i64_def)
  ultimately show ?thesis unfolding skipVec_def obind_assoc [symmetric] h(1) by simp
qed

lemma readAddress_append:
  assumes "length a = 32" and "NewAccountAddressFromBytes V a = Some a" and "c = int (length u)"
    and "int (length (u @ a)) < 2 ^ 63"
  shows "readAddress V (u @ a @ w) c = Ok a"
proof -
  have "i64 (c + AddressBytesLength) = int (length u) + int (length a)"
    unfolding assms(3) AddressBytesLength_def using assms(1,4) by (subst i64_id) (simp_all add: is_i64_def)
  then show ?thesis unfolding readAddress_def using assms(2,3) by (simp add: subslice_middle)
qed

lemma readVec_three:
  assumes "length a = 32" and "length bz < 2 ^ 63"
    and bz: "bz = a @ bcsVec x @ bcsVec y @ bcsVec z @ rest"
  obtains c1 c2 c3 where "readVec bz AddressBytesLength = Ok (x, c1)" and "readVec bz c1 = Ok (y, c2)"
    and "readVec bz c2 = Ok (z, c3)"
proof -
  define c1 where "c1 = AddressBytesLength + int (length (bcsVec x))"
  define c2 where "c2 = c1 + int (length (bcsVec y))"
  have 1: "readVec bz AddressBytesLength = Ok (x, c1)" unfolding c1_def
    by (rule readVec_bcsVec [where u = a, OF assms(2) bz]) (simp add: AddressBytesLength_def assms(1))
  have 2: "readVec bz c1 = Ok (y, c2)" unfolding c2_def
    by (rule readVec_bcsVec [where u = "a @ bcsVec x" and w = "bcsVec z @ rest", OF assms(2)])
      (simp_all add: c1_def AddressBytesLength_def assms)
  have 3: "readVec bz c2 = Ok (z, c2 + int (length (bcsVec z)))"
    by (rule readVec_bcsVec [where u = "a @ bcsVec x @ bcsVec y" and w = rest, OF assms(2)])
      (simp_all add: c1_def c2_def AddressBytesLength_def assms)
  show ?thesis by (rule that [OF 1 2 3])
qed

lemma ReadCollectionInfo_bcs:
  assumes "length creator = 32" and "NewAccountAddressFromBytes V creator = Some creator"
    and "length bz < 2 ^ 63"
    and bz: "bz = creator @ bcsVec desc @ bcsVec name @ bcsVec uri @ rest"
  shows "ReadCollectionInfo V bz = Ok (creator, name, uri, desc)"
proof -
  have "readAddress V bz 0 = Ok creator"
    using readAddress_append [of creator V 0 "[]" "bcsVec desc @ bcsVec name @ bcsVec uri @ rest"] assms by simp
  with readVec_three [OF assms(1,3) bz] show ?thesis unfolding ReadCollectionInfo_def by fastforce
qed

lemma ReadNftInfo_bcs:
  assumes "length collection = 32" and "length bz < 2 ^ 63"
    and bz: "bz = collection @ bcsVec desc @ bcsVec tokenId @ bcsVec uri @ rest"
  shows "ReadNftInfo bz = Ok (tokenId, uri, desc)"
  using readVec_three [OF assms(1,2) bz] unfolding ReadNftInfo_def by fastforce

lemma ReadFungibleAssetMetadata_bcs:
  assumes "length bz < 2 ^ 63" and bz: "bz = bcsVec name @ bcsVec symbol @ decimals # rest"
  shows "ReadFungibleAssetMetadata bz = Ok (name, symbol, decimals)"
    and "ReadSymbolFromMetadata bz = Ok symbol"
proof -
  have n: "readVec bz 0 = Ok (name, int (length (bcsVec name)))"
    using readVec_bcsVec [of bz "[]" name "bcsVec symbol @ decimals # rest" 0] assms by simp
  have s: "readVec bz (int (length (bcsVec name))) =
      Ok (symbol, int (length (bcsVec name)) + int (length (bcsVec symbol)))"
    by (rule readVec_bcsVec [OF assms(1) bz]) simp
  have d: "index bz (int (length (bcsVec name)) + int (length (bcsVec symbol))) = Ok decimals"
    unfolding bz by (simp add: index_def nth_append nat_add_distrib)
  show "ReadFungibleAssetMetadata bz = Ok (name, symbol, decimals)"
    unfolding ReadFungibleAssetMetadata_def by (simp add: n s d)
  have "skipVec bz 0 = Ok (int (length (bcsVec name)))"
    using skipVec_bcsVec [of bz "[]" name "bcsVec symbol @ decimals # rest" 0] assms by simp
  then show "ReadSymbolFromMetadata bz = Ok symbol"
    unfolding ReadSymbolFromMetadata_def by (simp add: s)
qed

lemma clammPrice_exact:
  assumes "0 < sp"
  shows "clammPrice sp True * (sp * sp) \<le> 2 ^ 128 * 10 ^ 18"
    and "2 ^ 128 * 10 ^ 18 < (clammPrice sp True + 1) * (sp * sp)"
    and "clammPrice sp False * 2 ^ 128 \<le> sp * sp * 10 ^ 18"
    and "sp * sp * 10 ^ 18 < (clammPrice sp False + 1) * 2 ^ 128"
proof -
  have quo: "x div q * q \<le> x \<and> x < (x div q + 1) * q" if "0 < q" for x q :: int
    using div_mult_mod_eq [of x q] pos_mod_bound [OF that, of x] pos_mod_sign [OF that, of x]
    unfolding distrib_right by linarith
  have "0 < sp * sp" using assms by simp
  from quo [OF this, of "2 ^ 128 * 10 ^ 18"]
  show "clammPrice sp True * (sp * sp) \<le> 2 ^ 128 * 10 ^ 18"
    and "2 ^ 128 * 10 ^ 18 < (clammPrice sp True + 1) * (sp * sp)"
    unfolding clammPrice_def Let_def by (simp_all only: if_True simp_thms)
  from quo [of "2 ^ 128" "sp * sp * 10 ^ 18"]
  show "clammPrice sp False * 2 ^ 128 \<le> sp * sp * 10 ^ 18"
    and "sp * sp * 10 ^ 18 < (clammPrice sp False + 1) * 2 ^ 128"
    unfolding clammPrice_def Let_def by simp_all
qed

end
