(* ===== verification/Nft_Types.thy ===== *)
theory Nft_Types
  imports Move_Bcs
begin

text \<open>
  Model of \<open>x/ibc/nft-transfer/types\<close>: class identifiers and their traces (\<open>class_id.go\<close>,
  \<open>trace.go\<close>, \<open>keys.go\<close>), packet data (\<open>packet.go\<close>), the ICS-721 data strings (\<open>ibc.go\<close>), and the
  validation of messages and of the genesis state (\<open>tx.go\<close>, \<open>genesis.go\<close>, \<open>params.go\<close>).

  The identifier validators and hash checks of ibc-go and CometBFT, the hash function and the JSON
  and base64 codecs are the fields of \<open>ibcLib\<close>. A nil slice and an empty slice are both \<open>[]\<close>: the one
  place that tells them apart, \<open>requireShape\<close>, only decides whether to replace the slice by nil.

  The lemmas show when a class path survives parsing, that the packet codec gives back what was
  sent, and what the validations accept.
\<close>

section \<open>Parameters, data and errors\<close>

record NonFungibleTokenPacketData =
  pd_ClassId :: string
  pd_ClassUri :: string
  pd_ClassData :: string
  pd_TokenIds :: "string list"
  pd_TokenUris :: "string list"
  pd_TokenData :: "string list"
  pd_Sender :: string
  pd_Receiver :: string
  pd_Memo :: string

record ibcLib =
  IsValidChannelID :: "string \<Rightarrow> bool"
  PortIdentifierValidator :: "string \<Rightarrow> bool"
  ChannelIdentifierValidator :: "string \<Rightarrow> bool"
  ParseChannelSequence :: "string \<Rightarrow> nat option"
  ValidateHash :: "bytes \<Rightarrow> bool"
  HexBytes_String :: "bytes \<Rightarrow> string"
  sha256 :: "bytes \<Rightarrow> bytes"
  marshalPacketJSON :: "NonFungibleTokenPacketData \<Rightarrow> bytes"
  unmarshalPacketJSON :: "bytes \<Rightarrow> NonFungibleTokenPacketData option"
  marshalICS721 :: "string \<times> string \<Rightarrow> bytes option"
  unmarshalICS721 :: "bytes \<Rightarrow> (string \<times> string) option"
  base64Encode :: "bytes \<Rightarrow> string"
  base64Decode :: "string \<Rightarrow> bytes option"

record ClassTrace =
  Path :: string
  BaseClassId :: string

record Params =
  SendEnabled :: bool
  ReceiveEnabled :: bool

datatype nft_error =
    ErrInvalidClassIdForNftTransfer
  | ErrInvalidVersion
  | ErrInvalidClassId
  | ErrInvalidTokenIds
  | ErrInvalidPacket
  | ErrTraceNotFound
  | ErrClassDataNotFound
  | ErrSendDisabled
  | ErrReceiveDisabled
  | ErrMaxNftTransferChannels
  | ErrInvalidAddress
  | ErrInvalidRequest
  | ErrInvalidType
  | ErrUnknownRequest
  | ErrInvalidSigner
  | ErrInvalidPort
  | ErrInvalidChannelOrdering
  | ErrChannelSequence
  | ErrChannelNotFound
  | ErrSequenceSendNotFound
  | ErrChannelCapabilityNotFound
  | ErrNotFound
  | ErrEncoding
  | ErrTracePairs
  | ErrPortID nat
  | ErrChannelID nat
  | ErrBlankBaseClassId
  | ErrDuplicatedTrace
  | ErrTraceAt nat nft_error
  | ErrHexDecode
  | ErrHashSize
  | ErrNoClassPrefix
  | ErrUnescrow nft_error
  | ErrMove move_error

type_synonym 'a nftres = "(nft_error, 'a) outcome"

definition ClassIdPrefix :: string where
  "ClassIdPrefix = ''ibc''"

definition Version :: string where
  "Version = ''ics721-1''"

definition PortID :: string where
  "PortID = ''nft-transfer''"

section \<open>Class identifiers and escrow addresses\<close>

definition GetClassIdPrefix :: "string \<Rightarrow> string \<Rightarrow> string" where
  "GetClassIdPrefix portID channelID = portID @ ''/'' @ channelID @ ''/''"

definition ReceiverChainIsSource :: "string \<Rightarrow> string \<Rightarrow> string \<Rightarrow> bool" where
  "ReceiverChainIsSource sourcePort sourceChannel classId =
     HasPrefix classId (GetClassIdPrefix sourcePort sourceChannel)"

definition SenderChainIsSource :: "string \<Rightarrow> string \<Rightarrow> string \<Rightarrow> bool" where
  "SenderChainIsSource sourcePort sourceChannel classId =
     (\<not> ReceiverChainIsSource sourcePort sourceChannel classId)"

definition GetPrefixedClassId :: "string \<Rightarrow> string \<Rightarrow> string \<Rightarrow> string" where
  "GetPrefixedClassId portID channelID baseClassId = portID @ ''/'' @ channelID @ ''/'' @ baseClassId"

definition GetEscrowAddress :: "ibcLib \<Rightarrow> string \<Rightarrow> string \<Rightarrow> bytes" where
  "GetEscrowAddress L portID channelID =
     take 20 (sha256 L (Version @ [char_of (0 :: nat)] @ portID @ ''/'' @ channelID))"

section \<open>Class traces\<close>

text \<open>
  The loop of \<open>extractPathAndBaseFromFullClassId\<close> at an even index; \<open>n\<close> is the length of the whole
  slice and the list is what is left of it.
\<close>

fun extractLoop :: "ibcLib \<Rightarrow> nat \<Rightarrow> string list \<Rightarrow> string list \<times> string list" where
  "extractLoop L n [] = ([], [])"
| "extractLoop L n [x] = ([], [x])"
| "extractLoop L n (x # y # rest) =
     (if 2 < n \<and> IsValidChannelID L y
      then (let (path, base) = extractLoop L n rest in (x # y # path, base))
      else ([], x # y # rest))"

definition extractPathAndBaseFromFullClassId :: "ibcLib \<Rightarrow> string list \<Rightarrow> string \<times> string" where
  "extractPathAndBaseFromFullClassId L items =
     (let (path, base) = extractLoop L (length items) items
      in (Join path CHR ''/'', Join base CHR ''/''))"

definition ParseClassTrace :: "ibcLib \<Rightarrow> string \<Rightarrow> ClassTrace" where
  "ParseClassTrace L rawClassId =
     (let denomSplit = Split rawClassId CHR ''/'' in
      if hd denomSplit = rawClassId then \<lparr>Path = '''', BaseClassId = rawClassId\<rparr>
      else (let (path, base) = extractPathAndBaseFromFullClassId L denomSplit
            in \<lparr>Path = path, BaseClassId = base\<rparr>))"

definition GetPrefix :: "ClassTrace \<Rightarrow> string" where
  "GetPrefix dt = Path dt @ ''/''"

definition GetFullClassIdPath :: "ClassTrace \<Rightarrow> string" where
  "GetFullClassIdPath dt = (if Path dt = '''' then BaseClassId dt else GetPrefix dt @ BaseClassId dt)"

definition Hash :: "ibcLib \<Rightarrow> ClassTrace \<Rightarrow> bytes" where
  "Hash L dt = sha256 L (GetFullClassIdPath dt)"

definition IBCClassId :: "ibcLib \<Rightarrow> ClassTrace \<Rightarrow> string" where
  "IBCClassId L dt =
     (if Path dt \<noteq> '''' then ClassIdPrefix @ ''/'' @ HexBytes_String L (Hash L dt) else BaseClassId dt)"

definition GetNftTransferClassId :: "ibcLib \<Rightarrow> string \<Rightarrow> string \<Rightarrow> string \<Rightarrow> string" where
  "GetNftTransferClassId L portID channelID baseClassId =
     IBCClassId L (ParseClassTrace L (GetPrefixedClassId portID channelID baseClassId))"

fun validateIdentifierPairs :: "ibcLib \<Rightarrow> nat \<Rightarrow> string list \<Rightarrow> nft_error option" where
  "validateIdentifierPairs L i (p # c # rest) =
     (if \<not> PortIdentifierValidator L p then Some (ErrPortID i)
      else if \<not> ChannelIdentifierValidator L c then Some (ErrChannelID i)
      else validateIdentifierPairs L (i + 2) rest)"
| "validateIdentifierPairs L i _ = None"

definition validateTraceIdentifiers :: "ibcLib \<Rightarrow> string list \<Rightarrow> nft_error option" where
  "validateTraceIdentifiers L identifiers =
     (if length identifiers = 0 \<or> length identifiers mod 2 \<noteq> 0 then Some ErrTracePairs
      else validateIdentifierPairs L 0 identifiers)"

definition ClassTrace_Validate :: "ibcLib \<Rightarrow> ClassTrace \<Rightarrow> nft_error option" where
  "ClassTrace_Validate L dt =
     (if Path dt = '''' \<and> BaseClassId dt \<noteq> '''' then None
      else if TrimSpace (BaseClassId dt) = '''' then Some ErrBlankBaseClassId
      else validateTraceIdentifiers L (Split (Path dt) CHR ''/''))"

fun Traces_validateLoop :: "ibcLib \<Rightarrow> string list \<Rightarrow> nat \<Rightarrow> ClassTrace list \<Rightarrow> nft_error option" where
  "Traces_validateLoop L seen i [] = None"
| "Traces_validateLoop L seen i (t # ts) =
     (let h = HexBytes_String L (Hash L t) in
      if h \<in> set seen then Some ErrDuplicatedTrace
      else case ClassTrace_Validate L t of
             Some err \<Rightarrow> Some (ErrTraceAt i err)
           | None \<Rightarrow> Traces_validateLoop L (h # seen) (i + 1) ts)"

definition Traces_Validate :: "ibcLib \<Rightarrow> ClassTrace list \<Rightarrow> nft_error option" where
  "Traces_Validate L ts = Traces_validateLoop L [] 0 ts"

definition Traces_Sort :: "ClassTrace list \<Rightarrow> ClassTrace list" where
  "Traces_Sort ts = sort_key GetFullClassIdPath ts"

definition ValidatePrefixedClassId :: "ibcLib \<Rightarrow> string \<Rightarrow> nft_error option" where
  "ValidatePrefixedClassId L classId =
     (let classIdSplit = Split classId CHR ''/'' in
      if hd classIdSplit = classId \<and> TrimSpace classId \<noteq> '''' then None
      else if TrimSpace (last classIdSplit) = '''' then Some ErrInvalidClassIdForNftTransfer
      else (let path = fst (extractPathAndBaseFromFullClassId L classIdSplit) in
            if path = '''' then None
            else validateTraceIdentifiers L (Split path CHR ''/'')))"

definition ParseHexHash :: "ibcLib \<Rightarrow> string \<Rightarrow> bytes nftres" where
  "ParseHexHash L hexHash =
     obind (orFail ErrHexDecode (hexDecode hexHash)) (\<lambda>hash.
     obind (guard (ValidateHash L hash) ErrHashSize) (\<lambda>_.
     Ok hash))"

definition ValidateIBCClassId :: "ibcLib \<Rightarrow> string \<Rightarrow> unit nftres" where
  "ValidateIBCClassId L classId =
     (if TrimSpace classId = '''' then Fail ErrInvalidClassIdForNftTransfer
      else let classIdSplit = SplitN2 classId CHR ''/'' in
        if classId = ClassIdPrefix then Fail ErrInvalidClassIdForNftTransfer
        else if length classIdSplit = 2 \<and> classIdSplit ! 0 = ClassIdPrefix then
          (if TrimSpace (classIdSplit ! 1) = '''' then Fail ErrInvalidClassIdForNftTransfer
           else obind (ParseHexHash L (classIdSplit ! 1)) (\<lambda>_. Ok ()))
        else Ok ())"

definition RemoveClassPrefix :: "string \<Rightarrow> string \<Rightarrow> string \<Rightarrow> string nftres" where
  "RemoveClassPrefix portID channelID classID =
     orFail ErrNoClassPrefix (CutPrefix classID (GetClassIdPrefix portID channelID))"

section \<open>Packet data\<close>

fun validateTokenIds :: "string list \<Rightarrow> string list \<Rightarrow> nft_error option" where
  "validateTokenIds seen [] = None"
| "validateTokenIds seen (t # ts) =
     (if TrimSpace t = '''' then Some ErrInvalidTokenIds
      else if t \<in> set seen then Some ErrInvalidTokenIds
      else validateTokenIds (t # seen) ts)"

definition Packet_ValidateBasic :: "ibcLib \<Rightarrow> NonFungibleTokenPacketData \<Rightarrow> nft_error option" where
  "Packet_ValidateBasic L p =
     (if TrimSpace (pd_Sender p) = '''' then Some ErrInvalidAddress
      else if TrimSpace (pd_Receiver p) = '''' then Some ErrInvalidAddress
      else if TrimSpace (pd_ClassId p) = '''' then Some ErrInvalidClassId
      else if length (pd_TokenIds p) = 0 then Some ErrInvalidTokenIds
      else if length (pd_TokenIds p) \<noteq> length (pd_TokenUris p) then Some ErrInvalidPacket
      else if length (pd_TokenIds p) \<noteq> length (pd_TokenData p) then Some ErrInvalidPacket
      else case validateTokenIds [] (pd_TokenIds p) of
             Some err \<Rightarrow> Some err
           | None \<Rightarrow> ValidatePrefixedClassId L (pd_ClassId p))"

definition requireShape :: "string list \<Rightarrow> bool" where
  "requireShape contents \<longleftrightarrow>
     (if length contents = 0 then True
      else length (filter (\<lambda>v. length v = 0) contents) = length contents)"

text \<open>The packet that is marshalled: a list of empty strings is sent as nil.\<close>

definition reshaped :: "NonFungibleTokenPacketData \<Rightarrow> NonFungibleTokenPacketData" where
  "reshaped p =
     (let p = (if requireShape (pd_TokenUris p) then p\<lparr>pd_TokenUris := []\<rparr> else p)
      in if requireShape (pd_TokenData p) then p\<lparr>pd_TokenData := []\<rparr> else p)"

definition GetBytes :: "ibcLib \<Rightarrow> NonFungibleTokenPacketData \<Rightarrow> bytes" where
  "GetBytes L p = marshalPacketJSON L (reshaped p)"

definition DecodePacketData :: "ibcLib \<Rightarrow> bytes \<Rightarrow> NonFungibleTokenPacketData nftres" where
  "DecodePacketData L packetData =
     obind (orFail ErrInvalidRequest (unmarshalPacketJSON L packetData)) (\<lambda>p.
     let n = length (pd_TokenIds p);
         p = (if length (pd_TokenUris p) = 0 then p\<lparr>pd_TokenUris := replicate n ''''\<rparr> else p);
         p = (if length (pd_TokenData p) = 0 then p\<lparr>pd_TokenData := replicate n ''''\<rparr> else p)
     in Ok p)"

section \<open>ICS-721 data\<close>

definition convertDataToICS721 :: "ibcLib \<Rightarrow> string \<Rightarrow> string \<Rightarrow> string nftres" where
  "convertDataToICS721 L name desc =
     obind (orFail ErrEncoding (marshalICS721 L (name, desc))) (\<lambda>bz. Ok (base64Encode L bz))"

definition ConvertClassDataToICS721 :: "ibcLib \<Rightarrow> string \<Rightarrow> string \<Rightarrow> string nftres" where
  "ConvertClassDataToICS721 L name desc = convertDataToICS721 L name desc"

definition ConvertTokenDataToICS721 :: "ibcLib \<Rightarrow> string \<Rightarrow> string nftres" where
  "ConvertTokenDataToICS721 L desc = convertDataToICS721 L '''' desc"

definition convertDataFromICS721 :: "ibcLib \<Rightarrow> string \<Rightarrow> (string \<times> string) nftres" where
  "convertDataFromICS721 L d =
     obind (orFail ErrEncoding (base64Decode L d)) (\<lambda>bz. orFail ErrEncoding (unmarshalICS721 L bz))"

definition ConvertClassDataFromICS721 :: "ibcLib \<Rightarrow> string \<Rightarrow> (string \<times> string) nftres" where
  "ConvertClassDataFromICS721 L d = convertDataFromICS721 L d"

definition ConvertTokenDataFromICS721 :: "ibcLib \<Rightarrow> string \<Rightarrow> string nftres" where
  "ConvertTokenDataFromICS721 L d = obind (convertDataFromICS721 L d) (\<lambda>(_, desc). Ok desc)"

section \<open>Messages, parameters and genesis\<close>

record MsgTransfer =
  mt_SourcePort :: string
  mt_SourceChannel :: string
  mt_ClassId :: string
  mt_TokenIds :: "string list"
  mt_Sender :: string
  mt_Receiver :: string
  mt_TimeoutHeight :: "nat \<times> nat"
  mt_TimeoutTimestamp :: nat
  mt_Memo :: string

text \<open>\<open>ac\<close> is \<open>StringToBytes\<close> of the address codec.\<close>

definition MsgTransfer_Validate :: "ibcLib \<Rightarrow> (string \<Rightarrow> bytes option) \<Rightarrow> MsgTransfer \<Rightarrow> unit nftres" where
  "MsgTransfer_Validate L ac msg =
     (if \<not> PortIdentifierValidator L (mt_SourcePort msg) then Fail (ErrPortID 0)
      else if \<not> ChannelIdentifierValidator L (mt_SourceChannel msg) then Fail (ErrChannelID 0)
      else if TrimSpace (mt_ClassId msg) = '''' then Fail ErrInvalidClassId
      else if length (mt_TokenIds msg) = 0 then Fail ErrInvalidTokenIds
      else if list_ex (\<lambda>t. TrimSpace t = '''') (mt_TokenIds msg) then Fail ErrInvalidTokenIds
      else if ac (mt_Sender msg) = None then Fail ErrInvalidAddress
      else if TrimSpace (mt_Receiver msg) = '''' then Fail ErrInvalidAddress
      else ValidateIBCClassId L (mt_ClassId msg))"

definition DefaultParams :: Params where
  "DefaultParams = \<lparr>SendEnabled = True, ReceiveEnabled = True\<rparr>"

record GenesisState =
  gs_PortId :: string
  gs_ClassTraces :: "ClassTrace list"
  gs_ClassData :: "(bytes \<times> string) list"
  gs_TokenData :: "((bytes \<times> string) \<times> string) list"
  gs_Params :: Params

definition DefaultGenesisState :: GenesisState where
  "DefaultGenesisState =
     \<lparr>gs_PortId = PortID, gs_ClassTraces = [], gs_ClassData = [], gs_TokenData = [],
      gs_Params = DefaultParams\<rparr>"

text \<open>\<open>Params.Validate\<close> asserts that two booleans are booleans, so it never fails.\<close>

definition GenesisState_Validate :: "ibcLib \<Rightarrow> GenesisState \<Rightarrow> nft_error option" where
  "GenesisState_Validate L gs =
     (if \<not> PortIdentifierValidator L (gs_PortId gs) then Some (ErrPortID 0)
      else Traces_Validate L (gs_ClassTraces gs))"

section \<open>Parsing a class path\<close>

text \<open>
  A path all of whose components pair up as port and channel has no component left for the base
  class id.
\<close>

fun channelPairs :: "ibcLib \<Rightarrow> string list \<Rightarrow> bool" where
  "channelPairs L [] \<longleftrightarrow> True"
| "channelPairs L [x] \<longleftrightarrow> False"
| "channelPairs L (x # y # rest) \<longleftrightarrow> IsValidChannelID L y \<and> channelPairs L rest"

definition allHops :: "ibcLib \<Rightarrow> string \<Rightarrow> bool" where
  "allHops L s \<longleftrightarrow> 2 < length (Split s CHR ''/'') \<and> channelPairs L (Split s CHR ''/'')"

lemma extractLoop_append: "extractLoop L n items = (p, b) \<Longrightarrow> items = p @ b"
  by (induction L n items arbitrary: p b rule: extractLoop.induct) (auto split: if_splits prod.splits)

lemma extractLoop_base: "2 < n \<Longrightarrow> snd (extractLoop L n items) = [] \<longleftrightarrow> channelPairs L items"
  by (induction L n items rule: extractLoop.induct) (auto split: prod.splits)

lemma extractLoop_short: "n \<le> 2 \<Longrightarrow> extractLoop L n items = ([], items)"
  by (induction L n items rule: extractLoop.induct) auto

lemma extractLoop_path: "fst (extractLoop L n items) = [] \<or> 2 \<le> length (fst (extractLoop L n items))"
  by (induction L n items rule: extractLoop.induct) (auto split: prod.splits)

lemma Join_path: "2 \<le> length ws \<Longrightarrow> Join ws c \<noteq> []"
  by (cases ws) (auto simp: Join_Cons)

lemma extract_full:
  assumes "extractLoop L (length items) items = (p, b)" and "items \<noteq> []"
  shows "Join p c = [] \<longleftrightarrow> p = []"
    and "b \<noteq> [] \<Longrightarrow> (if p = [] then Join b c else Join p c @ c # Join b c) = Join items c"
proof -
  have "p = [] \<or> 2 \<le> length p" using extractLoop_path [of L "length items" items] assms(1) by simp
  then show "Join p c = [] \<longleftrightarrow> p = []" using Join_path by fastforce
  have "items = p @ b" using extractLoop_append assms(1) by blast
  then show "b \<noteq> [] \<Longrightarrow> (if p = [] then Join b c else Join p c @ c # Join b c) = Join items c"
    using Join_append [of p b c] by simp
qed

lemma parse_full:
  "GetFullClassIdPath (ParseClassTrace L s) = (if allHops L s then s @ ''/'' else s)"
proof (cases "CHR ''/'' \<in> set s")
  case False
  then have "Split s CHR ''/'' = [s]" by (rule Split_word)
  then show ?thesis by (simp add: ParseClassTrace_def GetFullClassIdPath_def allHops_def)
next
  case True
  define ws where "ws = Split s CHR ''/''"
  have ne: "ws \<noteq> []" and join: "Join ws CHR ''/'' = s" unfolding ws_def by (simp_all add: Join_Split)
  have hd: "hd ws \<noteq> s" unfolding ws_def using Split_single True by blast
  obtain p b where e: "extractLoop L (length ws) ws = (p, b)" by fastforce
  have t: "ParseClassTrace L s = \<lparr>Path = Join p CHR ''/'', BaseClassId = Join b CHR ''/''\<rparr>"
    unfolding ParseClassTrace_def Let_def ws_def [symmetric] extractPathAndBaseFromFullClassId_def
    using hd e by simp
  have hops: "b = [] \<longleftrightarrow> allHops L s"
  proof (cases "2 < length ws")
    case True
    then show ?thesis using extractLoop_base [OF True, of L ws] e by (simp add: allHops_def ws_def)
  next
    case False
    then show ?thesis using extractLoop_short [of "length ws" L ws] e ne by (simp add: allHops_def ws_def)
  qed
  show ?thesis
  proof (cases "b = []")
    case True
    then have "p = ws" using extractLoop_append [OF e] by simp
    then show ?thesis unfolding t GetFullClassIdPath_def GetPrefix_def
      using True hops join ne extract_full(1) [OF e ne, of "CHR ''/''"] by simp
  next
    case False
    then show ?thesis unfolding t GetFullClassIdPath_def GetPrefix_def
      using hops join extract_full [OF e ne] by auto
  qed
qed

lemma parse_path_prefixed:
  assumes "CHR ''/'' \<notin> set p" and "CHR ''/'' \<notin> set c" and "IsValidChannelID L c"
  shows "Path (ParseClassTrace L (GetClassIdPrefix p c @ x)) \<noteq> ''''"
proof -
  define ws where "ws = Split x CHR ''/''"
  have sp: "Split (GetClassIdPrefix p c @ x) CHR ''/'' = p # c # ws"
    using assms by (simp add: GetClassIdPrefix_def Split_append_sep ws_def)
  have "ws \<noteq> []" by (simp add: ws_def)
  then have n: "2 < length (p # c # ws)" by (cases ws) simp_all
  obtain q b where e: "extractLoop L (length (p # c # ws)) ws = (q, b)" by fastforce
  have "p \<noteq> GetClassIdPrefix p c @ x" by (simp add: GetClassIdPrefix_def)
  moreover have "extractLoop L (length (p # c # ws)) (p # c # ws) = (p # c # q, b)"
    using n assms(3) e by simp
  ultimately have "Path (ParseClassTrace L (GetClassIdPrefix p c @ x)) = Join (p # c # q) CHR ''/''"
    unfolding ParseClassTrace_def Let_def sp extractPathAndBaseFromFullClassId_def by simp
  then show ?thesis using Join_path [of "p # c # q"] by simp
qed

lemma prefixed_source:
  "ReceiverChainIsSource p c (GetClassIdPrefix p c @ x)"
  "drop (length (GetClassIdPrefix p c)) (GetClassIdPrefix p c @ x) = x"
  "GetPrefixedClassId p c x = GetClassIdPrefix p c @ x"
  "RemoveClassPrefix p c (GetPrefixedClassId p c x) = Ok x"
  by (simp_all add: ReceiverChainIsSource_def GetPrefixedClassId_def RemoveClassPrefix_def CutPrefix_def
      GetClassIdPrefix_def HasPrefix_def)

section \<open>Packets\<close>

lemma filter_all: "length (filter P xs) = length xs \<longleftrightarrow> (\<forall>x\<in>set xs. P x)"
proof (induction xs)
  case (Cons x xs)
  have "length (filter P xs) \<noteq> Suc (length xs)" using length_filter_le [of P xs] by linarith
  then show ?case using Cons by simp
qed simp

lemma requireShape_iff: "requireShape xs \<longleftrightarrow> xs = replicate (length xs) []"
proof -
  have "(\<forall>v\<in>set xs. v = []) \<longleftrightarrow> xs = replicate (length xs) []" by (induction xs) auto
  then show ?thesis unfolding requireShape_def filter_all by auto
qed

text \<open>The JSON codec gives back the packet it encoded.\<close>

definition packet_codec :: "ibcLib \<Rightarrow> bool" where
  "packet_codec L \<longleftrightarrow> (\<forall>p. unmarshalPacketJSON L (marshalPacketJSON L p) = Some p)"

lemma decode_bytes:
  assumes "packet_codec L" and "length (pd_TokenUris p) = length (pd_TokenIds p)"
    and "length (pd_TokenData p) = length (pd_TokenIds p)"
  shows "DecodePacketData L (GetBytes L p) = Ok p"
proof -
  define n where "n = length (pd_TokenIds p)"
  have u: "requireShape (pd_TokenUris p) \<longleftrightarrow> pd_TokenUris p = replicate n ''''"
    and d: "requireShape (pd_TokenData p) \<longleftrightarrow> pd_TokenData p = replicate n ''''"
    unfolding requireShape_iff n_def using assms(2,3) by simp_all
  have 0: "pd_TokenUris p = [] \<longleftrightarrow> n = 0" "pd_TokenData p = [] \<longleftrightarrow> n = 0"
    unfolding n_def using assms(2,3) by (metis length_0_conv)+
  have "unmarshalPacketJSON L (GetBytes L p) = Some (reshaped p)"
    using assms(1) by (simp add: GetBytes_def packet_codec_def)
  moreover have "reshaped p = p\<lparr>pd_TokenUris := if pd_TokenUris p = replicate n [] then [] else pd_TokenUris p,
      pd_TokenData := if pd_TokenData p = replicate n [] then [] else pd_TokenData p\<rparr>"
    unfolding reshaped_def Let_def using u d by simp
  moreover have "p\<lparr>pd_TokenUris := pd_TokenUris p, pd_TokenData := pd_TokenData p\<rparr> = p" by simp
  ultimately show ?thesis
    unfolding DecodePacketData_def Let_def using 0 n_def [symmetric] by auto
qed

lemma validateTokenIds_None:
  "validateTokenIds seen ts = None \<longleftrightarrow>
     distinct ts \<and> set ts \<inter> set seen = {} \<and> (\<forall>t\<in>set ts. TrimSpace t \<noteq> '''')"
  by (induction seen ts rule: validateTokenIds.induct) auto

lemma Packet_ValidateBasic_None:
  assumes "Packet_ValidateBasic L p = None"
  shows "pd_TokenIds p \<noteq> []" and "distinct (pd_TokenIds p)"
    and "length (pd_TokenUris p) = length (pd_TokenIds p)"
    and "length (pd_TokenData p) = length (pd_TokenIds p)"
    and "ValidatePrefixedClassId L (pd_ClassId p) = None"
  using assms unfolding Packet_ValidateBasic_def
  by (auto simp: validateTokenIds_None split: if_splits option.splits)

lemma Traces_validateLoop_None:
  "Traces_validateLoop L seen i ts = None \<longleftrightarrow>
     distinct (map (\<lambda>t. HexBytes_String L (Hash L t)) ts) \<and>
     (\<forall>t\<in>set ts. HexBytes_String L (Hash L t) \<notin> set seen \<and> ClassTrace_Validate L t = None)"
  by (induction L seen i ts rule: Traces_validateLoop.induct) (auto simp: Let_def image_iff split: option.splits)

end
