(* ===== verification/Move_Nft.thy ===== *)
theory Move_Nft
  imports Nft_Types
begin

text \<open>
  Model of the NFT keeper of the Move module (\<open>x/move/keeper/nft.go\<close>) and of the identifiers it
  resolves (\<open>x/move/types/class.go\<close>, \<open>denom.go\<close>). The keeper turns the operations of the NFT transfer
  module into resource reads and entry-function calls of the Move VM. The VM is \<open>moveKeeper\<close>, a
  parameter: the account keeper, the resource reads and \<open>ExecuteEntryFunction\<close> on a state \<open>'m\<close>.

  The interface that the transfer module uses is the record \<open>NftKeeper\<close>; its laws are the locale
  \<open>nft_laws\<close>, on the owners of token objects, and the keeper of \<open>nft.go\<close> is shown to satisfy them for
  every VM whose \<open>object\<close> and \<open>initia_nft\<close> modules behave as documented (\<open>vm_ok\<close>).
\<close>

section \<open>Parameters\<close>

type_synonym structTag = "string \<times> string"

record 'm moveKeeper =
  mk_HasAccount :: "'m \<Rightarrow> bytes \<Rightarrow> bool"
  mk_NewAccount :: "'m \<Rightarrow> bytes \<Rightarrow> 'm"
  mk_GetResourceBytes :: "'m \<Rightarrow> bytes \<Rightarrow> structTag \<Rightarrow> bytes nftres"
  mk_HasResource :: "'m \<Rightarrow> bytes \<Rightarrow> structTag \<Rightarrow> bool nftres"
  mk_ExecuteEntryFunction ::
    "'m \<Rightarrow> bytes \<Rightarrow> string \<Rightarrow> string \<Rightarrow> structTag list \<Rightarrow> bytes list \<Rightarrow> 'm nftres"

record 'n NftKeeper =
  nk_CreateOrUpdateClass :: "'n \<Rightarrow> string \<Rightarrow> string \<Rightarrow> string \<Rightarrow> 'n nftres"
  nk_Transfers :: "'n \<Rightarrow> bytes \<Rightarrow> bytes \<Rightarrow> string \<Rightarrow> string list \<Rightarrow> 'n nftres"
  nk_Burns :: "'n \<Rightarrow> bytes \<Rightarrow> string \<Rightarrow> string list \<Rightarrow> 'n nftres"
  nk_Mints :: "'n \<Rightarrow> bytes \<Rightarrow> string \<Rightarrow> string list \<Rightarrow> string list \<Rightarrow> string list \<Rightarrow> 'n nftres"
  nk_GetClassInfo :: "'n \<Rightarrow> string \<Rightarrow> (string \<times> string \<times> string) nftres"
  nk_GetTokenInfos :: "'n \<Rightarrow> string \<Rightarrow> string list \<Rightarrow> (string list \<times> string list) nftres"

section \<open>Identifiers\<close>

definition NamedObjectAddress :: "vmLib \<Rightarrow> bytes \<Rightarrow> string \<Rightarrow> bytes nftres" where
  "NamedObjectAddress V source name =
     orPanic (NewAccountAddressFromBytes V (sha3_256 V (source @ name @ [char_of (0xFE :: nat)])))"

definition UserDerivedObjectAddress :: "vmLib \<Rightarrow> bytes \<Rightarrow> bytes \<Rightarrow> bytes nftres" where
  "UserDerivedObjectAddress V source deriveFrom =
     orPanic (NewAccountAddressFromBytes V (sha3_256 V (source @ deriveFrom @ [char_of (0xFC :: nat)])))"

text \<open>\<open>strings.ToLower\<close> changes a string exactly when it contains an upper-case letter; on hexadecimal
  text, the only text that passes the next check, these are the ASCII ones.\<close>

definition hasUpper :: "string \<Rightarrow> bool" where
  "hasUpper s = list_ex (\<lambda>c. 65 \<le> (of_char c :: nat) \<and> (of_char c :: nat) \<le> 90) s"

definition MetadataAddressFromDenom :: "vmLib \<Rightarrow> string \<Rightarrow> bytes nftres" where
  "MetadataAddressFromDenom V denom =
     (case CutPrefix denom ''move/'' of
        Some hexStr \<Rightarrow>
          (if hasUpper hexStr then Fail ErrHexDecode
           else obind (orFail ErrHexDecode (hexDecode hexStr)) (\<lambda>addrBz.
                orFail (ErrMove ErrAddressBytes) (NewAccountAddressFromBytes V addrBz)))
      | None \<Rightarrow> NamedObjectAddress V (StdAddress V) denom)"

definition DenomFromMetadataAddress :: "vmLib \<Rightarrow> (bytes \<Rightarrow> string nftres) \<Rightarrow> bytes \<Rightarrow> string nftres" where
  "DenomFromMetadataAddress V Symbol metadata =
     obind (Symbol metadata) (\<lambda>symbol.
     obind (NamedObjectAddress V (StdAddress V) symbol) (\<lambda>a.
     if a = metadata then Ok symbol else Ok (''move/'' @ CanonicalString V metadata)))"

definition IsMoveDenom :: "string \<Rightarrow> bool" where
  "IsMoveDenom denom = HasPrefix denom ''move/''"

definition CollectionAddressFromClassId :: "vmLib \<Rightarrow> string \<Rightarrow> bytes nftres" where
  "CollectionAddressFromClassId V classId =
     (case CutPrefix classId ''move/'' of
        Some after \<Rightarrow>
          obind (orFail ErrHexDecode (hexDecode after)) (\<lambda>addrBz.
          orFail (ErrMove ErrAddressBytes) (NewAccountAddressFromBytes V addrBz))
      | None \<Rightarrow> NamedObjectAddress V (StdAddress V) classId)"

definition ClassIdFromCollectionAddress ::
    "vmLib \<Rightarrow> (bytes \<Rightarrow> (bytes \<times> string \<times> string \<times> string) nftres) \<Rightarrow> bytes \<Rightarrow> string nftres" where
  "ClassIdFromCollectionAddress V CollectionInfo collection =
     obind (CollectionInfo collection) (\<lambda>(creator, name, _, _).
     if creator \<noteq> StdAddress V then Ok (''move/'' @ CanonicalString V collection) else Ok name)"

definition IsMoveClassId :: "string \<Rightarrow> bool" where
  "IsMoveClassId classId = HasPrefix classId ''move/''"

definition TokenAddressFromTokenId :: "vmLib \<Rightarrow> bytes \<Rightarrow> string \<Rightarrow> string \<Rightarrow> bytes nftres" where
  "TokenAddressFromTokenId V collectionCreator collectionName tokenId =
     NamedObjectAddress V collectionCreator (collectionName @ ''::'' @ tokenId)"

section \<open>The keeper\<close>

definition CollectionInfo :: "vmLib \<Rightarrow> 'm moveKeeper \<Rightarrow> 'm \<Rightarrow> bytes \<Rightarrow> (bytes \<times> string \<times> string \<times> string) nftres" where
  "CollectionInfo V K m collectionAddr =
     obind (mk_GetResourceBytes K m collectionAddr (''collection'', ''Collection'')) (\<lambda>bz.
     mapFail ErrMove (ReadCollectionInfo V bz))"

definition Transfer :: "'m moveKeeper \<Rightarrow> 'm \<Rightarrow> bytes \<Rightarrow> bytes \<Rightarrow> bytes \<Rightarrow> 'm nftres" where
  "Transfer K m sndr receiver tokenAddr =
     mk_ExecuteEntryFunction K m sndr ''object'' ''transfer'' [(''nft'', ''Nft'')] [tokenAddr, receiver]"

definition serializeStr :: "vmLib \<Rightarrow> string \<Rightarrow> bytes nftres" where
  "serializeStr V s = orFail ErrEncoding (SerializeString V s)"

definition Mint :: "vmLib \<Rightarrow> 'm moveKeeper \<Rightarrow> 'm \<Rightarrow> string \<Rightarrow> string \<Rightarrow> string \<Rightarrow> string \<Rightarrow> bytes \<Rightarrow> 'm nftres" where
  "Mint V K m collectionName tokenID tokenURI tokenDesc recipientAddr =
     obind (serializeStr V collectionName) (\<lambda>collectionNameBz.
     obind (serializeStr V tokenID) (\<lambda>tokenIDBz.
     obind (serializeStr V tokenURI) (\<lambda>tokenURIBz.
     obind (serializeStr V tokenDesc) (\<lambda>tokenDescBz.
     mk_ExecuteEntryFunction K m (StdAddress V) ''initia_nft'' ''mint'' []
       [collectionNameBz, tokenDescBz, tokenIDBz, tokenURIBz, [char_of (1 :: nat)],
        char_of (1 :: nat) # recipientAddr]))))"

definition Burn :: "'m moveKeeper \<Rightarrow> 'm \<Rightarrow> bytes \<Rightarrow> bytes \<Rightarrow> 'm nftres" where
  "Burn K m ownerAddr tokenAddr =
     mk_ExecuteEntryFunction K m ownerAddr ''initia_nft'' ''burn'' [(''initia_nft'', ''InitiaNft'')] [tokenAddr]"

definition isCollectionInitialized :: "'m moveKeeper \<Rightarrow> 'm \<Rightarrow> bytes \<Rightarrow> bool nftres" where
  "isCollectionInitialized K m collection = mk_HasResource K m collection (''collection'', ''Collection'')"

definition initializeCollection :: "vmLib \<Rightarrow> 'm moveKeeper \<Rightarrow> 'm \<Rightarrow> string \<Rightarrow> string \<Rightarrow> string \<Rightarrow> 'm nftres" where
  "initializeCollection V K m collectionName classUri classData =
     (let no = [char_of (0 :: nat)] in
      obind (serializeStr V collectionName) (\<lambda>collectionNameBz.
      obind (serializeStr V classUri) (\<lambda>collectionUriBz.
      obind (serializeStr V classData) (\<lambda>collectionDescBz.
      mk_ExecuteEntryFunction K m (StdAddress V) ''initia_nft'' ''create_collection'' []
        [collectionDescBz, no, collectionNameBz, collectionUriBz, no, no, no, no, no, no]))))"

definition CreateOrUpdateClass :: "vmLib \<Rightarrow> 'm moveKeeper \<Rightarrow> 'm \<Rightarrow> string \<Rightarrow> string \<Rightarrow> string \<Rightarrow> 'm nftres" where
  "CreateOrUpdateClass V K m classId classUri classData =
     obind (CollectionAddressFromClassId V classId) (\<lambda>collectionAddr.
     obind (isCollectionInitialized K m collectionAddr) (\<lambda>ok.
     if \<not> ok then initializeCollection V K m classId classUri classData else Ok m))"

text \<open>Register the account of the receiver, which the bank module does not do for NFTs.\<close>

definition registerAccount :: "'m moveKeeper \<Rightarrow> 'm \<Rightarrow> bytes \<Rightarrow> 'm" where
  "registerAccount K m receiver = (if \<not> mk_HasAccount K m receiver then mk_NewAccount K m receiver else m)"

definition accountAddress :: "vmLib \<Rightarrow> bytes \<Rightarrow> bytes nftres" where
  "accountAddress V a = orFail (ErrMove ErrAddressBytes) (NewAccountAddressFromBytes V a)"

fun eachToken :: "('m \<Rightarrow> 't \<Rightarrow> 'm nftres) \<Rightarrow> 'm \<Rightarrow> 't list \<Rightarrow> 'm nftres" where
  "eachToken f m [] = Ok m"
| "eachToken f m (t # ts) = obind (f m t) (\<lambda>m. eachToken f m ts)"

definition Transfers :: "vmLib \<Rightarrow> 'm moveKeeper \<Rightarrow> 'm \<Rightarrow> bytes \<Rightarrow> bytes \<Rightarrow> string \<Rightarrow> string list \<Rightarrow> 'm nftres" where
  "Transfers V K m sndr receiver classId tokenIds =
     (let m = registerAccount K m receiver in
      obind (accountAddress V sndr) (\<lambda>senderAddr.
      obind (accountAddress V receiver) (\<lambda>receiverAddr.
      obind (CollectionAddressFromClassId V classId) (\<lambda>collectionAddr.
      obind (CollectionInfo V K m collectionAddr) (\<lambda>(collectionCreator, collectionName, _, _).
      eachToken (\<lambda>m tokenId.
          obind (TokenAddressFromTokenId V collectionCreator collectionName tokenId) (\<lambda>tokenAddr.
          Transfer K m senderAddr receiverAddr tokenAddr)) m tokenIds)))))"

definition Burns :: "vmLib \<Rightarrow> 'm moveKeeper \<Rightarrow> 'm \<Rightarrow> bytes \<Rightarrow> string \<Rightarrow> string list \<Rightarrow> 'm nftres" where
  "Burns V K m owner classId tokenIds =
     obind (accountAddress V owner) (\<lambda>ownerAddr.
     obind (CollectionAddressFromClassId V classId) (\<lambda>collection.
     obind (CollectionInfo V K m collection) (\<lambda>(collectionCreator, collectionName, _, _).
     eachToken (\<lambda>m tokenId.
         obind (TokenAddressFromTokenId V collectionCreator collectionName tokenId) (\<lambda>tokenAddr.
         Burn K m ownerAddr tokenAddr)) m tokenIds)))"

text \<open>The loop indexes all three slices with the index of the token identifiers.\<close>

definition Mints ::
    "vmLib \<Rightarrow> 'm moveKeeper \<Rightarrow> 'm \<Rightarrow> bytes \<Rightarrow> string \<Rightarrow> string list \<Rightarrow> string list \<Rightarrow> string list \<Rightarrow> 'm nftres" where
  "Mints V K m receiver classId tokenIds tokenUris tokenData =
     (let m = registerAccount K m receiver in
      obind (accountAddress V receiver) (\<lambda>receiverAddr.
      obind (CollectionAddressFromClassId V classId) (\<lambda>collection.
      obind (CollectionInfo V K m collection) (\<lambda>(_, collectionName, _, _).
      eachToken (\<lambda>m i.
          obind (index tokenUris (int i)) (\<lambda>tokenUri.
          obind (index tokenData (int i)) (\<lambda>tokenDesc.
          Mint V K m collectionName (tokenIds ! i) tokenUri tokenDesc receiverAddr))) m
        [0 ..< length tokenIds]))))"

definition GetClassInfo :: "vmLib \<Rightarrow> 'm moveKeeper \<Rightarrow> 'm \<Rightarrow> string \<Rightarrow> (string \<times> string \<times> string) nftres" where
  "GetClassInfo V K m classId =
     obind (CollectionAddressFromClassId V classId) (\<lambda>collectionAddr.
     obind (CollectionInfo V K m collectionAddr) (\<lambda>(_, className, classUri, classDescs).
     Ok (className, classUri, classDescs)))"

fun tokenInfos :: "vmLib \<Rightarrow> 'm moveKeeper \<Rightarrow> 'm \<Rightarrow> bytes \<Rightarrow> string \<Rightarrow> string list \<Rightarrow> (string list \<times> string list) nftres" where
  "tokenInfos V K m creator name [] = Ok ([], [])"
| "tokenInfos V K m creator name (tokenId # rest) =
     obind (TokenAddressFromTokenId V creator name tokenId) (\<lambda>tokenAddr.
     obind (mk_GetResourceBytes K m tokenAddr (''nft'', ''Nft'')) (\<lambda>bz.
     obind (mapFail ErrMove (ReadNftInfo bz)) (\<lambda>(_, tokenUri, tokenDesc).
     obind (tokenInfos V K m creator name rest) (\<lambda>(uris, descs).
     Ok (tokenUri # uris, tokenDesc # descs)))))"

definition GetTokenInfos :: "vmLib \<Rightarrow> 'm moveKeeper \<Rightarrow> 'm \<Rightarrow> string \<Rightarrow> string list \<Rightarrow> (string list \<times> string list) nftres" where
  "GetTokenInfos V K m classId tokenIds =
     obind (CollectionAddressFromClassId V classId) (\<lambda>collectionAddr.
     obind (CollectionInfo V K m collectionAddr) (\<lambda>(collectionCreator, collectionName, _, _).
     tokenInfos V K m collectionCreator collectionName tokenIds))"

definition NewNftKeeper :: "vmLib \<Rightarrow> 'm moveKeeper \<Rightarrow> 'm NftKeeper" where
  "NewNftKeeper V K =
     \<lparr>nk_CreateOrUpdateClass = CreateOrUpdateClass V K, nk_Transfers = Transfers V K,
      nk_Burns = Burns V K, nk_Mints = Mints V K, nk_GetClassInfo = GetClassInfo V K,
      nk_GetTokenInfos = GetTokenInfos V K\<rparr>"

section \<open>What the Move modules promise\<close>

text \<open>
  The object of a token, and the documented behaviour of the entry functions that the keeper calls,
  on a view \<open>own\<close> of the owners of token objects: \<open>object::transfer\<close> needs the sender to own the
  object and gives it to the receiver, \<open>initia_nft::burn\<close> needs the owner and leaves none,
  \<open>initia_nft::mint\<close> makes the object that the module address derives from collection and token name,
  and \<open>create_collection\<close> stores a collection of the module address at the address derived from its name.
\<close>

definition tokenObject :: "vmLib \<Rightarrow> 'm moveKeeper \<Rightarrow> 'm \<Rightarrow> string \<Rightarrow> string \<Rightarrow> bytes option" where
  "tokenObject V K m classId tokenId =
     (case obind (CollectionAddressFromClassId V classId) (\<lambda>a.
           obind (CollectionInfo V K m a) (\<lambda>(creator, name, _, _).
           TokenAddressFromTokenId V creator name tokenId)) of
        Ok x \<Rightarrow> Some x
      | _ \<Rightarrow> None)"

definition vm_ok :: "vmLib \<Rightarrow> 'm moveKeeper \<Rightarrow> ('m \<Rightarrow> bytes \<Rightarrow> bytes option) \<Rightarrow> bool" where
  "vm_ok V K own \<longleftrightarrow>
     (\<forall>m a. own (mk_NewAccount K m a) = own m \<and> CollectionInfo V K (mk_NewAccount K m a) = CollectionInfo V K m) \<and>
     (\<forall>m s r x m'. Transfer K m s r x = Ok m' \<longrightarrow>
        own m x = Some s \<and> own m' = (own m)(x := Some r) \<and> CollectionInfo V K m' = CollectionInfo V K m) \<and>
     (\<forall>m s x m'. Burn K m s x = Ok m' \<longrightarrow>
        own m x = Some s \<and> own m' = (own m)(x := None) \<and> CollectionInfo V K m' = CollectionInfo V K m) \<and>
     (\<forall>m c t u d r m'. Mint V K m c t u d r = Ok m' \<longrightarrow>
        (\<exists>x. TokenAddressFromTokenId V (StdAddress V) c t = Ok x \<and> own m x = None \<and> own m' = (own m)(x := Some r)) \<and>
        CollectionInfo V K m' = CollectionInfo V K m) \<and>
     (\<forall>m c u d m'. initializeCollection V K m c u d = Ok m' \<longrightarrow> own m' = own m \<and>
        (\<exists>a. NamedObjectAddress V (StdAddress V) c = Ok a \<and>
             CollectionInfo V K m' = (CollectionInfo V K m)(a := Ok (StdAddress V, c, u, d)))) \<and>
     (\<forall>m a i. isCollectionInitialized K m a = Ok False \<longrightarrow> CollectionInfo V K m a \<noteq> Ok i) \<and>
     (\<forall>m c a creator i. NamedObjectAddress V (StdAddress V) c = Ok a \<longrightarrow>
        CollectionInfo V K m a = Ok (creator, i) \<longrightarrow> creator = StdAddress V)"

lemma vm_okD:
  assumes "vm_ok V K own"
  shows "own (mk_NewAccount K m a) = own m"
    and "CollectionInfo V K (mk_NewAccount K m a) = CollectionInfo V K m"
    and "Transfer K m s r x = Ok m' \<Longrightarrow>
      own m x = Some s \<and> own m' = (own m)(x := Some r) \<and> CollectionInfo V K m' = CollectionInfo V K m"
    and "Burn K m s x = Ok m' \<Longrightarrow>
      own m x = Some s \<and> own m' = (own m)(x := None) \<and> CollectionInfo V K m' = CollectionInfo V K m"
    and "Mint V K m c t u d r = Ok m' \<Longrightarrow>
      (\<exists>x. TokenAddressFromTokenId V (StdAddress V) c t = Ok x \<and> own m x = None \<and> own m' = (own m)(x := Some r)) \<and>
      CollectionInfo V K m' = CollectionInfo V K m"
    and "initializeCollection V K m c u d = Ok m' \<Longrightarrow> own m' = own m \<and>
      (\<exists>a. NamedObjectAddress V (StdAddress V) c = Ok a \<and>
           CollectionInfo V K m' = (CollectionInfo V K m)(a := Ok (StdAddress V, c, u, d)))"
    and "isCollectionInitialized K m a = Ok False \<Longrightarrow> CollectionInfo V K m a \<noteq> Ok j"
    and "NamedObjectAddress V (StdAddress V) c = Ok a \<Longrightarrow>
      CollectionInfo V K m a = Ok (creator, i) \<Longrightarrow> creator = StdAddress V"
  using assms unfolding vm_ok_def by (simp_all, blast+)

section \<open>The interface of the NFT keeper\<close>

text \<open>
  The contract on which the transfer module relies: an operation that succeeds found its tokens in
  the hands of the given owner and changed the owner of exactly those.
\<close>

definition reowned :: "('o \<Rightarrow> 'a option) \<Rightarrow> 'o set \<Rightarrow> 'a option \<Rightarrow> 'o \<Rightarrow> 'a option" where
  "reowned own X a = (\<lambda>x. if x \<in> X then a else own x)"

locale nft_laws =
  fixes N :: "'n NftKeeper" and acc :: "bytes \<Rightarrow> 'a option"
    and obj :: "'n \<Rightarrow> string \<Rightarrow> string \<Rightarrow> 'o option" and own :: "'n \<Rightarrow> 'o \<Rightarrow> 'a option" and ok :: bool
  assumes transfers: "ok \<Longrightarrow> nk_Transfers N n a b c ts = Ok n' \<Longrightarrow>
      (\<forall>t\<in>set ts. \<exists>x. obj n c t = Some x \<and> own n x = acc a) \<and> acc a \<noteq> None \<and> acc b \<noteq> None \<and>
      own n' = reowned (own n) {x. \<exists>t\<in>set ts. obj n c t = Some x} (acc b) \<and> obj n' = obj n"
    and burns: "ok \<Longrightarrow> nk_Burns N n a c ts = Ok n' \<Longrightarrow>
      (\<forall>t\<in>set ts. \<exists>x. obj n c t = Some x \<and> own n x = acc a) \<and> acc a \<noteq> None \<and>
      own n' = reowned (own n) {x. \<exists>t\<in>set ts. obj n c t = Some x} None \<and> obj n' = obj n"
    and mints: "ok \<Longrightarrow> \<not> IsMoveClassId c \<Longrightarrow> nk_Mints N n b c ts us ds = Ok n' \<Longrightarrow>
      (\<forall>t\<in>set ts. \<exists>x. obj n c t = Some x \<and> own n x = None) \<and> acc b \<noteq> None \<and>
      own n' = reowned (own n) {x. \<exists>t\<in>set ts. obj n c t = Some x} (acc b) \<and> obj n' = obj n"
    and creates: "ok \<Longrightarrow> \<not> IsMoveClassId c \<Longrightarrow> nk_CreateOrUpdateClass N n c u d = Ok n' \<Longrightarrow>
      own n' = own n \<and> (\<forall>c t x. obj n c t = Some x \<longrightarrow> obj n' c t = Some x)"
begin

text \<open>Giving the tokens away and getting them back restores every owner.\<close>

lemma transfer_back:
  assumes ok and "nk_Transfers N n a b c ts = Ok n1" and "nk_Transfers N n1 b a c ts = Ok n2"
  shows "own n2 = own n" and "obj n2 = obj n"
proof -
  note t1 = transfers [OF assms(1,2)] and t2 = transfers [OF assms(1,3)]
  show "obj n2 = obj n" using t1 t2 by simp
  have "own n2 = reowned (reowned (own n) {x. \<exists>t\<in>set ts. obj n c t = Some x} (acc b))
      {x. \<exists>t\<in>set ts. obj n c t = Some x} (acc a)"
    using t1 t2 by simp
  then show "own n2 = own n" using t1 by (fastforce simp: reowned_def fun_eq_iff)
qed

lemma burn_back:
  assumes ok and "\<not> IsMoveClassId c" and "nk_Burns N n a c ts = Ok n1" and "nk_Mints N n1 a c ts us ds = Ok n2"
  shows "own n2 = own n" and "obj n2 = obj n"
proof -
  note t1 = burns [OF assms(1,3)] and t2 = mints [OF assms(1,2,4)]
  show "obj n2 = obj n" using t1 t2 by simp
  have "own n2 = reowned (reowned (own n) {x. \<exists>t\<in>set ts. obj n c t = Some x} None)
      {x. \<exists>t\<in>set ts. obj n c t = Some x} (acc a)"
    using t1 t2 by simp
  then show "own n2 = own n" using t1 by (fastforce simp: reowned_def fun_eq_iff)
qed

end

section \<open>The Move keeper keeps the contract\<close>

lemma eachToken_reowned:
  assumes step: "\<And>m t m'. f m t = Ok m' \<Longrightarrow>
      \<exists>x. A t = Ok x \<and> own m x = pre \<and> own m' = (own m)(x := post) \<and> info m' = info m"
    and "eachToken f m ts = Ok m'"
  shows "(\<forall>t\<in>set ts. \<exists>x. A t = Ok x \<and> own m x = pre) \<and>
    own m' = reowned (own m) {x. \<exists>t\<in>set ts. A t = Ok x} post \<and> info m' = info m"
  using assms(2)
proof (induction ts arbitrary: m)
  case Nil
  then show ?case by (simp add: reowned_def)
next
  case (Cons t ts)
  from Cons(2) obtain m1 where m1: "f m t = Ok m1" and rest: "eachToken f m1 ts = Ok m'"
    by (auto simp: obind_Ok_iff)
  from step [OF m1] obtain x where x: "A t = Ok x" "own m x = pre" "own m1 = (own m)(x := post)" "info m1 = info m"
    by blast
  note ih = Cons(1) [OF rest]
  have "\<exists>y. A u = Ok y \<and> own m y = pre" if u: "u \<in> set ts" for u
  proof -
    obtain y where y: "A u = Ok y" "own m1 y = pre" using ih u by blast
    then have "own m y = pre" using x(2,3) by (cases "y = x") auto
    then show ?thesis using y(1) by blast
  qed
  moreover have "own m' = reowned (own m) {x. \<exists>t\<in>set (t # ts). A t = Ok x} post"
    using ih x(1,3) by (auto simp: reowned_def fun_eq_iff)
  ultimately show ?case using x ih by auto
qed

lemma registerAccount_view:
  assumes "vm_ok V K own"
  shows "own (registerAccount K m a) = own m" and "CollectionInfo V K (registerAccount K m a) = CollectionInfo V K m"
    and "tokenObject V K (registerAccount K m a) = tokenObject V K m"
  using vm_okD(1,2) [OF assms] by (simp_all add: registerAccount_def tokenObject_def fun_eq_iff)

lemma tokenObject_info:
  assumes "CollectionAddressFromClassId V c = Ok a" and "CollectionInfo V K m a = Ok (creator, name, u, d)"
  shows "tokenObject V K m c t = Some x \<longleftrightarrow> TokenAddressFromTokenId V creator name t = Ok x"
  using assms by (auto simp: tokenObject_def split: outcome.splits)

lemma tokenObject_cong: "CollectionInfo V K m' = CollectionInfo V K m \<Longrightarrow> tokenObject V K m' = tokenObject V K m"
  by (simp add: tokenObject_def fun_eq_iff)

lemma Transfers_reowned:
  assumes ok: "vm_ok V K own" and "Transfers V K m a b c ts = Ok m'"
  shows "(\<forall>t\<in>set ts. \<exists>x. tokenObject V K m c t = Some x \<and> own m x = NewAccountAddressFromBytes V a) \<and>
    NewAccountAddressFromBytes V a \<noteq> None \<and> NewAccountAddressFromBytes V b \<noteq> None \<and>
    own m' = reowned (own m) {x. \<exists>t\<in>set ts. tokenObject V K m c t = Some x} (NewAccountAddressFromBytes V b) \<and>
    tokenObject V K m' = tokenObject V K m"
proof -
  define m0 where "m0 = registerAccount K m b"
  from assms(2) obtain sa ra ca cr nm u d where
    s: "NewAccountAddressFromBytes V a = Some sa" and r: "NewAccountAddressFromBytes V b = Some ra"
    and c: "CollectionAddressFromClassId V c = Ok ca" and i: "CollectionInfo V K m0 ca = Ok (cr, nm, u, d)"
    and e: "eachToken (\<lambda>m t. obind (TokenAddressFromTokenId V cr nm t) (\<lambda>x. Transfer K m sa ra x)) m0 ts = Ok m'"
    unfolding Transfers_def Let_def m0_def by (auto simp: obind_Ok_iff accountAddress_def)
  note v = registerAccount_view [OF ok, of m b, folded m0_def]
  have o: "tokenObject V K m c t = Some x \<longleftrightarrow> TokenAddressFromTokenId V cr nm t = Ok x" for t x
    using tokenObject_info [OF c i] v(3) by simp
  have "(\<forall>t\<in>set ts. \<exists>x. TokenAddressFromTokenId V cr nm t = Ok x \<and> own m0 x = Some sa) \<and>
      own m' = reowned (own m0) {x. \<exists>t\<in>set ts. TokenAddressFromTokenId V cr nm t = Ok x} (Some ra) \<and>
      CollectionInfo V K m' = CollectionInfo V K m0"
    by (rule eachToken_reowned [OF _ e]) (auto simp: obind_Ok_iff dest!: vm_okD(3) [OF ok])
  then show ?thesis using s r o v tokenObject_cong [of V K m' m] by simp
qed

lemma Burns_reowned:
  assumes ok: "vm_ok V K own" and "Burns V K m a c ts = Ok m'"
  shows "(\<forall>t\<in>set ts. \<exists>x. tokenObject V K m c t = Some x \<and> own m x = NewAccountAddressFromBytes V a) \<and>
    NewAccountAddressFromBytes V a \<noteq> None \<and>
    own m' = reowned (own m) {x. \<exists>t\<in>set ts. tokenObject V K m c t = Some x} None \<and>
    tokenObject V K m' = tokenObject V K m"
proof -
  from assms(2) obtain sa ca cr nm u d where
    s: "NewAccountAddressFromBytes V a = Some sa"
    and c: "CollectionAddressFromClassId V c = Ok ca" and i: "CollectionInfo V K m ca = Ok (cr, nm, u, d)"
    and e: "eachToken (\<lambda>m t. obind (TokenAddressFromTokenId V cr nm t) (\<lambda>x. Burn K m sa x)) m ts = Ok m'"
    unfolding Burns_def by (auto simp: obind_Ok_iff accountAddress_def)
  have "(\<forall>t\<in>set ts. \<exists>x. TokenAddressFromTokenId V cr nm t = Ok x \<and> own m x = Some sa) \<and>
      own m' = reowned (own m) {x. \<exists>t\<in>set ts. TokenAddressFromTokenId V cr nm t = Ok x} None \<and>
      CollectionInfo V K m' = CollectionInfo V K m"
    by (rule eachToken_reowned [OF _ e]) (auto simp: obind_Ok_iff dest!: vm_okD(4) [OF ok])
  then show ?thesis using s tokenObject_info [OF c i] tokenObject_cong [of V K m' m] by simp
qed

lemma Mints_reowned:
  assumes ok: "vm_ok V K own" and "\<not> IsMoveClassId c" and "Mints V K m b c ts us ds = Ok m'"
  shows "(\<forall>t\<in>set ts. \<exists>x. tokenObject V K m c t = Some x \<and> own m x = None) \<and>
    NewAccountAddressFromBytes V b \<noteq> None \<and>
    own m' = reowned (own m) {x. \<exists>t\<in>set ts. tokenObject V K m c t = Some x} (NewAccountAddressFromBytes V b) \<and>
    tokenObject V K m' = tokenObject V K m"
proof -
  define m0 where "m0 = registerAccount K m b"
  from assms(3) obtain ra ca cr nm u d where
    r: "NewAccountAddressFromBytes V b = Some ra"
    and c: "CollectionAddressFromClassId V c = Ok ca" and i: "CollectionInfo V K m0 ca = Ok (cr, nm, u, d)"
    and e: "eachToken (\<lambda>m i. obind (index us (int i)) (\<lambda>tu. obind (index ds (int i)) (\<lambda>td.
        Mint V K m nm (ts ! i) tu td ra))) m0 [0 ..< length ts] = Ok m'"
    unfolding Mints_def Let_def m0_def by (auto simp: obind_Ok_iff accountAddress_def)
  note v = registerAccount_view [OF ok, of m b, folded m0_def]
  have "NamedObjectAddress V (StdAddress V) c = Ok ca"
    using c assms(2) by (simp add: CollectionAddressFromClassId_def IsMoveClassId_def CutPrefix_def)
  then have cr: "cr = StdAddress V" using vm_okD(8) [OF ok] i by blast
  have o: "tokenObject V K m c t = Some x \<longleftrightarrow> TokenAddressFromTokenId V (StdAddress V) nm t = Ok x" for t x
    using tokenObject_info [OF c i] v(3) cr by simp
  have "(\<forall>i\<in>set [0 ..< length ts]. \<exists>x. TokenAddressFromTokenId V (StdAddress V) nm (ts ! i) = Ok x \<and> own m0 x = None) \<and>
      own m' = reowned (own m0) {x. \<exists>i\<in>set [0 ..< length ts]. TokenAddressFromTokenId V (StdAddress V) nm (ts ! i) = Ok x} (Some ra) \<and>
      CollectionInfo V K m' = CollectionInfo V K m0"
    by (rule eachToken_reowned [OF _ e]) (auto simp: obind_Ok_iff dest!: vm_okD(5) [OF ok])
  then show ?thesis using r o v tokenObject_cong [of V K m' m]
    by (simp add: all_set_conv_all_nth Bex_def in_set_conv_nth conj_commute cong: conj_cong) (metis (no_types, lifting))
qed

lemma CreateOrUpdateClass_view:
  assumes ok: "vm_ok V K own" and "\<not> IsMoveClassId c" and "CreateOrUpdateClass V K m c u d = Ok m'"
  shows "own m' = own m" and "tokenObject V K m c' t = Some x \<Longrightarrow> tokenObject V K m' c' t = Some x"
proof -
  from assms(3) obtain a init where a: "CollectionAddressFromClassId V c = Ok a"
    and init: "isCollectionInitialized K m a = Ok init"
    and m': "(if \<not> init then initializeCollection V K m c u d else Ok m) = Ok m'"
    unfolding CreateOrUpdateClass_def by (auto simp: obind_Ok_iff)
  have "NamedObjectAddress V (StdAddress V) c = Ok a"
    using a assms(2) by (simp add: CollectionAddressFromClassId_def IsMoveClassId_def CutPrefix_def)
  then have new: "own m' = own m \<and> CollectionInfo V K m' = (CollectionInfo V K m)(a := Ok (StdAddress V, c, u, d)) \<and>
      (\<forall>i. CollectionInfo V K m a \<noteq> Ok i)" if "\<not> init"
    using vm_okD(6) [OF ok, of m c u d m'] vm_okD(7) [OF ok, of m a] m' init that by auto
  show "own m' = own m" using new m' by (cases init) auto
  show "tokenObject V K m' c' t = Some x" if "tokenObject V K m c' t = Some x"
  proof (cases init)
    case False
    from that obtain ca where "CollectionAddressFromClassId V c' = Ok ca" "\<exists>i. CollectionInfo V K m ca = Ok i"
      unfolding tokenObject_def by (auto simp: obind_Ok_iff split: outcome.splits)
    then show ?thesis using new [OF False] that by (auto simp: tokenObject_def)
  qed (use m' that in auto)
qed

interpretation nk: nft_laws "NewNftKeeper V K" "NewAccountAddressFromBytes V" "tokenObject V K" own "vm_ok V K own"
  for V :: vmLib and K :: "'m moveKeeper" and own :: "'m \<Rightarrow> bytes \<Rightarrow> bytes option"
proof unfold_locales
  fix n :: 'm and c u d n'
  assume h: "vm_ok V K own" "\<not> IsMoveClassId c" "nk_CreateOrUpdateClass (NewNftKeeper V K) n c u d = Ok n'"
  then have "CreateOrUpdateClass V K n c u d = Ok n'" by (simp add: NewNftKeeper_def)
  then show "own n' = own n \<and> (\<forall>c t x. tokenObject V K n c t = Some x \<longrightarrow> tokenObject V K n' c t = Some x)"
    using CreateOrUpdateClass_view [OF h(1,2)] by blast
qed (simp_all add: NewNftKeeper_def Transfers_reowned Burns_reowned Mints_reowned)

end
