(* ===== verification/Nft_Relay.thy ===== *)
theory Nft_Relay
  imports Move_Nft
begin

text \<open>
  Model of the NFT transfer keeper (\<open>x/ibc/nft-transfer/keeper\<close>: \<open>relay.go\<close>, \<open>msg_server.go\<close>,
  \<open>genesis.go\<close>, \<open>grpc_query.go\<close>, \<open>params.go\<close>, \<open>keeper.go\<close>) and of the IBC callbacks around it
  (\<open>x/ibc/nft-transfer/ibc_module.go\<close>). A chain is its own store plus the state \<open>'n\<close> behind the NFT and
  account keepers and the state \<open>'i\<close> behind the IBC keepers; the latter are the parameters \<open>ibcKeepers\<close>
  and \<open>authKeeper\<close>. A failing handler has no successor state: the caller rolls the store back.
\<close>

section \<open>State and parameters\<close>

record 'i ibcKeepers =
  ik_GetChannel :: "'i \<Rightarrow> string \<Rightarrow> string \<Rightarrow> (string \<times> string) option"
  ik_GetNextSequenceSend :: "'i \<Rightarrow> string \<Rightarrow> string \<Rightarrow> nat option"
  ik_GetCapability :: "'i \<Rightarrow> string \<Rightarrow> string \<Rightarrow> nat option"
  ik_SendPacket :: "'i \<Rightarrow> nat \<Rightarrow> string \<Rightarrow> string \<Rightarrow> nat \<times> nat \<Rightarrow> nat \<Rightarrow> bytes \<Rightarrow> (nat \<times> 'i) nftres"
  ik_IsBound :: "'i \<Rightarrow> string \<Rightarrow> bool"
  ik_BindPort :: "'i \<Rightarrow> string \<Rightarrow> nat \<times> 'i"
  ik_ClaimPort :: "'i \<Rightarrow> nat \<Rightarrow> string \<Rightarrow> 'i nftres"
  ik_ClaimChannel :: "'i \<Rightarrow> nat \<Rightarrow> string \<Rightarrow> string \<Rightarrow> 'i nftres"

record 'n authKeeper =
  ak_StringToBytes :: "string \<Rightarrow> bytes option"
  ak_String :: "bytes \<Rightarrow> string"
  ak_HasAccount :: "'n \<Rightarrow> bytes \<Rightarrow> bool"
  ak_NewAccount :: "'n \<Rightarrow> bytes \<Rightarrow> 'n"

text \<open>The fields of the Go \<open>Keeper\<close> that are other keepers.\<close>

record ('n, 'i) Keeper =
  k_lib :: ibcLib
  k_ibc :: "'i ibcKeepers"
  k_auth :: "'n authKeeper"
  k_nft :: "'n NftKeeper"
  k_authority :: string

record ('n, 'i) chain =
  c_PortID :: "string option"
  c_Params :: "Params option"
  c_ClassTraces :: "(bytes, ClassTrace) gomap"
  c_ClassData :: "(bytes, string) gomap"
  c_TokenData :: "(bytes \<times> string, string) gomap"
  c_nft :: 'n
  c_ibc :: 'i

record Packet =
  p_SourcePort :: string
  p_SourceChannel :: string
  p_DestPort :: string
  p_DestChannel :: string
  p_Data :: bytes

datatype Acknowledgement = AckResult bytes | AckError string | AckNone

section \<open>Keeper reads\<close>

definition GetSendEnabled :: "('n, 'i) chain \<Rightarrow> bool nftres" where
  "GetSendEnabled s = obind (orFail ErrNotFound (c_Params s)) (\<lambda>params. Ok (SendEnabled params))"

definition GetReceiveEnabled :: "('n, 'i) chain \<Rightarrow> bool nftres" where
  "GetReceiveEnabled s = obind (orFail ErrNotFound (c_Params s)) (\<lambda>params. Ok (ReceiveEnabled params))"

definition IterateClassTraces :: "('n, 'i) chain \<Rightarrow> ClassTrace list" where
  "IterateClassTraces s = map snd (mitems (c_ClassTraces s))"

definition GetAllClassTraces :: "('n, 'i) chain \<Rightarrow> ClassTrace list" where
  "GetAllClassTraces s = Traces_Sort (IterateClassTraces s)"

text \<open>The slice expression at the start panics on a class id shorter than the prefix.\<close>

definition ClassIdPathFromHash :: "ibcLib \<Rightarrow> ('n, 'i) chain \<Rightarrow> string \<Rightarrow> string nftres" where
  "ClassIdPathFromHash L s classId =
     obind (sliceFrom classId (int (length (ClassIdPrefix @ ''/'')))) (\<lambda>hexHash.
     obind (mapFail (\<lambda>_. ErrInvalidClassIdForNftTransfer) (ParseHexHash L hexHash)) (\<lambda>hash.
     obind (orFail ErrNotFound (mget (c_ClassTraces s) hash)) (\<lambda>classTrace.
     Ok (GetFullClassIdPath classTrace))))"

section \<open>Sending\<close>

fun getTokenData :: "('n, 'i) chain \<Rightarrow> bytes \<Rightarrow> string list \<Rightarrow> string list nftres" where
  "getTokenData s traceHash [] = Ok []"
| "getTokenData s traceHash (t # ts) =
     obind (orFail ErrNotFound (mget (c_TokenData s) (traceHash, t))) (\<lambda>d.
     obind (getTokenData s traceHash ts) (\<lambda>ds. Ok (d # ds)))"

text \<open>
  \<open>tokenData\<close> has one slot for each token id; the loop writes the slot of every token description,
  and writing past the last slot would panic.
\<close>

fun convertTokenData :: "ibcLib \<Rightarrow> nat \<Rightarrow> string list \<Rightarrow> string list nftres" where
  "convertTokenData L slots [] = Ok (replicate slots '''')"
| "convertTokenData L slots (d # ds) =
     obind (ConvertTokenDataToICS721 L d) (\<lambda>x.
     if slots = 0 then Panic
     else obind (convertTokenData L (slots - 1) ds) (\<lambda>xs. Ok (x # xs)))"

text \<open>The full path and the class and token data that go into the packet.\<close>

definition packetInfo ::
    "ibcLib \<Rightarrow> ('n, 'i) chain \<Rightarrow> string \<Rightarrow> string list \<Rightarrow> string \<Rightarrow> string \<Rightarrow> string list \<Rightarrow>
     (string \<times> string \<times> string list) nftres" where
  "packetInfo L s classId tokenIds className classDesc tokenDesc =
     (if HasPrefix classId (ClassIdPrefix @ ''/'') then
        obind (ClassIdPathFromHash L s classId) (\<lambda>fullClassIdPath.
        let traceHash = Hash L (ParseClassTrace L fullClassIdPath) in
        obind (orFail ErrNotFound (mget (c_ClassData s) traceHash)) (\<lambda>classData.
        obind (getTokenData s traceHash tokenIds) (\<lambda>tokenData.
        Ok (fullClassIdPath, classData, tokenData))))
      else
        obind (ConvertClassDataToICS721 L className classDesc) (\<lambda>classData.
        obind (convertTokenData L (length tokenIds) tokenDesc) (\<lambda>tokenData.
        Ok (classId, classData, tokenData))))"

text \<open>
  The reads before the escrow, which end in the packet data: the class and token information, and
  the full path and data strings of \<open>packetInfo\<close>.
\<close>

definition newPacketData ::
    "('n, 'i) Keeper \<Rightarrow> ('n, 'i) chain \<Rightarrow> string \<Rightarrow> string list \<Rightarrow> bytes \<Rightarrow> string \<Rightarrow> string \<Rightarrow>
     NonFungibleTokenPacketData nftres" where
  "newPacketData K s classId tokenIds sndr receiver memo =
     obind (nk_GetClassInfo (k_nft K) (c_nft s) classId) (\<lambda>(className, classUri, classDesc).
     obind (nk_GetTokenInfos (k_nft K) (c_nft s) classId tokenIds) (\<lambda>(tokenUris, tokenDesc).
     obind (packetInfo (k_lib K) s classId tokenIds className classDesc tokenDesc)
       (\<lambda>(fullClassIdPath, classData, tokenData).
     Ok \<lparr>pd_ClassId = fullClassIdPath, pd_ClassUri = classUri, pd_ClassData = classData,
         pd_TokenIds = tokenIds, pd_TokenUris = tokenUris, pd_TokenData = tokenData,
         pd_Sender = ak_String (k_auth K) sndr, pd_Receiver = receiver, pd_Memo = memo\<rparr>)))"

definition sendNftTransfer ::
    "('n, 'i) Keeper \<Rightarrow> ('n, 'i) chain \<Rightarrow> string \<Rightarrow> string \<Rightarrow> string \<Rightarrow> string list \<Rightarrow> bytes \<Rightarrow> string \<Rightarrow>
     nat \<times> nat \<Rightarrow> nat \<Rightarrow> string \<Rightarrow> (nat \<times> ('n, 'i) chain) nftres" where
  "sendNftTransfer K s sourcePort sourceChannel classId tokenIds sndr receiver timeoutHeight timeoutTimestamp memo =
     (let L = k_lib K; I = k_ibc K; N = k_nft K in
      obind (GetSendEnabled s) (\<lambda>enabled.
      obind (guard enabled ErrSendDisabled) (\<lambda>_.
      obind (guard (length tokenIds \<noteq> 0) ErrInvalidTokenIds) (\<lambda>_.
      obind (orFail ErrChannelNotFound (ik_GetChannel I (c_ibc s) sourcePort sourceChannel)) (\<lambda>_.
      obind (orFail ErrSequenceSendNotFound (ik_GetNextSequenceSend I (c_ibc s) sourcePort sourceChannel)) (\<lambda>sequence.
      obind (orFail ErrChannelCapabilityNotFound (ik_GetCapability I (c_ibc s) sourcePort sourceChannel)) (\<lambda>channelCap.
      obind (newPacketData K s classId tokenIds sndr receiver memo) (\<lambda>packetData.
      obind (if SenderChainIsSource sourcePort sourceChannel (pd_ClassId packetData)
             then nk_Transfers N (c_nft s) sndr (GetEscrowAddress L sourcePort sourceChannel) classId tokenIds
             else nk_Burns N (c_nft s) sndr classId tokenIds) (\<lambda>n.
      obind (ik_SendPacket I (c_ibc s) channelCap sourcePort sourceChannel timeoutHeight timeoutTimestamp
               (GetBytes L packetData)) (\<lambda>(_, i).
      Ok (sequence, s\<lparr>c_nft := n, c_ibc := i\<rparr>)))))))))))"

definition SendNftTransfer ::
    "('n, 'i) Keeper \<Rightarrow> ('n, 'i) chain \<Rightarrow> string \<Rightarrow> string \<Rightarrow> string \<Rightarrow> string list \<Rightarrow> bytes \<Rightarrow> string \<Rightarrow>
     nat \<times> nat \<Rightarrow> nat \<Rightarrow> ('n, 'i) chain nftres" where
  "SendNftTransfer K s sourcePort sourceChannel classId tokenIds sndr receiver timeoutHeight timeoutTimestamp =
     obind (sendNftTransfer K s sourcePort sourceChannel classId tokenIds sndr receiver timeoutHeight
              timeoutTimestamp '''') (\<lambda>(_, s). Ok s)"

section \<open>Receiving\<close>

text \<open>The three writes happen only where the key is not yet present.\<close>

definition setIfAbsent :: "('k, 'v) gomap \<Rightarrow> 'k \<Rightarrow> 'v \<Rightarrow> ('k, 'v) gomap" where
  "setIfAbsent m k v = (case mget m k of Some _ \<Rightarrow> m | None \<Rightarrow> mput m k v)"

fun storeTokenData ::
    "(bytes \<times> string, string) gomap \<Rightarrow> bytes \<Rightarrow> nat \<Rightarrow> string list \<Rightarrow> string list \<Rightarrow>
     (bytes \<times> string, string) gomap nftres" where
  "storeTokenData m traceHash i [] tokenData = Ok m"
| "storeTokenData m traceHash i (t # ts) tokenData =
     (case mget m (traceHash, t) of
        Some _ \<Rightarrow> storeTokenData m traceHash (i + 1) ts tokenData
      | None \<Rightarrow>
          obind (index tokenData (int i)) (\<lambda>d.
          storeTokenData (mput m (traceHash, t) d) traceHash (i + 1) ts tokenData))"

text \<open>The account of the receiver is created when there is none.\<close>

definition ensureAccount :: "'n authKeeper \<Rightarrow> 'n \<Rightarrow> bytes \<Rightarrow> 'n" where
  "ensureAccount A n receiver = (if \<not> ak_HasAccount A n receiver then ak_NewAccount A n receiver else n)"

text \<open>The class that a path without its last hop names on this chain: native, or the hash of the path.\<close>

definition localClassId :: "ibcLib \<Rightarrow> string \<Rightarrow> string" where
  "localClassId L unprefixedClassId =
     (let classTrace = ParseClassTrace L unprefixedClassId
      in if Path classTrace \<noteq> '''' then IBCClassId L classTrace else unprefixedClassId)"

definition Keeper_OnRecvPacket ::
    "('n, 'i) Keeper \<Rightarrow> ('n, 'i) chain \<Rightarrow> Packet \<Rightarrow> NonFungibleTokenPacketData \<Rightarrow> ('n, 'i) chain nftres" where
  "Keeper_OnRecvPacket K s packet d =
     (let L = k_lib K; N = k_nft K; A = k_auth K in
      obind (case Packet_ValidateBasic L d of Some err \<Rightarrow> Fail err | None \<Rightarrow> Ok ()) (\<lambda>_.
      obind (GetReceiveEnabled s) (\<lambda>enabled.
      obind (guard enabled ErrReceiveDisabled) (\<lambda>_.
      obind (orFail ErrInvalidAddress (ak_StringToBytes A (pd_Receiver d))) (\<lambda>receiver.
      let n = ensureAccount A (c_nft s) receiver in
      if ReceiverChainIsSource (p_SourcePort packet) (p_SourceChannel packet) (pd_ClassId d) then
        (let voucherPrefix = GetClassIdPrefix (p_SourcePort packet) (p_SourceChannel packet);
             classId = localClassId L (drop (length voucherPrefix) (pd_ClassId d));
             escrowAddress = GetEscrowAddress L (p_DestPort packet) (p_DestChannel packet)
         in obind (mapFail ErrUnescrow (nk_Transfers N n escrowAddress receiver classId (pd_TokenIds d))) (\<lambda>n.
            Ok (s\<lparr>c_nft := n\<rparr>)))
      else
        (let sourcePrefix = GetClassIdPrefix (p_DestPort packet) (p_DestChannel packet);
             prefixedClassId = sourcePrefix @ pd_ClassId d;
             classTrace = ParseClassTrace L prefixedClassId;
             traceHash = Hash L classTrace;
             classTraces = setIfAbsent (c_ClassTraces s) traceHash classTrace;
             classData = setIfAbsent (c_ClassData s) traceHash (pd_ClassData d)
         in obind (storeTokenData (c_TokenData s) traceHash 0 (pd_TokenIds d) (pd_TokenData d)) (\<lambda>tokenData.
            let voucherClassId = IBCClassId L classTrace in
            obind (nk_CreateOrUpdateClass N n voucherClassId (pd_ClassUri d) (pd_ClassData d)) (\<lambda>n.
            obind (nk_Mints N n receiver voucherClassId (pd_TokenIds d) (pd_TokenUris d) (pd_TokenData d)) (\<lambda>n.
            Ok (s\<lparr>c_ClassTraces := classTraces, c_ClassData := classData, c_TokenData := tokenData,
                  c_nft := n\<rparr>))))))))))"

section \<open>Refunds\<close>

definition refundPacketToken ::
    "('n, 'i) Keeper \<Rightarrow> ('n, 'i) chain \<Rightarrow> Packet \<Rightarrow> NonFungibleTokenPacketData \<Rightarrow> ('n, 'i) chain nftres" where
  "refundPacketToken K s packet d =
     (let L = k_lib K; N = k_nft K;
          classId = IBCClassId L (ParseClassTrace L (pd_ClassId d)) in
      obind (orFail ErrInvalidAddress (ak_StringToBytes (k_auth K) (pd_Sender d))) (\<lambda>sndr.
      if SenderChainIsSource (p_SourcePort packet) (p_SourceChannel packet) (pd_ClassId d) then
        (let escrowAddress = GetEscrowAddress L (p_SourcePort packet) (p_SourceChannel packet) in
         obind (mapFail ErrUnescrow (nk_Transfers N (c_nft s) escrowAddress sndr classId (pd_TokenIds d))) (\<lambda>n.
         Ok (s\<lparr>c_nft := n\<rparr>)))
      else
        obind (nk_Mints N (c_nft s) sndr classId (pd_TokenIds d) (pd_TokenUris d) (pd_TokenData d)) (\<lambda>n.
        Ok (s\<lparr>c_nft := n\<rparr>))))"

definition Keeper_OnAcknowledgementPacket ::
    "('n, 'i) Keeper \<Rightarrow> ('n, 'i) chain \<Rightarrow> Packet \<Rightarrow> NonFungibleTokenPacketData \<Rightarrow> Acknowledgement \<Rightarrow>
     ('n, 'i) chain nftres" where
  "Keeper_OnAcknowledgementPacket K s packet d ack =
     (case ack of AckError _ \<Rightarrow> refundPacketToken K s packet d | _ \<Rightarrow> Ok s)"

definition Keeper_OnTimeoutPacket ::
    "('n, 'i) Keeper \<Rightarrow> ('n, 'i) chain \<Rightarrow> Packet \<Rightarrow> NonFungibleTokenPacketData \<Rightarrow> ('n, 'i) chain nftres" where
  "Keeper_OnTimeoutPacket K s packet d = refundPacketToken K s packet d"

section \<open>Message server\<close>

definition MsgServer_Transfer :: "('n, 'i) Keeper \<Rightarrow> ('n, 'i) chain \<Rightarrow> MsgTransfer \<Rightarrow> (nat \<times> ('n, 'i) chain) nftres" where
  "MsgServer_Transfer K s msg =
     (let ac = ak_StringToBytes (k_auth K) in
      obind (MsgTransfer_Validate (k_lib K) ac msg) (\<lambda>_.
      obind (orFail ErrInvalidAddress (ac (mt_Sender msg))) (\<lambda>sndr.
      sendNftTransfer K s (mt_SourcePort msg) (mt_SourceChannel msg) (mt_ClassId msg) (mt_TokenIds msg)
        sndr (mt_Receiver msg) (mt_TimeoutHeight msg) (mt_TimeoutTimestamp msg) (mt_Memo msg))))"

definition MsgServer_UpdateParams :: "('n, 'i) Keeper \<Rightarrow> ('n, 'i) chain \<Rightarrow> string \<Rightarrow> Params \<Rightarrow> ('n, 'i) chain nftres" where
  "MsgServer_UpdateParams K s authority params =
     obind (guard (ak_StringToBytes (k_auth K) authority \<noteq> None) ErrInvalidAddress) (\<lambda>_.
     obind (guard (k_authority K = authority) ErrInvalidSigner) (\<lambda>_.
     Ok (s\<lparr>c_Params := Some params\<rparr>)))"

section \<open>IBC callbacks\<close>

definition ValidateNftTransferChannelParams ::
    "ibcLib \<Rightarrow> ('n, 'i) chain \<Rightarrow> bool \<Rightarrow> string \<Rightarrow> string \<Rightarrow> unit nftres" where
  "ValidateNftTransferChannelParams L s unordered portID channelID =
     obind (orFail ErrChannelSequence (ParseChannelSequence L channelID)) (\<lambda>channelSequence.
     obind (guard (\<not> 2 ^ 32 - 1 < channelSequence) ErrMaxNftTransferChannels) (\<lambda>_.
     obind (guard unordered ErrInvalidChannelOrdering) (\<lambda>_.
     obind (orFail ErrNotFound (c_PortID s)) (\<lambda>boundPort.
     guard (boundPort = portID) ErrInvalidPort))))"

definition OnChanOpenInit ::
    "('n, 'i) Keeper \<Rightarrow> ('n, 'i) chain \<Rightarrow> bool \<Rightarrow> string \<Rightarrow> string \<Rightarrow> nat \<Rightarrow> string \<Rightarrow>
     (string \<times> ('n, 'i) chain) nftres" where
  "OnChanOpenInit K s unordered portID channelID chanCap version =
     obind (ValidateNftTransferChannelParams (k_lib K) s unordered portID channelID) (\<lambda>_.
     let version = (if TrimSpace version = '''' then Version else version) in
     obind (guard (version = Version) ErrInvalidVersion) (\<lambda>_.
     obind (ik_ClaimChannel (k_ibc K) (c_ibc s) chanCap portID channelID) (\<lambda>i.
     Ok (version, s\<lparr>c_ibc := i\<rparr>))))"

definition OnChanOpenTry ::
    "('n, 'i) Keeper \<Rightarrow> ('n, 'i) chain \<Rightarrow> bool \<Rightarrow> string \<Rightarrow> string \<Rightarrow> nat \<Rightarrow> string \<Rightarrow>
     (string \<times> ('n, 'i) chain) nftres" where
  "OnChanOpenTry K s unordered portID channelID chanCap counterpartyVersion =
     obind (ValidateNftTransferChannelParams (k_lib K) s unordered portID channelID) (\<lambda>_.
     obind (guard (counterpartyVersion = Version) ErrInvalidVersion) (\<lambda>_.
     obind (ik_ClaimChannel (k_ibc K) (c_ibc s) chanCap portID channelID) (\<lambda>i.
     Ok (Version, s\<lparr>c_ibc := i\<rparr>))))"

definition OnChanOpenAck :: "string \<Rightarrow> unit nftres" where
  "OnChanOpenAck counterpartyVersion = guard (counterpartyVersion = Version) ErrInvalidVersion"

definition OnChanCloseInit :: "unit nftres" where
  "OnChanCloseInit = Fail ErrInvalidRequest"

text \<open>
  The acknowledgement and the state after it. The IBC handler writes the state back only for a
  successful acknowledgement, so an error acknowledgement leaves the chain as it was. The text of an
  error acknowledgement is made by ibc-go; \<open>ackText\<close> stands for it.
\<close>

definition OnRecvPacket ::
    "(nft_error \<Rightarrow> string) \<Rightarrow> ('n, 'i) Keeper \<Rightarrow> ('n, 'i) chain \<Rightarrow> Packet \<Rightarrow>
     (Acknowledgement \<times> ('n, 'i) chain) nftres" where
  "OnRecvPacket ackText K s packet =
     (case DecodePacketData (k_lib K) (p_Data packet) of
        Ok d \<Rightarrow>
          (case Keeper_OnRecvPacket K s packet d of
             Ok s' \<Rightarrow> Ok (AckResult [char_of (1 :: nat)], s')
           | Fail err \<Rightarrow> Ok (AckError (ackText err), s)
           | Panic \<Rightarrow> Panic)
      | Fail err \<Rightarrow> Ok (AckError (ackText ErrInvalidType), s)
      | Panic \<Rightarrow> Panic)"

text \<open>
  Acknowledgements and timeouts decode the packet with the codec itself, without the reshaping of
  \<open>DecodePacketData\<close>. \<open>ack\<close> is the decoded acknowledgement, if it decodes.
\<close>

definition OnAcknowledgementPacket ::
    "('n, 'i) Keeper \<Rightarrow> ('n, 'i) chain \<Rightarrow> Packet \<Rightarrow> Acknowledgement option \<Rightarrow> ('n, 'i) chain nftres" where
  "OnAcknowledgementPacket K s packet ack =
     obind (orFail ErrUnknownRequest ack) (\<lambda>ack.
     obind (orFail ErrUnknownRequest (unmarshalPacketJSON (k_lib K) (p_Data packet))) (\<lambda>d.
     Keeper_OnAcknowledgementPacket K s packet d ack))"

definition OnTimeoutPacket :: "('n, 'i) Keeper \<Rightarrow> ('n, 'i) chain \<Rightarrow> Packet \<Rightarrow> ('n, 'i) chain nftres" where
  "OnTimeoutPacket K s packet =
     obind (orFail ErrUnknownRequest (unmarshalPacketJSON (k_lib K) (p_Data packet))) (\<lambda>d.
     Keeper_OnTimeoutPacket K s packet d)"

definition OnChanUpgradeInit :: "('n, 'i) Keeper \<Rightarrow> ('n, 'i) chain \<Rightarrow> bool \<Rightarrow> string \<Rightarrow> string \<Rightarrow> string \<Rightarrow> string nftres" where
  "OnChanUpgradeInit K s unordered portID channelID proposedVersion =
     obind (ValidateNftTransferChannelParams (k_lib K) s unordered portID channelID) (\<lambda>_.
     obind (guard (proposedVersion = Version) ErrInvalidVersion) (\<lambda>_. Ok proposedVersion))"

definition OnChanUpgradeTry :: "('n, 'i) Keeper \<Rightarrow> ('n, 'i) chain \<Rightarrow> bool \<Rightarrow> string \<Rightarrow> string \<Rightarrow> string \<Rightarrow> string nftres" where
  "OnChanUpgradeTry K s unordered portID channelID counterpartyVersion =
     obind (ValidateNftTransferChannelParams (k_lib K) s unordered portID channelID) (\<lambda>_.
     obind (guard (counterpartyVersion = Version) ErrInvalidVersion) (\<lambda>_. Ok counterpartyVersion))"

definition OnChanUpgradeAck :: "string \<Rightarrow> unit nftres" where
  "OnChanUpgradeAck counterpartyVersion = guard (counterpartyVersion = Version) ErrInvalidVersion"

section \<open>Genesis\<close>

definition InitGenesis :: "('n, 'i) Keeper \<Rightarrow> ('n, 'i) chain \<Rightarrow> GenesisState \<Rightarrow> ('n, 'i) chain nftres" where
  "InitGenesis K s gs =
     (let s = s\<lparr>c_PortID := Some (gs_PortId gs),
                c_ClassTraces := foldl (\<lambda>m t. mput m (Hash (k_lib K) t) t) (c_ClassTraces s) (gs_ClassTraces gs),
                c_ClassData := foldl (\<lambda>m d. mput m (fst d) (snd d)) (c_ClassData s) (gs_ClassData gs),
                c_TokenData := foldl (\<lambda>m d. mput m (fst d) (snd d)) (c_TokenData s) (gs_TokenData gs)\<rparr>
      in obind (if \<not> ik_IsBound (k_ibc K) (c_ibc s) (gs_PortId gs)
                then let (cap, i) = ik_BindPort (k_ibc K) (c_ibc s) (gs_PortId gs)
                     in (case ik_ClaimPort (k_ibc K) i cap (gs_PortId gs) of Ok i \<Rightarrow> Ok i | _ \<Rightarrow> Panic)
                else Ok (c_ibc s)) (\<lambda>i.
         Ok (s\<lparr>c_ibc := i, c_Params := Some (gs_Params gs)\<rparr>)))"

definition ExportGenesis :: "('n, 'i) chain \<Rightarrow> GenesisState nftres" where
  "ExportGenesis s =
     obind (orPanic (c_PortID s)) (\<lambda>portID.
     obind (orPanic (c_Params s)) (\<lambda>params.
     Ok \<lparr>gs_PortId = portID, gs_ClassTraces = GetAllClassTraces s, gs_ClassData = mitems (c_ClassData s),
         gs_TokenData = mitems (c_TokenData s), gs_Params = params\<rparr>))"

section \<open>Queries\<close>

definition Query_EscrowAddress :: "('n, 'i) Keeper \<Rightarrow> string \<Rightarrow> string \<Rightarrow> string" where
  "Query_EscrowAddress K portID channelID = ak_String (k_auth K) (GetEscrowAddress (k_lib K) portID channelID)"

definition Query_ClassTrace :: "ibcLib \<Rightarrow> ('n, 'i) chain \<Rightarrow> string \<Rightarrow> ClassTrace nftres" where
  "Query_ClassTrace L s reqHash =
     obind (mapFail (\<lambda>_. ErrInvalidRequest) (ParseHexHash L (TrimPrefix reqHash ''ibc/''))) (\<lambda>hash.
     orFail ErrTraceNotFound (mget (c_ClassTraces s) hash))"

definition Query_ClassHash :: "ibcLib \<Rightarrow> ('n, 'i) chain \<Rightarrow> string \<Rightarrow> string nftres" where
  "Query_ClassHash L s reqTrace =
     (let classTrace = ParseClassTrace L reqTrace in
      obind (guard (ClassTrace_Validate L classTrace = None) ErrInvalidRequest) (\<lambda>_.
      obind (guard (mget (c_ClassTraces s) (Hash L classTrace) \<noteq> None) ErrTraceNotFound) (\<lambda>_.
      Ok (HexBytes_String L (Hash L classTrace)))))"

definition Query_ClassData :: "ibcLib \<Rightarrow> ('n, 'i) chain \<Rightarrow> string \<Rightarrow> string nftres" where
  "Query_ClassData L s reqHash =
     obind (mapFail (\<lambda>_. ErrInvalidRequest) (ParseHexHash L (TrimPrefix reqHash ''ibc/''))) (\<lambda>hash.
     orFail ErrClassDataNotFound (mget (c_ClassData s) hash))"

end
