(* ===== verification/Nft_Proofs.thy ===== *)
theory Nft_Proofs
  imports Nft_Relay
begin

text \<open>
  Correctness of the NFT transfer keeper: the trace store is keyed by the hash of what it holds, a
  refund undoes a send, vouchers that travel back release the originals and leave no voucher behind,
  a refund of vouchers with blank metadata cannot succeed, and a genesis export restores the store.
\<close>

section \<open>The trace store\<close>

definition traces_ok :: "ibcLib \<Rightarrow> ('n, 'i) chain \<Rightarrow> bool" where
  "traces_ok L s \<longleftrightarrow> (\<forall>h t. mget (c_ClassTraces s) h = Some t \<longrightarrow> Hash L t = h)"

lemma setIfAbsent_get:
  "mget (setIfAbsent m k v) x = (if x = k \<and> mget m k = None then Some v else mget m x)"
  by (simp add: setIfAbsent_def mget_put split: option.splits)

lemma sendNftTransfer_frame:
  assumes "sendNftTransfer K s sp sc c ts a r h t memo = Ok (q, s')"
  shows "c_ClassTraces s' = c_ClassTraces s" and "c_ClassData s' = c_ClassData s"
    and "c_TokenData s' = c_TokenData s" and "c_Params s' = c_Params s" and "c_PortID s' = c_PortID s"
  using assms unfolding sendNftTransfer_def Let_def by (auto simp: obind_Ok_iff)

lemma recv_unescrow:
  assumes "Keeper_OnRecvPacket K s pk d = Ok s'"
    and "ReceiverChainIsSource (p_SourcePort pk) (p_SourceChannel pk) (pd_ClassId d)"
  obtains rcv n where "Packet_ValidateBasic (k_lib K) d = None"
    and "ak_StringToBytes (k_auth K) (pd_Receiver d) = Some rcv"
    and "nk_Transfers (k_nft K) (ensureAccount (k_auth K) (c_nft s) rcv)
          (GetEscrowAddress (k_lib K) (p_DestPort pk) (p_DestChannel pk)) rcv
          (localClassId (k_lib K)
            (drop (length (GetClassIdPrefix (p_SourcePort pk) (p_SourceChannel pk))) (pd_ClassId d)))
          (pd_TokenIds d) = Ok n"
    and "s' = s\<lparr>c_nft := n\<rparr>"
  using assms unfolding Keeper_OnRecvPacket_def Let_def by (auto simp: obind_Ok_iff split: option.splits)

lemma recv_voucher:
  assumes "Keeper_OnRecvPacket K s pk d = Ok s'"
    and "\<not> ReceiverChainIsSource (p_SourcePort pk) (p_SourceChannel pk) (pd_ClassId d)"
    and "tr = ParseClassTrace (k_lib K) (GetClassIdPrefix (p_DestPort pk) (p_DestChannel pk) @ pd_ClassId d)"
  obtains rcv td n1 n2 where "Packet_ValidateBasic (k_lib K) d = None"
    and "ak_StringToBytes (k_auth K) (pd_Receiver d) = Some rcv"
    and "storeTokenData (c_TokenData s) (Hash (k_lib K) tr) 0 (pd_TokenIds d) (pd_TokenData d) = Ok td"
    and "nk_CreateOrUpdateClass (k_nft K) (ensureAccount (k_auth K) (c_nft s) rcv) (IBCClassId (k_lib K) tr)
          (pd_ClassUri d) (pd_ClassData d) = Ok n1"
    and "nk_Mints (k_nft K) n1 rcv (IBCClassId (k_lib K) tr) (pd_TokenIds d) (pd_TokenUris d) (pd_TokenData d) = Ok n2"
    and "s' = s\<lparr>c_ClassTraces := setIfAbsent (c_ClassTraces s) (Hash (k_lib K) tr) tr,
               c_ClassData := setIfAbsent (c_ClassData s) (Hash (k_lib K) tr) (pd_ClassData d),
               c_TokenData := td, c_nft := n2\<rparr>"
  using assms(1,2) unfolding assms(3) Keeper_OnRecvPacket_def Let_def
  by (auto simp: obind_Ok_iff split: option.splits)

lemma recv_traces:
  assumes "Keeper_OnRecvPacket K s pk d = Ok s'"
  shows "c_ClassTraces s' =
    (if ReceiverChainIsSource (p_SourcePort pk) (p_SourceChannel pk) (pd_ClassId d) then c_ClassTraces s
     else let t = ParseClassTrace (k_lib K) (GetClassIdPrefix (p_DestPort pk) (p_DestChannel pk) @ pd_ClassId d)
          in setIfAbsent (c_ClassTraces s) (Hash (k_lib K) t) t)"
proof (cases "ReceiverChainIsSource (p_SourcePort pk) (p_SourceChannel pk) (pd_ClassId d)")
  case True
  show ?thesis by (rule recv_unescrow [OF assms True]) (simp add: True)
next
  case False
  show ?thesis by (rule recv_voucher [OF assms False refl]) (simp add: False Let_def)
qed

lemma refund_frame:
  assumes "refundPacketToken K s pk d = Ok s'"
  shows "s' = s\<lparr>c_nft := c_nft s'\<rparr>"
  using assms unfolding refundPacketToken_def Let_def by (auto simp: obind_Ok_iff split: if_splits)

lemma foldl_put_get:
  "mget (foldl (\<lambda>m t. mput m (f t) (g t)) m ts) k =
     (case find (\<lambda>t. f t = k) (rev ts) of None \<Rightarrow> mget m k | Some t \<Rightarrow> Some (g t))"
proof (induction ts arbitrary: m)
  case (Cons t ts)
  show ?case unfolding foldl_Cons Cons
    by (induction ts rule: rev_induct) (auto simp: mget_put)
qed simp

lemma InitGenesis_traces:
  assumes "InitGenesis K s gs = Ok s'"
  shows "c_ClassTraces s' = foldl (\<lambda>m t. mput m (Hash (k_lib K) t) t) (c_ClassTraces s) (gs_ClassTraces gs)"
    and "c_ClassData s' = foldl (\<lambda>m d. mput m (fst d) (snd d)) (c_ClassData s) (gs_ClassData gs)"
    and "c_TokenData s' = foldl (\<lambda>m d. mput m (fst d) (snd d)) (c_TokenData s) (gs_TokenData gs)"
    and "c_Params s' = Some (gs_Params gs)" and "c_PortID s' = Some (gs_PortId gs)"
  using assms unfolding InitGenesis_def Let_def
  by (auto simp: obind_Ok_iff split: if_splits prod.splits outcome.splits)

lemma InitGenesis_traces_ok:
  assumes "traces_ok (k_lib K) s" and "InitGenesis K s gs = Ok s'"
  shows "traces_ok (k_lib K) s'"
  unfolding traces_ok_def InitGenesis_traces(1) [OF assms(2)] foldl_put_get
  using assms(1) by (auto simp: traces_ok_def find_Some_iff split: option.splits)

lemma recv_traces_ok:
  assumes "traces_ok (k_lib K) s" and "Keeper_OnRecvPacket K s pk d = Ok s'"
  shows "traces_ok (k_lib K) s'"
  using assms(1) unfolding traces_ok_def recv_traces [OF assms(2)] Let_def
  by (simp add: setIfAbsent_get)

section \<open>Class identities\<close>

lemma parse_base: "Path (ParseClassTrace L s) = '''' \<Longrightarrow> BaseClassId (ParseClassTrace L s) = s"
proof -
  assume p: "Path (ParseClassTrace L s) = ''''"
  have b: "GetFullClassIdPath (ParseClassTrace L s) = BaseClassId (ParseClassTrace L s)"
    using p by (simp add: GetFullClassIdPath_def)
  have "\<not> allHops L s"
  proof
    assume h: "allHops L s"
    define ws where "ws = Split s CHR ''/''"
    have n: "2 < length ws" "channelPairs L ws" using h by (simp_all add: allHops_def ws_def)
    obtain q b where e: "extractLoop L (length ws) ws = (q, b)" by fastforce
    then have "b = []" using extractLoop_base [OF n(1), of L ws] n(2) by simp
    then have q: "q = ws" using extractLoop_append [OF e] by simp
    have "hd ws \<noteq> s"
    proof
      assume "hd ws = s"
      then have "ws = [s]" using Split_single [of s] Split_word [of _ s] unfolding ws_def by blast
      then show False using n(1) by simp
    qed
    then have "Path (ParseClassTrace L s) = Join ws CHR ''/''"
      using e q by (simp add: ParseClassTrace_def extractPathAndBaseFromFullClassId_def ws_def)
    then show False using p Join_path [of ws "CHR ''/''"] n(1) by simp
  qed
  then show ?thesis using parse_full [of L s] b by simp
qed

lemma localClassId_eq: "localClassId L s = IBCClassId L (ParseClassTrace L s)"
  using parse_base [of L s] by (simp add: localClassId_def Let_def IBCClassId_def)

lemma IBCClassId_prefix: "Path t \<noteq> '''' \<Longrightarrow> HasPrefix (IBCClassId L t) ''ibc/'' \<and> \<not> IsMoveClassId (IBCClassId L t)"
  by (simp add: IBCClassId_def ClassIdPrefix_def HasPrefix_def IsMoveClassId_def)

text \<open>The documented behaviour of the hexadecimal form of a hash, and of the check of its size.\<close>

definition hash_text :: "ibcLib \<Rightarrow> bool" where
  "hash_text L \<longleftrightarrow> (\<forall>b. hexDecode (HexBytes_String L b) = Some b) \<and> (\<forall>b. ValidateHash L (sha256 L b))"

lemma ClassIdPathFromHash_voucher:
  assumes "hash_text L" and "Path t \<noteq> ''''" and "mget (c_ClassTraces s) (Hash L t) = Some t'"
  shows "ClassIdPathFromHash L s (IBCClassId L t) = Ok (GetFullClassIdPath t')"
proof -
  have "sliceFrom (IBCClassId L t) (int (length (ClassIdPrefix @ ''/''))) = (Ok (HexBytes_String L (Hash L t)) :: string nftres)"
    using sliceFrom_append [of _ "ClassIdPrefix @ ''/''" "HexBytes_String L (Hash L t)"] assms(2)
    by (simp add: IBCClassId_def)
  moreover have "ParseHexHash L (HexBytes_String L (Hash L t)) = Ok (Hash L t)"
    using assms(1) by (simp add: ParseHexHash_def hash_text_def Hash_def)
  ultimately show ?thesis unfolding ClassIdPathFromHash_def using assms(3) by simp
qed

lemma packetInfo_voucher:
  assumes "packetInfo L s c ts nm cd tdesc = Ok (full, d, td)" and "HasPrefix c ''ibc/''"
  shows "ClassIdPathFromHash L s c = Ok full"
  using assms by (auto simp: packetInfo_def ClassIdPrefix_def obind_Ok_iff Let_def)

lemma packetInfo_native:
  assumes "packetInfo L s c ts nm cd tdesc = Ok (full, d, td)" and "\<not> HasPrefix c ''ibc/''"
  shows "full = c"
  using assms by (auto simp: packetInfo_def ClassIdPrefix_def obind_Ok_iff)

lemma newPacketData_Ok:
  assumes "newPacketData K s c ts a r memo = Ok d"
  obtains nm cd tdesc where
    "packetInfo (k_lib K) s c ts nm cd tdesc = Ok (pd_ClassId d, pd_ClassData d, pd_TokenData d)"
    and "nk_GetTokenInfos (k_nft K) (c_nft s) c ts = Ok (pd_TokenUris d, tdesc)"
    and "pd_TokenIds d = ts" and "pd_Sender d = ak_String (k_auth K) a" and "pd_Receiver d = r"
  using assms unfolding newPacketData_def by (auto simp: obind_Ok_iff)

lemma sendNftTransfer_Ok:
  assumes "sendNftTransfer K s sp sc c ts a r h t memo = Ok (q, s')"
    and "newPacketData K s c ts a r memo = Ok d"
  obtains n i where "s' = s\<lparr>c_nft := n, c_ibc := i\<rparr>"
    and "(if SenderChainIsSource sp sc (pd_ClassId d)
          then nk_Transfers (k_nft K) (c_nft s) a (GetEscrowAddress (k_lib K) sp sc) c ts
          else nk_Burns (k_nft K) (c_nft s) a c ts) = Ok n"
  using assms unfolding sendNftTransfer_def Let_def by (auto simp: obind_Ok_iff)

section \<open>Refunds\<close>

lemma reshaped_fields:
  "pd_ClassId (reshaped d) = pd_ClassId d" "pd_TokenIds (reshaped d) = pd_TokenIds d"
  "pd_Sender (reshaped d) = pd_Sender d" "pd_Receiver (reshaped d) = pd_Receiver d"
  by (simp_all add: reshaped_def Let_def)

lemma timeout_refunds:
  assumes "packet_codec (k_lib K)" and "p_Data pk = GetBytes (k_lib K) d"
  shows "OnTimeoutPacket K s pk = refundPacketToken K s pk (reshaped d)"
    and "OnAcknowledgementPacket K s pk (Some (AckError e)) = refundPacketToken K s pk (reshaped d)"
  using assms by (simp_all add: OnTimeoutPacket_def OnAcknowledgementPacket_def Keeper_OnTimeoutPacket_def
      Keeper_OnAcknowledgementPacket_def packet_codec_def GetBytes_def)

context nft_laws
begin

lemma refund_restores:
  assumes ok and "k_nft K = N" and "packet_codec (k_lib K)"
    and d: "newPacketData K s c ts a r memo = Ok d"
    and send: "sendNftTransfer K s sp sc c ts a r h tm memo = Ok (q, s1)"
    and cls: "IBCClassId (k_lib K) (ParseClassTrace (k_lib K) (pd_ClassId d)) = c" and "\<not> IsMoveClassId c \<or> SenderChainIsSource sp sc (pd_ClassId d)"
    and addr: "ak_StringToBytes (k_auth K) (ak_String (k_auth K) a) = Some a"
    and pk: "p_SourcePort pk = sp" "p_SourceChannel pk = sc"
    and ref: "refundPacketToken K s1 pk (reshaped d) = Ok s2"
  shows "own (c_nft s2) = own (c_nft s)" and "obj (c_nft s2) = obj (c_nft s)"
proof -
  obtain ts': "pd_TokenIds d = ts" and sd: "pd_Sender d = ak_String (k_auth K) a"
    using newPacketData_Ok [OF d] by metis
  obtain n i where s1: "s1 = s\<lparr>c_nft := n, c_ibc := i\<rparr>"
    and n: "(if SenderChainIsSource sp sc (pd_ClassId d)
        then nk_Transfers N (c_nft s) a (GetEscrowAddress (k_lib K) sp sc) c ts
        else nk_Burns N (c_nft s) a c ts) = Ok n"
    using sendNftTransfer_Ok [OF send d] assms(2) by metis
  have "own (c_nft s2) = own (c_nft s) \<and> obj (c_nft s2) = obj (c_nft s)"
  proof (cases "SenderChainIsSource sp sc (pd_ClassId d)")
    case True
    then have "nk_Transfers N n (GetEscrowAddress (k_lib K) sp sc) a c ts = Ok (c_nft s2)"
      using ref unfolding refundPacketToken_def Let_def
      by (auto simp: reshaped_fields pk sd ts' addr cls assms(2) s1 obind_Ok_iff)
    then show ?thesis using transfer_back [OF assms(1)] n True by simp
  next
    case False
    then have "nk_Mints N n a c ts (pd_TokenUris (reshaped d)) (pd_TokenData (reshaped d)) = Ok (c_nft s2)"
      using ref unfolding refundPacketToken_def Let_def
      by (auto simp: reshaped_fields pk sd ts' addr cls assms(2) s1 obind_Ok_iff)
    then show ?thesis using burn_back [OF assms(1)] n False assms(7) by simp
  qed
  then show "own (c_nft s2) = own (c_nft s)" and "obj (c_nft s2) = obj (c_nft s)" by simp_all
qed

end

section \<open>There and back\<close>

context nft_laws
begin

lemma send_view:
  assumes ok and "k_nft K = N"
    and "newPacketData K s c ts a r memo = Ok d" and "sendNftTransfer K s sp sc c ts a r h tm memo = Ok (q, s1)"
  shows "own (c_nft s1) = reowned (own (c_nft s)) {x. \<exists>t\<in>set ts. obj (c_nft s) c t = Some x}
      (if SenderChainIsSource sp sc (pd_ClassId d) then acc (GetEscrowAddress (k_lib K) sp sc) else None)"
    and "obj (c_nft s1) = obj (c_nft s)"
proof -
  obtain n i where "s1 = s\<lparr>c_nft := n, c_ibc := i\<rparr>"
    and n: "(if SenderChainIsSource sp sc (pd_ClassId d)
        then nk_Transfers N (c_nft s) a (GetEscrowAddress (k_lib K) sp sc) c ts
        else nk_Burns N (c_nft s) a c ts) = Ok n"
    using sendNftTransfer_Ok [OF assms(4,3)] assms(2) by metis
  then have s1: "c_nft s1 = n" by simp
  show "own (c_nft s1) = reowned (own (c_nft s)) {x. \<exists>t\<in>set ts. obj (c_nft s) c t = Some x}
      (if SenderChainIsSource sp sc (pd_ClassId d) then acc (GetEscrowAddress (k_lib K) sp sc) else None)"
    and "obj (c_nft s1) = obj (c_nft s)"
    using n transfers [OF assms(1)] burns [OF assms(1)] unfolding s1 by (simp_all split: if_splits)
qed

text \<open>
  Receiving a foreign class mints its vouchers for the receiver; sending them back over the same
  channel burns them, and the packet carries the path with this chain's hop in front.
\<close>

lemma voucher_round:
  assumes ok and "k_nft K = N" and "hash_text (k_lib K)"
    and acct: "\<And>n x. own (ak_NewAccount (k_auth K) n x) = own n"
      "\<And>n x. obj (ak_NewAccount (k_auth K) n x) = obj n"
    and recv: "Keeper_OnRecvPacket K s pk d = Ok s1"
    and src: "\<not> ReceiverChainIsSource (p_SourcePort pk) (p_SourceChannel pk) (pd_ClassId d)"
    and tr: "tr = ParseClassTrace (k_lib K) (GetClassIdPrefix (p_DestPort pk) (p_DestChannel pk) @ pd_ClassId d)"
    and path: "Path tr \<noteq> ''''"
      "\<not> allHops (k_lib K) (GetClassIdPrefix (p_DestPort pk) (p_DestChannel pk) @ pd_ClassId d)"
    and fresh: "mget (c_ClassTraces s) (Hash (k_lib K) tr) \<in> {None, Some tr}"
    and d2: "newPacketData K s1 (IBCClassId (k_lib K) tr) (pd_TokenIds d) b r memo = Ok d2"
    and send: "sendNftTransfer K s1 (p_DestPort pk) (p_DestChannel pk) (IBCClassId (k_lib K) tr) (pd_TokenIds d)
        b r h tm memo = Ok (q, s2)"
  shows "pd_ClassId d2 = GetClassIdPrefix (p_DestPort pk) (p_DestChannel pk) @ pd_ClassId d"
    and "own (c_nft s2) = own (c_nft s)"
proof -
  let ?v = "IBCClassId (k_lib K) tr"
  have v: "HasPrefix ?v ''ibc/''" "\<not> IsMoveClassId ?v" using IBCClassId_prefix [OF path(1)] by simp_all
  obtain rcv td n1 n2 where n1: "nk_CreateOrUpdateClass N (ensureAccount (k_auth K) (c_nft s) rcv) ?v
        (pd_ClassUri d) (pd_ClassData d) = Ok n1"
    and n2: "nk_Mints N n1 rcv ?v (pd_TokenIds d) (pd_TokenUris d) (pd_TokenData d) = Ok n2"
    and s1: "s1 = s\<lparr>c_ClassTraces := setIfAbsent (c_ClassTraces s) (Hash (k_lib K) tr) tr,
        c_ClassData := setIfAbsent (c_ClassData s) (Hash (k_lib K) tr) (pd_ClassData d),
        c_TokenData := td, c_nft := n2\<rparr>"
    using recv_voucher [OF recv src tr] assms(2) by metis
  have "mget (c_ClassTraces s1) (Hash (k_lib K) tr) = Some tr"
    using fresh unfolding s1 by (auto simp: setIfAbsent_get)
  then have "ClassIdPathFromHash (k_lib K) s1 ?v = Ok (GetFullClassIdPath tr)"
    by (rule ClassIdPathFromHash_voucher [OF assms(3) path(1)])
  moreover have "ClassIdPathFromHash (k_lib K) s1 ?v = Ok (pd_ClassId d2)"
    using newPacketData_Ok [OF d2] packetInfo_voucher v(1) by metis
  ultimately have "pd_ClassId d2 = GetFullClassIdPath tr" by simp
  also have "\<dots> = GetClassIdPrefix (p_DestPort pk) (p_DestChannel pk) @ pd_ClassId d"
    unfolding tr parse_full using path(2) by simp
  finally show cid: "pd_ClassId d2 = GetClassIdPrefix (p_DestPort pk) (p_DestChannel pk) @ pd_ClassId d" .
  have burn: "own (c_nft s2) = reowned (own n2) {x. \<exists>t\<in>set (pd_TokenIds d). obj n2 ?v t = Some x} None"
    using send_view(1) [OF assms(1,2) d2 send] prefixed_source(1) [of "p_DestPort pk" "p_DestChannel pk"]
    unfolding cid by (simp add: SenderChainIsSource_def s1)
  have ea: "own (ensureAccount (k_auth K) (c_nft s) rcv) = own (c_nft s)" using acct by (simp add: ensureAccount_def)
  note mint = mints [OF assms(1) v(2) n2]
  have "own n1 = own (c_nft s)" using creates [OF assms(1) v(2) n1] ea by simp
  then show "own (c_nft s2) = own (c_nft s)"
    unfolding burn using mint by (fastforce simp: reowned_def fun_eq_iff)
qed

text \<open>Receiving one's own class back takes the tokens out of the escrow of the channel.\<close>

lemma unescrow_view:
  assumes ok and "k_nft K = N"
    and acct: "\<And>n x. own (ak_NewAccount (k_auth K) n x) = own n"
      "\<And>n x. obj (ak_NewAccount (k_auth K) n x) = obj n"
    and recv: "Keeper_OnRecvPacket K s pk d = Ok s1"
    and cid: "pd_ClassId d = GetClassIdPrefix (p_SourcePort pk) (p_SourceChannel pk) @ full"
    and rcv: "ak_StringToBytes (k_auth K) (pd_Receiver d) = Some z"
    and cls: "IBCClassId (k_lib K) (ParseClassTrace (k_lib K) full) = c"
  shows "own (c_nft s1) = reowned (own (c_nft s)) {x. \<exists>t\<in>set (pd_TokenIds d). obj (c_nft s) c t = Some x} (acc z)"
    and "\<forall>t\<in>set (pd_TokenIds d). \<exists>x. obj (c_nft s) c t = Some x \<and>
      own (c_nft s) x = acc (GetEscrowAddress (k_lib K) (p_DestPort pk) (p_DestChannel pk))"
proof -
  have src: "ReceiverChainIsSource (p_SourcePort pk) (p_SourceChannel pk) (pd_ClassId d)"
    unfolding cid by (rule prefixed_source(1))
  have un: "localClassId (k_lib K) (drop (length (GetClassIdPrefix (p_SourcePort pk) (p_SourceChannel pk))) (pd_ClassId d)) = c"
    unfolding cid prefixed_source(2) localClassId_eq using cls .
  obtain n where n: "nk_Transfers N (ensureAccount (k_auth K) (c_nft s) z)
        (GetEscrowAddress (k_lib K) (p_DestPort pk) (p_DestChannel pk)) z c (pd_TokenIds d) = Ok n"
    and s1: "s1 = s\<lparr>c_nft := n\<rparr>"
    using recv_unescrow [OF recv src] rcv un assms(2) by (metis option.inject)
  have "own (ensureAccount (k_auth K) (c_nft s) z) = own (c_nft s)"
    "obj (ensureAccount (k_auth K) (c_nft s) z) = obj (c_nft s)"
    using acct by (simp_all add: ensureAccount_def)
  then show "own (c_nft s1) = reowned (own (c_nft s)) {x. \<exists>t\<in>set (pd_TokenIds d). obj (c_nft s) c t = Some x} (acc z)"
    and "\<forall>t\<in>set (pd_TokenIds d). \<exists>x. obj (c_nft s) c t = Some x \<and>
      own (c_nft s) x = acc (GetEscrowAddress (k_lib K) (p_DestPort pk) (p_DestChannel pk))"
    using transfers [OF assms(1) n] unfolding s1 by simp_all
qed

end

section \<open>The module on the Move keeper\<close>

text \<open>The transfer keeper of a chain is given the NFT keeper of \<open>nft.go\<close> and the same account keeper.\<close>

definition wired :: "vmLib \<Rightarrow> 'm moveKeeper \<Rightarrow> ('m, 'i) Keeper \<Rightarrow> bool" where
  "wired V M K \<longleftrightarrow> k_nft K = NewNftKeeper V M \<and>
     ak_HasAccount (k_auth K) = mk_HasAccount M \<and> ak_NewAccount (k_auth K) = mk_NewAccount M"

lemma wired_accounts:
  assumes "vm_ok V M own" and "wired V M K"
  shows "k_nft K = NewNftKeeper V M" and "own (ak_NewAccount (k_auth K) n x) = own n"
    and "tokenObject V M (ak_NewAccount (k_auth K) n x) = tokenObject V M n"
  using assms(2) vm_okD(1,2) [OF assms(1)] tokenObject_cong [of V M "mk_NewAccount M n x" n]
  by (simp_all add: wired_def)

lemma tokenInfos_length: "tokenInfos V M m cr nm ts = Ok (us, ds) \<Longrightarrow> length us = length ts \<and> length ds = length ts"
  by (induction ts arbitrary: us ds) (auto simp: obind_Ok_iff)

lemma getTokenData_length: "getTokenData s h ts = Ok ds \<Longrightarrow> length ds = length ts"
  by (induction ts arbitrary: ds) (auto simp: obind_Ok_iff)

lemma convertTokenData_length: "convertTokenData L n ds = Ok xs \<Longrightarrow> length xs = n"
  by (induction ds arbitrary: n xs) (auto simp: obind_Ok_iff split: if_splits)

lemma packetInfo_length: "packetInfo L s c ts nm cd tdesc = Ok (full, d, td) \<Longrightarrow> length td = length ts"
  by (auto simp: packetInfo_def obind_Ok_iff Let_def getTokenData_length convertTokenData_length split: if_splits)

lemma newPacketData_lengths:
  assumes "k_nft K = NewNftKeeper V M" and "newPacketData K s c ts a r memo = Ok d"
  shows "length (pd_TokenUris d) = length (pd_TokenIds d)" and "length (pd_TokenData d) = length (pd_TokenIds d)"
proof -
  from newPacketData_Ok [OF assms(2)] obtain nm cd tdesc where
    p: "packetInfo (k_lib K) s c ts nm cd tdesc = Ok (pd_ClassId d, pd_ClassData d, pd_TokenData d)"
    and t: "nk_GetTokenInfos (k_nft K) (c_nft s) c ts = Ok (pd_TokenUris d, tdesc)" and i: "pd_TokenIds d = ts"
    by metis
  show "length (pd_TokenData d) = length (pd_TokenIds d)" using packetInfo_length [OF p] i by simp
  show "length (pd_TokenUris d) = length (pd_TokenIds d)"
    using t unfolding assms(1) NewNftKeeper_def i
    by (auto simp: GetTokenInfos_def obind_Ok_iff dest: tokenInfos_length)
qed

lemma OnRecvPacket_success:
  assumes "OnRecvPacket txt K s pk = Ok (AckResult x, s')" and "packet_codec (k_lib K)"
    and "p_Data pk = GetBytes (k_lib K) d" and "length (pd_TokenUris d) = length (pd_TokenIds d)"
    and "length (pd_TokenData d) = length (pd_TokenIds d)"
  shows "Keeper_OnRecvPacket K s pk d = Ok s'"
  using assms(1) unfolding OnRecvPacket_def assms(3) decode_bytes [OF assms(2,4,5)]
  by (auto split: outcome.splits)

text \<open>
  A refund that has to mint, of a packet whose URIs or data were all blank: the callbacks see nil
  lists, and the loop of \<open>Mints\<close> indexes them.
\<close>

lemma eachToken_Ok_hd: "eachToken f m ts = Ok m' \<Longrightarrow> ts \<noteq> [] \<Longrightarrow> \<exists>m1. f m (hd ts) = Ok m1"
  by (cases ts) (auto simp: obind_Ok_iff)

lemma Mints_short:
  assumes "ts \<noteq> []" and "us = [] \<or> ds = []"
  shows "Mints V M m b c ts us ds \<noteq> Ok m'"
proof
  assume "Mints V M m b c ts us ds = Ok m'"
  then obtain f m0 where e: "eachToken (\<lambda>m i. obind (index us (int i)) (\<lambda>tu. obind (index ds (int i)) (f m i tu))) m0
      [0 ..< length ts] = Ok m'"
    unfolding Mints_def Let_def by (auto simp: obind_Ok_iff)
  show False using eachToken_Ok_hd [OF e] assms by (auto simp: obind_Ok_iff index_def)
qed

lemma blank_refund:
  assumes "k_nft K = NewNftKeeper V M" and "pd_TokenIds d \<noteq> []"
    and "requireShape (pd_TokenUris d) \<or> requireShape (pd_TokenData d)"
    and "\<not> SenderChainIsSource (p_SourcePort pk) (p_SourceChannel pk) (pd_ClassId d)"
  shows "refundPacketToken K s pk (reshaped d) \<noteq> Ok s'"
proof -
  have "pd_TokenUris (reshaped d) = [] \<or> pd_TokenData (reshaped d) = []"
    using assms(3) by (auto simp: reshaped_def Let_def)
  then have "Mints V M m b c (pd_TokenIds d) (pd_TokenUris (reshaped d)) (pd_TokenData (reshaped d)) \<noteq> Ok m'" for m b c m'
    by (rule Mints_short [OF assms(2)])
  then show ?thesis using assms(1,4)
    by (auto simp: refundPacketToken_def Let_def obind_Ok_iff reshaped_fields NewNftKeeper_def)
qed

section \<open>Genesis\<close>

lemma find_distinct:
  assumes "inj_on f (set ts)" and "t \<in> set ts"
  shows "find (\<lambda>u. f u = f t) ts = Some t"
  using assms by (induction ts) (auto dest: inj_onD)

lemma foldl_put_items:
  assumes "\<And>k v. (k, v) \<in> set ts \<longleftrightarrow> mget m k = Some v"
  shows "mget (foldl (\<lambda>m d. mput m (fst d) (snd d)) mempty ts) = mget m"
proof
  fix k
  have inj: "inj_on fst (set ts)" using assms by (fastforce intro!: inj_onI)
  show "mget (foldl (\<lambda>m d. mput m (fst d) (snd d)) mempty ts) k = mget m k"
  proof (cases "mget m k")
    case None
    then have "find (\<lambda>d. fst d = k) (rev ts) = None" using assms by (auto simp: find_None_iff)
    then show ?thesis using None by (simp add: foldl_put_get)
  next
    case (Some v)
    then have "(k, v) \<in> set (rev ts)" using assms by simp
    then have "find (\<lambda>d. fst d = fst (k, v)) (rev ts) = Some (k, v)"
      using find_distinct [of fst "rev ts" "(k, v)"] inj by simp
    then show ?thesis using Some by (simp add: foldl_put_get)
  qed
qed

lemma foldl_put_traces:
  assumes "traces_ok L s" and "set ts = set (map snd (mitems (c_ClassTraces s)))"
  shows "mget (foldl (\<lambda>m t. mput m (Hash L t) t) mempty ts) = mget (c_ClassTraces s)"
proof -
  have "foldl (\<lambda>m t. mput m (Hash L t) t) m ts = foldl (\<lambda>m d. mput m (fst d) (snd d)) m (map (\<lambda>t. (Hash L t, t)) ts)" for m
    by (induction ts arbitrary: m) simp_all
  moreover have "(k, v) \<in> set (map (\<lambda>t. (Hash L t, t)) ts) \<longleftrightarrow> mget (c_ClassTraces s) k = Some v" for k v
  proof -
    have "(k, v) \<in> set (map (\<lambda>t. (Hash L t, t)) ts) \<longleftrightarrow> k = Hash L v \<and> v \<in> set (map snd (mitems (c_ClassTraces s)))"
      unfolding assms(2) [symmetric] by auto
    also have "\<dots> \<longleftrightarrow> k = Hash L v \<and> (\<exists>h. mget (c_ClassTraces s) h = Some v)"
      by (force simp: gm.items_iff [symmetric] image_iff)
    also have "\<dots> \<longleftrightarrow> mget (c_ClassTraces s) k = Some v" using assms(1) unfolding traces_ok_def by blast
    finally show ?thesis .
  qed
  ultimately show ?thesis using foldl_put_items [of "map (\<lambda>t. (Hash L t, t)) ts" "c_ClassTraces s"] by simp
qed

lemma export_import:
  assumes "traces_ok (k_lib K) s" and "ExportGenesis s = Ok gs" and "InitGenesis K s0 gs = Ok s'"
    and "c_ClassTraces s0 = mempty" and "c_ClassData s0 = mempty" and "c_TokenData s0 = mempty"
  shows "mget (c_ClassTraces s') = mget (c_ClassTraces s)" and "mget (c_ClassData s') = mget (c_ClassData s)"
    and "mget (c_TokenData s') = mget (c_TokenData s)" and "c_Params s' = c_Params s" and "c_PortID s' = c_PortID s"
proof -
  have gs: "gs_ClassTraces gs = GetAllClassTraces s" "gs_ClassData gs = mitems (c_ClassData s)"
    "gs_TokenData gs = mitems (c_TokenData s)" "c_Params s = Some (gs_Params gs)" "c_PortID s = Some (gs_PortId gs)"
    using assms(2) unfolding ExportGenesis_def by (auto simp: obind_Ok_iff)
  note i = InitGenesis_traces [OF assms(3)]
  show "c_Params s' = c_Params s" and "c_PortID s' = c_PortID s" using i gs by simp_all
  show "mget (c_ClassTraces s') = mget (c_ClassTraces s)"
    unfolding i(1) assms(4) gs(1) by (rule foldl_put_traces [OF assms(1)])
      (simp add: GetAllClassTraces_def Traces_Sort_def IterateClassTraces_def)
  show "mget (c_ClassData s') = mget (c_ClassData s)" and "mget (c_TokenData s') = mget (c_TokenData s)"
    unfolding i(2,3) assms(5,6) gs(2,3) by (rule foldl_put_items, rule gm.items_iff)+
qed

lemma there_and_back:
  fixes KA :: "('a, 'x) Keeper" and KB :: "('b, 'y) Keeper"
  assumes okA: "vm_ok VA MA ownA" and wA: "wired VA MA KA" and okB: "vm_ok VB MB ownB" and wB: "wired VB MB KB"
    and lib: "k_lib KA = L" "k_lib KB = L" "packet_codec L" "hash_text L"
    and dA: "newPacketData KA sA c ts a rA memoA = Ok dA"
    and sendA: "sendNftTransfer KA sA ap ac c ts a rA hA tA memoA = Ok (qA, sA1)"
    and src: "SenderChainIsSource ap ac (pd_ClassId dA)"
    and cls: "IBCClassId L (ParseClassTrace L (pd_ClassId dA)) = c"
    and hop: "CHR ''/'' \<notin> set bp" "CHR ''/'' \<notin> set bc" "IsValidChannelID L bc"
      "\<not> allHops L (GetClassIdPrefix bp bc @ pd_ClassId dA)"
    and tr: "tr = ParseClassTrace L (GetClassIdPrefix bp bc @ pd_ClassId dA)"
    and fresh: "mget (c_ClassTraces sB) (Hash L tr) \<in> {None, Some tr}"
    and recvB: "OnRecvPacket txB KB sB \<lparr>p_SourcePort = ap, p_SourceChannel = ac, p_DestPort = bp, p_DestChannel = bc,
        p_Data = GetBytes L dA\<rparr> = Ok (AckResult x, sB1)"
    and dB: "newPacketData KB sB1 (IBCClassId L tr) ts b rB memoB = Ok dB"
    and sendB: "sendNftTransfer KB sB1 bp bc (IBCClassId L tr) ts b rB hB tB memoB = Ok (qB, sB2)"
    and recvA: "OnRecvPacket txA KA sA1 \<lparr>p_SourcePort = bp, p_SourceChannel = bc, p_DestPort = ap, p_DestChannel = ac,
        p_Data = GetBytes L dB\<rparr> = Ok (AckResult y, sA2)"
    and rcv: "ak_StringToBytes (k_auth KA) rB = Some z"
  shows "ownA (c_nft sA2) = reowned (ownA (c_nft sA)) {x. \<exists>t\<in>set ts. tokenObject VA MA (c_nft sA) c t = Some x}
      (NewAccountAddressFromBytes VA z)" (is ?A)
    and "ownB (c_nft sB2) = ownB (c_nft sB)" (is ?B)
proof -
  let ?pB = "\<lparr>p_SourcePort = ap, p_SourceChannel = ac, p_DestPort = bp, p_DestChannel = bc, p_Data = GetBytes L dA\<rparr>"
  let ?pA = "\<lparr>p_SourcePort = bp, p_SourceChannel = bc, p_DestPort = ap, p_DestChannel = ac, p_Data = GetBytes L dB\<rparr>"
  note KA = wired_accounts [OF okA wA] and KB = wired_accounts [OF okB wB]
  have ids: "pd_TokenIds dA = ts" "pd_TokenIds dB = ts" "pd_Receiver dB = rB"
    using newPacketData_Ok [OF dA] newPacketData_Ok [OF dB] by metis+
  have rB: "Keeper_OnRecvPacket KB sB ?pB dA = Ok sB1"
    using OnRecvPacket_success [OF recvB] newPacketData_lengths [OF KA(1) dA] lib by simp
  have rA: "Keeper_OnRecvPacket KA sA1 ?pA dB = Ok sA2"
    using OnRecvPacket_success [OF recvA] newPacketData_lengths [OF KB(1) dB] lib by simp
  have path: "Path tr \<noteq> ''''" unfolding tr by (rule parse_path_prefixed [OF hop(1-3)])
  have round: "pd_ClassId dB = GetClassIdPrefix bp bc @ pd_ClassId dA \<and> ?B"
    using nk.voucher_round [OF okB KB(1) _ KB(2,3) rB, of tr b rB memoB dB hB tB qB sB2]
      lib src tr path hop(4) fresh dB sendB ids by (simp add: SenderChainIsSource_def)
  then show ?B by simp
  have "ownA (c_nft sA2) = reowned (ownA (c_nft sA1)) {x. \<exists>t\<in>set ts. tokenObject VA MA (c_nft sA1) c t = Some x}
      (NewAccountAddressFromBytes VA z)"
    using nk.unescrow_view(1) [OF okA KA rA, of "pd_ClassId dA" z c] round rcv cls ids lib by simp
  then show ?A using nk.send_view [OF okA KA(1) dA sendA] by (simp add: reowned_def fun_eq_iff)
qed

end
