(* ===== verification/Nft_Example.thy ===== *)
theory Nft_Example
  imports Nft_Proofs
begin

text \<open>
  A small Move VM and IBC library on which the witnesses run: token objects have an owner, collections
  are stored as their description, name and URI and always belong to the standard address, hashes are
  prefixes, and the packet codec writes every string with its length. The VM satisfies \<open>vm_ok\<close>.
\<close>

section \<open>The virtual machine\<close>

record toyVm =
  tv_owner :: "bytes \<Rightarrow> bytes option"
  tv_coll :: "bytes \<Rightarrow> (string \<times> string \<times> string) option"
  tv_nft :: "bytes \<Rightarrow> (string \<times> string \<times> string) option"

definition toy_std :: bytes where
  "toy_std = replicate 32 CHR ''s''"

definition toy_V :: vmLib where
  "toy_V = \<lparr>NewAccountAddressFromBytes = Some, vm_DeserializeUint64 = (\<lambda>_. None), vm_DeserializeUint128 = (\<lambda>_. None),
     SerializeString = Some, CanonicalString = hexEncode, StdAddress = toy_std, sha3_256 = drop 31\<rparr>"

definition toy_bytes :: "string \<times> string \<times> string \<Rightarrow> bytes" where
  "toy_bytes = (\<lambda>(desc, name, uri). toy_std @ bcsVec desc @ bcsVec name @ bcsVec uri)"

definition toy_object :: "bytes \<Rightarrow> string \<Rightarrow> bytes" where
  "toy_object creator name = drop 31 (creator @ name @ [char_of (0xFE :: nat)])"

definition toy_transfer :: "toyVm \<Rightarrow> bytes \<Rightarrow> bytes \<Rightarrow> bytes option \<Rightarrow> toyVm nftres" where
  "toy_transfer m s x r =
     (if tv_owner m x = Some s then Ok (m\<lparr>tv_owner := (tv_owner m)(x := r)\<rparr>) else Fail ErrInvalidRequest)"

definition toy_mint :: "toyVm \<Rightarrow> bytes \<Rightarrow> string \<times> string \<times> string \<Rightarrow> bytes \<Rightarrow> toyVm nftres" where
  "toy_mint m x info r =
     (if tv_owner m x = None
      then Ok (m\<lparr>tv_owner := (tv_owner m)(x \<mapsto> r), tv_nft := (tv_nft m)(x \<mapsto> info)\<rparr>)
      else Fail ErrInvalidRequest)"

definition toy_create :: "toyVm \<Rightarrow> bytes \<Rightarrow> string \<times> string \<times> string \<Rightarrow> toyVm nftres" where
  "toy_create m a info =
     (if tv_coll m a = None \<and> length (toy_bytes info) < 2 ^ 63
      then Ok (m\<lparr>tv_coll := (tv_coll m)(a \<mapsto> info)\<rparr>) else Fail ErrInvalidRequest)"

definition toy_execute ::
    "toyVm \<Rightarrow> bytes \<Rightarrow> string \<Rightarrow> string \<Rightarrow> structTag list \<Rightarrow> bytes list \<Rightarrow> toyVm nftres" where
  "toy_execute m s md fn tys args =
     (if md = ''object'' then toy_transfer m s (args ! 0) (Some (args ! 1))
      else if fn = ''burn'' then toy_transfer m s (args ! 0) None
      else if fn = ''mint''
        then toy_mint m (toy_object s (args ! 0 @ ''::'' @ args ! 2)) (args ! 1, args ! 2, args ! 3) (tl (args ! 5))
      else toy_create m (toy_object s (args ! 2)) (args ! 0, args ! 2, args ! 3))"

definition toy_M :: "toyVm moveKeeper" where
  "toy_M = \<lparr>mk_HasAccount = (\<lambda>_ _. True), mk_NewAccount = (\<lambda>m _. m),
     mk_GetResourceBytes = (\<lambda>m a tag.
       map_outcome id toy_bytes (orFail ErrNotFound (if fst tag = ''collection'' then tv_coll m a else tv_nft m a))),
     mk_HasResource = (\<lambda>m a tag. Ok (tv_coll m a \<noteq> None)),
     mk_ExecuteEntryFunction = toy_execute\<rparr>"

lemma toy_V_simps [simp]:
  "NewAccountAddressFromBytes toy_V = Some" "SerializeString toy_V = Some" "StdAddress toy_V = toy_std"
  "sha3_256 toy_V = drop 31"
  by (simp_all add: toy_V_def)

lemma toy_named: "NamedObjectAddress toy_V a name = Ok (toy_object a name)"
  by (simp add: NamedObjectAddress_def toy_object_def orPanic_def)

lemma toy_info:
  "CollectionInfo toy_V toy_M m a =
    (case tv_coll m a of None \<Rightarrow> Fail ErrNotFound | Some info \<Rightarrow> mapFail ErrMove (ReadCollectionInfo toy_V (toy_bytes info)))"
  by (simp add: CollectionInfo_def toy_M_def orFail_def split: option.split)

lemma toy_read:
  assumes "length (toy_bytes (d, c, u)) < 2 ^ 63"
  shows "ReadCollectionInfo toy_V (toy_bytes (d, c, u)) = Ok (toy_std, c, u, d)"
  by (rule ReadCollectionInfo_bcs [where rest = "[]", OF _ _ assms]) (simp_all add: toy_bytes_def toy_std_def)

lemma toy_creator:
  assumes "CollectionInfo toy_V toy_M m a = Ok (creator, i)"
  shows "creator = toy_std"
proof -
  obtain info where "ReadCollectionInfo toy_V (toy_bytes info) = Ok (creator, i)"
    using assms unfolding toy_info by (auto simp: mapFail_def split: option.splits outcome.splits)
  then have "readAddress toy_V (toy_bytes info) 0 = Ok creator"
    by (auto simp: ReadCollectionInfo_def obind_Ok_iff)
  moreover obtain r where "toy_bytes info = toy_std @ r" by (cases info) (simp add: toy_bytes_def)
  moreover have "readAddress toy_V ([] @ toy_std @ r) 0 = Ok toy_std"
    by (rule readAddress_append) (simp_all add: toy_std_def)
  ultimately show ?thesis by simp
qed

lemma toy_calls:
  "Transfer toy_M m s r x = toy_transfer m s x (Some r)"
  "Burn toy_M m s x = toy_transfer m s x None"
  "Mint toy_V toy_M m c t u d r = toy_mint m (toy_object toy_std (c @ ''::'' @ t)) (d, t, u) r"
  "initializeCollection toy_V toy_M m c u d = toy_create m (toy_object toy_std c) (d, c, u)"
  "isCollectionInitialized toy_M m a = Ok (tv_coll m a \<noteq> None)" "mk_NewAccount toy_M m a = m"
  by (simp_all add: Transfer_def Burn_def Mint_def initializeCollection_def isCollectionInitialized_def toy_M_def
      toy_execute_def serializeStr_def orFail_def Let_def)

lemma toy_same_info: "tv_coll m' = tv_coll m \<Longrightarrow> CollectionInfo toy_V toy_M m' = CollectionInfo toy_V toy_M m"
  by (simp add: toy_info fun_eq_iff)

lemma toy_new_info:
  "length (toy_bytes (d, c, u)) < 2 ^ 63 \<Longrightarrow> CollectionInfo toy_V toy_M (m\<lparr>tv_coll := (tv_coll m)(a \<mapsto> (d, c, u))\<rparr>) =
    (CollectionInfo toy_V toy_M m)(a := Ok (toy_std, c, u, d))"
  using toy_read by (auto simp: toy_info fun_eq_iff mapFail_def)

lemma toy_ok: "vm_ok toy_V toy_M tv_owner"
proof -
  have t: "tv_owner m x = Some s \<and> tv_owner m' = (tv_owner m)(x := r) \<and> CollectionInfo toy_V toy_M m' = CollectionInfo toy_V toy_M m"
    if "toy_transfer m s x r = Ok m'" for m s x r m'
    using that by (auto simp: toy_transfer_def intro: toy_same_info split: if_splits)
  have n: "tv_owner m x = None \<and> tv_owner m' = (tv_owner m)(x \<mapsto> r) \<and> CollectionInfo toy_V toy_M m' = CollectionInfo toy_V toy_M m"
    if "toy_mint m x i r = Ok m'" for m x i r m'
    using that by (auto simp: toy_mint_def intro: toy_same_info split: if_splits)
  have c: "tv_owner m' = tv_owner m \<and> CollectionInfo toy_V toy_M m' = (CollectionInfo toy_V toy_M m)(a := Ok (toy_std, c, u, d))"
    if "toy_create m a (d, c, u) = Ok m'" for m a d c u m'
    using that by (auto simp: toy_create_def toy_new_info split: if_splits)
  have none: "CollectionInfo toy_V toy_M m a \<noteq> Ok i" if "tv_coll m a = None" for m a i
    using that by (simp add: toy_info)
  show ?thesis
    unfolding vm_ok_def toy_calls TokenAddressFromTokenId_def toy_named toy_V_simps
  proof (intro conjI, goal_cases)
    case 2
    show ?case using t by blast
  next
    case 3
    show ?case using t by blast
  next
    case 4
    show ?case using n by (metis outcome.inject(1))
  next
    case 5
    show ?case using c by (metis outcome.inject(1))
  next
    case 6
    show ?case by (intro allI impI, rule none) (simp only: outcome.inject simp_thms)
  next
    case 7
    show ?case using toy_creator by blast
  qed simp
qed

section \<open>The IBC library\<close>

text \<open>Strings are written as a run of marks as long as the string, a stop, and the string; lists with their length in front.\<close>

definition putStr :: "string \<Rightarrow> bytes" where
  "putStr s = replicate (length s) CHR ''1'' @ CHR ''0'' # s"

definition getStr :: "bytes \<Rightarrow> string \<times> bytes" where
  "getStr bz = (let n = length (takeWhile (\<lambda>c. c = CHR ''1'') bz); r = drop (n + 1) bz in (take n r, drop n r))"

fun putStrs :: "string list \<Rightarrow> bytes" where
  "putStrs [] = ''0''"
| "putStrs (s # ss) = CHR ''1'' # putStr s @ putStrs ss"

fun getStrs :: "nat \<Rightarrow> bytes \<Rightarrow> string list \<times> bytes" where
  "getStrs 0 bz = ([], bz)"
| "getStrs (Suc k) bz =
     (if take 1 bz = ''1''
      then let (s, r) = getStr (drop 1 bz); (ss, r) = getStrs k r in (s # ss, r)
      else ([], drop 1 bz))"

definition toy_marshal :: "NonFungibleTokenPacketData \<Rightarrow> bytes" where
  "toy_marshal p = putStr (pd_ClassId p) @ putStr (pd_ClassUri p) @ putStr (pd_ClassData p) @ putStrs (pd_TokenIds p) @
     putStrs (pd_TokenUris p) @ putStrs (pd_TokenData p) @ putStr (pd_Sender p) @ putStr (pd_Receiver p) @ putStr (pd_Memo p)"

definition toy_unmarshal :: "bytes \<Rightarrow> NonFungibleTokenPacketData option" where
  "toy_unmarshal bz =
     (let k = length bz; (c, bz) = getStr bz; (u, bz) = getStr bz; (d, bz) = getStr bz; (ts, bz) = getStrs k bz;
          (us, bz) = getStrs k bz; (ds, bz) = getStrs k bz; (s, bz) = getStr bz; (r, bz) = getStr bz; (m, bz) = getStr bz
      in Some \<lparr>pd_ClassId = c, pd_ClassUri = u, pd_ClassData = d, pd_TokenIds = ts, pd_TokenUris = us, pd_TokenData = ds,
           pd_Sender = s, pd_Receiver = r, pd_Memo = m\<rparr>)"

lemma getStr_put: "getStr (putStr s @ r) = (s, r)"
  by (simp add: getStr_def putStr_def takeWhile_tail Let_def)

lemma getStrs_put: "length ss < k \<Longrightarrow> getStrs k (putStrs ss @ r) = (ss, r)"
proof (induction ss arbitrary: k)
  case Nil
  then show ?case by (cases k) simp_all
next
  case (Cons s ss)
  then show ?case by (cases k) (simp_all add: getStr_put)
qed

lemma putStrs_length: "length ss < length (putStrs ss)"
  by (induction ss) (simp_all add: putStr_def)

definition toy_L :: ibcLib where
  "toy_L = \<lparr>IsValidChannelID = (\<lambda>s. take 8 s = ''channel-''), PortIdentifierValidator = (\<lambda>s. s \<noteq> []),
     ChannelIdentifierValidator = (\<lambda>s. s \<noteq> []), ParseChannelSequence = (\<lambda>_. Some 0), ValidateHash = (\<lambda>_. True),
     HexBytes_String = (\<lambda>b. toUpper (hexEncode b)), sha256 = take 4, marshalPacketJSON = toy_marshal,
     unmarshalPacketJSON = toy_unmarshal, marshalICS721 = (\<lambda>(n, d). Some (putStr n @ d)),
     unmarshalICS721 = (\<lambda>bz. Some (getStr bz)), base64Encode = (\<lambda>b. b), base64Decode = Some\<rparr>"

lemma toy_codec: "packet_codec toy_L"
proof -
  have "toy_unmarshal (toy_marshal p) = Some p" for p
  proof -
    let ?k = "length (toy_marshal p)"
    have k: "length (pd_TokenIds p) < ?k" "length (pd_TokenUris p) < ?k" "length (pd_TokenData p) < ?k"
      using putStrs_length [of "pd_TokenIds p"] putStrs_length [of "pd_TokenUris p"] putStrs_length [of "pd_TokenData p"]
      by (simp_all add: toy_marshal_def)
    have g: "getStr (putStr s) = (s, [])" for s using getStr_put [of s "[]"] by simp
    define kk where "kk = ?k"
    show ?thesis
      unfolding toy_unmarshal_def kk_def [symmetric] using k unfolding kk_def [symmetric]
      by (simp add: toy_marshal_def getStr_put getStrs_put g)
  qed
  then show ?thesis by (simp add: packet_codec_def toy_L_def)
qed

lemma toy_hash_text: "hash_text toy_L"
  by (simp add: hash_text_def toy_L_def hexDecode_toUpper)

section \<open>Two chains\<close>

definition toy_ibc :: "unit ibcKeepers" where
  "toy_ibc = \<lparr>ik_GetChannel = (\<lambda>_ _ _. Some (''nft-transfer'', ''channel-1'')), ik_GetNextSequenceSend = (\<lambda>_ _ _. Some 1),
     ik_GetCapability = (\<lambda>_ _ _. Some 0), ik_SendPacket = (\<lambda>i _ _ _ _ _ _. Ok (1, i)), ik_IsBound = (\<lambda>_ _. True),
     ik_BindPort = (\<lambda>i _. (0, i)), ik_ClaimPort = (\<lambda>i _ _. Ok i), ik_ClaimChannel = (\<lambda>i _ _ _. Ok i)\<rparr>"

definition toy_K :: "(toyVm, unit) Keeper" where
  "toy_K = \<lparr>k_lib = toy_L, k_ibc = toy_ibc,
     k_auth = \<lparr>ak_StringToBytes = Some, ak_String = (\<lambda>a. a), ak_HasAccount = mk_HasAccount toy_M, ak_NewAccount = mk_NewAccount toy_M\<rparr>,
     k_nft = NewNftKeeper toy_V toy_M, k_authority = ''gov''\<rparr>"

lemma toy_wired: "wired toy_V toy_M toy_K"
  by (simp add: wired_def toy_K_def)

definition toy_chain :: "toyVm \<Rightarrow> (toyVm, unit) chain" where
  "toy_chain m = \<lparr>c_PortID = Some ''nft-transfer'', c_Params = Some \<lparr>SendEnabled = True, ReceiveEnabled = True\<rparr>,
     c_ClassTraces = mempty, c_ClassData = mempty, c_TokenData = mempty, c_nft = m, c_ibc = ()\<rparr>"

text \<open>Chain A has the collection \<open>cats\<close> with the token \<open>tom\<close> of \<open>alice\<close>; chain B has nothing.\<close>

definition toy_A :: "(toyVm, unit) chain" where
  "toy_A = toy_chain \<lparr>tv_owner = [toy_object toy_std ''cats::tom'' \<mapsto> ''alice''],
     tv_coll = [toy_object toy_std ''cats'' \<mapsto> (''about cats'', ''cats'', ''cats.org'')],
     tv_nft = [toy_object toy_std ''cats::tom'' \<mapsto> (''a cat'', ''tom'', ''tom.org'')]\<rparr>"

definition toy_B :: "(toyVm, unit) chain" where
  "toy_B = toy_chain \<lparr>tv_owner = Map.empty, tv_coll = Map.empty, tv_nft = Map.empty\<rparr>"

text \<open>How the keeper reads the VM when all strings are short.\<close>

definition short :: "string \<times> string \<times> string \<Rightarrow> bool" where
  "short = (\<lambda>(d, c, u). length d < 128 \<and> length c < 128 \<and> length u < 128)"

lemma toy_short: "short (d, c, u) \<Longrightarrow> length (toy_bytes (d, c, u)) < 2 ^ 63"
  by (simp add: short_def toy_bytes_def toy_std_def bcsVec_def uleb.simps)

lemma toy_CollectionInfo:
  assumes "tv_coll m a = Some (d, c, u)" and "short (d, c, u)"
  shows "CollectionInfo toy_V toy_M m a = Ok (toy_std, c, u, d)"
  using toy_read [OF toy_short [OF assms(2)]] assms(1) by (simp add: toy_info mapFail_def)

lemma toy_ReadNftInfo: "short (d, t, u) \<Longrightarrow> ReadNftInfo (toy_bytes (d, t, u)) = Ok (t, u, d)"
  by (rule ReadNftInfo_bcs [where rest = "[]", OF _ toy_short]) (simp_all add: toy_bytes_def toy_std_def)

lemma toy_nft_bytes:
  "mk_GetResourceBytes toy_M m x (''nft'', ''Nft'') = map_outcome id toy_bytes (orFail ErrNotFound (tv_nft m x))"
  by (simp add: toy_M_def)

lemma toy_std_object: "toy_object toy_std name = CHR ''s'' # name @ [char_of (0xFE :: nat)]"
  by (simp add: toy_object_def toy_std_def numeral_eq_Suc)

lemma toy_collection: "\<not> HasPrefix c ''move/'' \<Longrightarrow> CollectionAddressFromClassId toy_V c = Ok (toy_object toy_std c)"
  by (simp add: CollectionAddressFromClassId_def CutPrefix_def toy_named)

lemma toy_token: "TokenAddressFromTokenId toy_V toy_std c t = Ok (toy_object toy_std (c @ ''::'' @ t))"
  by (simp add: TokenAddressFromTokenId_def toy_named)

lemmas toy_eval = toy_CollectionInfo toy_ReadNftInfo toy_nft_bytes toy_std_object toy_collection toy_token toy_calls

text \<open>A string that begins and ends with a printable ASCII character is not trimmed.\<close>

definition graphic :: "char \<Rightarrow> bool" where
  "graphic c \<longleftrightarrow> 33 \<le> (of_char c :: nat) \<and> (of_char c :: nat) < 128"

lemma whiteSpace_graphic:
  "list_all (\<lambda>w. \<not> graphic (hd w)) whiteSpace" "list_all (\<lambda>w. \<not> graphic (hd w)) (map rev whiteSpace)"
  by (simp_all add: whiteSpace_def graphic_def)

lemma trimWith_graphic:
  assumes "list_all (\<lambda>w. \<not> graphic (hd w)) ws" and "s \<noteq> []" and "graphic (hd s)"
  shows "trimWith ws s = s"
proof -
  have "hd w = hd s" if "take (length w) s = w" "w \<noteq> []" for w using that assms(2) by (metis hd_take length_greater_0_conv)
  then have "find (\<lambda>w. w \<noteq> [] \<and> take (length w) s = w) ws = None"
    using assms(1,3) by (auto simp: find_None_iff list_all_iff)
  then show ?thesis by (simp add: trimWith.simps [of ws s])
qed

lemma TrimSpace_graphic: "s \<noteq> [] \<Longrightarrow> graphic (hd s) \<Longrightarrow> graphic (last s) \<Longrightarrow> TrimSpace s = s"
  by (simp add: TrimSpace_def trimWith_graphic whiteSpace_graphic hd_rev)

definition toy_dA :: NonFungibleTokenPacketData where
  "toy_dA = \<lparr>pd_ClassId = ''cats'', pd_ClassUri = ''cats.org'', pd_ClassData = ''11110catsabout cats'',
     pd_TokenIds = [''tom''], pd_TokenUris = [''tom.org''], pd_TokenData = [''0a cat''],
     pd_Sender = ''alice'', pd_Receiver = ''bob'', pd_Memo = ''''\<rparr>"

lemma toy_newPacket_A: "newPacketData toy_K toy_A ''cats'' [''tom''] ''alice'' ''bob'' '''' = Ok toy_dA"
  by (simp add: newPacketData_def toy_K_def NewNftKeeper_def GetClassInfo_def GetTokenInfos_def toy_A_def toy_chain_def
      toy_eval short_def HasPrefix_def packetInfo_def ClassIdPrefix_def ConvertClassDataToICS721_def
      ConvertTokenDataToICS721_def convertDataToICS721_def toy_L_def putStr_def mapFail_def toy_dA_def)

text \<open>The token goes into the escrow of the channel of chain A.\<close>

definition toy_A1 :: "(toyVm, unit) chain" where
  "toy_A1 = toy_A\<lparr>c_nft := (c_nft toy_A)\<lparr>tv_owner := (tv_owner (c_nft toy_A))(toy_object toy_std ''cats::tom'' \<mapsto> ''ics7'')\<rparr>\<rparr>"

lemma toy_source_A: "SenderChainIsSource ''nft-transfer'' ''channel-0'' ''cats''"
  by code_simp

lemma toy_escrow: "GetEscrowAddress toy_L ''nft-transfer'' ''channel-0'' = ''ics7''"
  by code_simp

lemma toy_send_A:
  "sendNftTransfer toy_K toy_A ''nft-transfer'' ''channel-0'' ''cats'' [''tom''] ''alice'' ''bob'' (0, 0) 1 '''' = Ok (1, toy_A1)"
proof -
  have k: "k_lib toy_K = toy_L" "k_ibc toy_K = toy_ibc" "k_nft toy_K = NewNftKeeper toy_V toy_M"
    "pd_ClassId toy_dA = ''cats''" by (simp_all add: toy_K_def toy_dA_def)
  have t: "nk_Transfers (NewNftKeeper toy_V toy_M) (c_nft toy_A) ''alice'' ''ics7'' ''cats'' [''tom''] = Ok (c_nft toy_A1)"
    by (simp add: NewNftKeeper_def Transfers_def registerAccount_def accountAddress_def toy_A_def toy_A1_def toy_chain_def
        toy_eval short_def HasPrefix_def toy_transfer_def)
  show ?thesis
    unfolding sendNftTransfer_def Let_def toy_newPacket_A k obind.simps toy_escrow
    by (simp add: k toy_source_A t toy_ibc_def GetSendEnabled_def guard_def) (simp add: toy_A1_def toy_A_def toy_chain_def)
qed

text \<open>Chain B makes a class for the path and mints a voucher for \<open>bob\<close>.\<close>

definition toy_tr :: ClassTrace where
  "toy_tr = \<lparr>Path = ''nft-transfer/channel-1'', BaseClassId = ''cats''\<rparr>"

lemma toy_trace: "ParseClassTrace toy_L (GetClassIdPrefix ''nft-transfer'' ''channel-1'' @ ''cats'') = toy_tr"
  by code_simp

lemma toy_voucher: "IBCClassId toy_L toy_tr = ''ibc/6E66742D''" "Hash toy_L toy_tr = ''nft-''"
  by (simp_all add: IBCClassId_def Hash_def GetFullClassIdPath_def GetPrefix_def toy_tr_def toy_L_def ClassIdPrefix_def
      hexEncode_def hexDigit_def toUpper_def char_of_eq_iff)

definition toy_B1 :: "(toyVm, unit) chain" where
  "toy_B1 = toy_B\<lparr>c_ClassTraces := mput mempty ''nft-'' toy_tr, c_ClassData := mput mempty ''nft-'' ''11110catsabout cats'',
     c_TokenData := mput mempty (''nft-'', ''tom'') ''0a cat'',
     c_nft := \<lparr>tv_owner = [toy_object toy_std ''ibc/6E66742D::tom'' \<mapsto> ''bob''],
       tv_coll = [toy_object toy_std ''ibc/6E66742D'' \<mapsto> (''11110catsabout cats'', ''ibc/6E66742D'', ''cats.org'')],
       tv_nft = [toy_object toy_std ''ibc/6E66742D::tom'' \<mapsto> (''0a cat'', ''tom'', ''tom.org'')]\<rparr>\<rparr>"

definition toy_pB :: Packet where
  "toy_pB = \<lparr>p_SourcePort = ''nft-transfer'', p_SourceChannel = ''channel-0'', p_DestPort = ''nft-transfer'',
     p_DestChannel = ''channel-1'', p_Data = GetBytes toy_L toy_dA\<rparr>"

lemma toy_valid_A: "Packet_ValidateBasic toy_L toy_dA = None"
  by (simp add: Packet_ValidateBasic_def toy_dA_def TrimSpace_graphic graphic_def ValidatePrefixedClassId_def)

lemma toy_decode_A: "DecodePacketData toy_L (GetBytes toy_L toy_dA) = Ok toy_dA"
  by (rule decode_bytes [OF toy_codec]) (simp_all add: toy_dA_def)

lemma toy_recv_B: "OnRecvPacket (\<lambda>_. '''') toy_K toy_B toy_pB = Ok (AckResult [char_of (1 :: nat)], toy_B1)"
proof -
  have k: "k_lib toy_K = toy_L" "k_nft toy_K = NewNftKeeper toy_V toy_M" "ak_StringToBytes (k_auth toy_K) = Some"
    "p_SourcePort toy_pB = ''nft-transfer''" "p_SourceChannel toy_pB = ''channel-0''"
    "p_DestPort toy_pB = ''nft-transfer''" "p_DestChannel toy_pB = ''channel-1''" "p_Data toy_pB = GetBytes toy_L toy_dA"
    "pd_ClassId toy_dA = ''cats''" "pd_Receiver toy_dA = ''bob''" "pd_TokenIds toy_dA = [''tom'']"
    "pd_TokenUris toy_dA = [''tom.org'']" "pd_TokenData toy_dA = [''0a cat'']" "pd_ClassUri toy_dA = ''cats.org''"
    "pd_ClassData toy_dA = ''11110catsabout cats''" "ensureAccount (k_auth toy_K) n a = n" for n a
    by (simp_all add: toy_K_def toy_pB_def toy_dA_def ensureAccount_def toy_M_def)
  define n where "n = (c_nft toy_B)\<lparr>tv_coll := [toy_object toy_std ''ibc/6E66742D'' \<mapsto>
      (''11110catsabout cats'', ''ibc/6E66742D'', ''cats.org'')]\<rparr>"
  have c: "nk_CreateOrUpdateClass (NewNftKeeper toy_V toy_M) (c_nft toy_B) ''ibc/6E66742D'' ''cats.org'' ''11110catsabout cats'' = Ok n"
    using toy_short [of "''11110catsabout cats''" "''ibc/6E66742D''" "''cats.org''"]
    by (simp add: NewNftKeeper_def CreateOrUpdateClass_def toy_B_def toy_chain_def toy_eval HasPrefix_def toy_create_def
        short_def n_def)
  have m: "nk_Mints (NewNftKeeper toy_V toy_M) n ''bob'' ''ibc/6E66742D'' [''tom''] [''tom.org''] [''0a cat''] = Ok (c_nft toy_B1)"
    by (simp add: NewNftKeeper_def Mints_def registerAccount_def accountAddress_def n_def toy_B_def toy_B1_def toy_chain_def
        toy_eval short_def HasPrefix_def toy_mint_def index_def)
  have "Keeper_OnRecvPacket toy_K toy_B toy_pB toy_dA = Ok toy_B1"
    unfolding Keeper_OnRecvPacket_def Let_def k toy_valid_A toy_trace toy_voucher
    using c m toy_source_A
    by (simp add: SenderChainIsSource_def GetReceiveEnabled_def guard_def index_def setIfAbsent_def)
      (simp add: toy_B_def toy_chain_def toy_B1_def index_def)
  then show ?thesis by (simp add: OnRecvPacket_def k toy_decode_A)
qed

text \<open>\<open>bob\<close> sends the voucher back to \<open>carol\<close>: it is burned, and the packet carries the path of chain B.\<close>

definition toy_dB :: NonFungibleTokenPacketData where
  "toy_dB = \<lparr>pd_ClassId = ''nft-transfer/channel-1/cats'', pd_ClassUri = ''cats.org'', pd_ClassData = ''11110catsabout cats'',
     pd_TokenIds = [''tom''], pd_TokenUris = [''tom.org''], pd_TokenData = [''0a cat''],
     pd_Sender = ''bob'', pd_Receiver = ''carol'', pd_Memo = ''''\<rparr>"

lemma toy_parse_back: "ParseClassTrace toy_L ''nft-transfer/channel-1/cats'' = toy_tr"
  using toy_trace by (simp add: GetClassIdPrefix_def)

lemma toy_newPacket_B: "newPacketData toy_K toy_B1 ''ibc/6E66742D'' [''tom''] ''bob'' ''carol'' '''' = Ok toy_dB"
proof -
  have "ClassIdPathFromHash toy_L toy_B1 (IBCClassId toy_L toy_tr) = Ok (GetFullClassIdPath toy_tr)"
    by (rule ClassIdPathFromHash_voucher [OF toy_hash_text]) (simp_all add: toy_voucher, simp_all add: toy_tr_def toy_B1_def)
  then have p: "ClassIdPathFromHash toy_L toy_B1 ''ibc/6E66742D'' = Ok ''nft-transfer/channel-1/cats''"
    by (simp add: toy_voucher) (simp add: toy_tr_def GetFullClassIdPath_def GetPrefix_def)
  have i: "packetInfo toy_L toy_B1 ''ibc/6E66742D'' [''tom''] nm cd td =
      Ok (''nft-transfer/channel-1/cats'', ''11110catsabout cats'', [''0a cat''])" for nm cd td
    by (simp add: packetInfo_def HasPrefix_def ClassIdPrefix_def p toy_parse_back toy_voucher) (simp add: toy_B1_def)
  have k: "k_lib toy_K = toy_L" "k_nft toy_K = NewNftKeeper toy_V toy_M" "ak_String (k_auth toy_K) = (\<lambda>a. a)"
    by (simp_all add: toy_K_def)
  have g: "nk_GetClassInfo (NewNftKeeper toy_V toy_M) (c_nft toy_B1) ''ibc/6E66742D'' =
      Ok (''ibc/6E66742D'', ''cats.org'', ''11110catsabout cats'')"
    "nk_GetTokenInfos (NewNftKeeper toy_V toy_M) (c_nft toy_B1) ''ibc/6E66742D'' [''tom''] = Ok ([''tom.org''], [''0a cat''])"
    by (simp_all add: NewNftKeeper_def GetClassInfo_def GetTokenInfos_def toy_B1_def toy_eval short_def HasPrefix_def mapFail_def)
  show ?thesis by (simp add: newPacketData_def k g i toy_dB_def)
qed

definition toy_B2 :: "(toyVm, unit) chain" where
  "toy_B2 = toy_B1\<lparr>c_nft := (c_nft toy_B1)\<lparr>tv_owner := (tv_owner (c_nft toy_B1))(toy_object toy_std ''ibc/6E66742D::tom'' := None)\<rparr>\<rparr>"

lemma toy_source_B: "\<not> SenderChainIsSource ''nft-transfer'' ''channel-1'' ''nft-transfer/channel-1/cats''"
  by (simp add: SenderChainIsSource_def ReceiverChainIsSource_def GetClassIdPrefix_def HasPrefix_def)

lemma toy_send_B:
  "sendNftTransfer toy_K toy_B1 ''nft-transfer'' ''channel-1'' ''ibc/6E66742D'' [''tom''] ''bob'' ''carol'' (0, 0) 1 '''' = Ok (1, toy_B2)"
proof -
  have k: "k_lib toy_K = toy_L" "k_ibc toy_K = toy_ibc" "k_nft toy_K = NewNftKeeper toy_V toy_M"
    "pd_ClassId toy_dB = ''nft-transfer/channel-1/cats''" by (simp_all add: toy_K_def toy_dB_def)
  have t: "nk_Burns (NewNftKeeper toy_V toy_M) (c_nft toy_B1) ''bob'' ''ibc/6E66742D'' [''tom''] = Ok (c_nft toy_B2)"
    by (simp add: NewNftKeeper_def Burns_def accountAddress_def toy_B1_def toy_B2_def toy_eval short_def HasPrefix_def
        toy_transfer_def)
  show ?thesis
    unfolding sendNftTransfer_def Let_def toy_newPacket_B k obind.simps
    by (simp add: k toy_source_B t toy_ibc_def GetSendEnabled_def guard_def)
      (simp add: toy_B2_def toy_B1_def toy_B_def toy_chain_def)
qed

text \<open>Chain A releases the token from the escrow.\<close>

definition toy_A2 :: "(toyVm, unit) chain" where
  "toy_A2 = toy_A1\<lparr>c_nft := (c_nft toy_A1)\<lparr>tv_owner := (tv_owner (c_nft toy_A1))(toy_object toy_std ''cats::tom'' \<mapsto> ''carol'')\<rparr>\<rparr>"

definition toy_pA :: Packet where
  "toy_pA = \<lparr>p_SourcePort = ''nft-transfer'', p_SourceChannel = ''channel-1'', p_DestPort = ''nft-transfer'',
     p_DestChannel = ''channel-0'', p_Data = GetBytes toy_L toy_dB\<rparr>"

lemma toy_valid_B: "Packet_ValidateBasic toy_L toy_dB = None"
proof -
  have "Split ''nft-transfer/channel-1/cats'' CHR ''/'' = [''nft-transfer'', ''channel-1'', ''cats'']" by simp
  then show ?thesis
    by (simp add: Packet_ValidateBasic_def toy_dB_def TrimSpace_graphic graphic_def ValidatePrefixedClassId_def
        extractPathAndBaseFromFullClassId_def validateTraceIdentifiers_def toy_L_def)
qed

lemma toy_parse_cats: "ParseClassTrace toy_L ''cats'' = \<lparr>Path = '''', BaseClassId = ''cats''\<rparr>"
  by (simp add: ParseClassTrace_def)

lemma toy_class_cats: "IBCClassId toy_L (ParseClassTrace toy_L ''cats'') = ''cats''"
  by (simp add: toy_parse_cats IBCClassId_def)

lemma toy_recv_A: "OnRecvPacket (\<lambda>_. '''') toy_K toy_A1 toy_pA = Ok (AckResult [char_of (1 :: nat)], toy_A2)"
proof -
  have k: "k_lib toy_K = toy_L" "k_nft toy_K = NewNftKeeper toy_V toy_M" "ak_StringToBytes (k_auth toy_K) = Some"
    "p_SourcePort toy_pA = ''nft-transfer''" "p_SourceChannel toy_pA = ''channel-1''"
    "p_DestPort toy_pA = ''nft-transfer''" "p_DestChannel toy_pA = ''channel-0''" "p_Data toy_pA = GetBytes toy_L toy_dB"
    "pd_ClassId toy_dB = ''nft-transfer/channel-1/cats''" "pd_Receiver toy_dB = ''carol''" "pd_TokenIds toy_dB = [''tom'']"
    "ensureAccount (k_auth toy_K) n a = n" for n a
    by (simp_all add: toy_K_def toy_pA_def toy_dB_def ensureAccount_def toy_M_def)
  have d: "DecodePacketData toy_L (GetBytes toy_L toy_dB) = Ok toy_dB"
    by (rule decode_bytes [OF toy_codec]) (simp_all add: toy_dB_def)
  have c: "localClassId toy_L (drop (length (GetClassIdPrefix ''nft-transfer'' ''channel-1'')) ''nft-transfer/channel-1/cats'') = ''cats''"
    by (simp add: localClassId_def GetClassIdPrefix_def toy_parse_cats)
  have t: "nk_Transfers (NewNftKeeper toy_V toy_M) (c_nft toy_A1) ''ics7'' ''carol'' ''cats'' [''tom''] = Ok (c_nft toy_A2)"
    by (simp add: NewNftKeeper_def Transfers_def registerAccount_def accountAddress_def toy_A_def toy_A1_def toy_A2_def
        toy_chain_def toy_eval short_def HasPrefix_def toy_transfer_def)
  have "Keeper_OnRecvPacket toy_K toy_A1 toy_pA toy_dB = Ok toy_A2"
    unfolding Keeper_OnRecvPacket_def Let_def k toy_valid_B c toy_escrow
    using t toy_source_B by (simp add: SenderChainIsSource_def GetReceiveEnabled_def guard_def mapFail_def)
      (simp add: toy_A_def toy_chain_def toy_A1_def toy_A2_def)
  then show ?thesis by (simp add: OnRecvPacket_def k d)
qed

end
