(* ===== verification/Nft_Properties.thy ===== *)
theory Nft_Properties
  imports Nft_Example
begin

text \<open>
  The properties of the NFT transfer module, of the Move NFT keeper under it and of the readers of
  Move resources, with witnesses on the two chains of the example.
\<close>

section \<open>Transfers between two chains\<close>

text \<open>
  C20: tokens that chain A sends to chain B and that B sends back over the same channel end with the
  receiver on A, every other token of A keeps its owner, and on B no owner of any object is different
  from before: the vouchers minted for the journey are gone.
\<close>

theorem nft_there_and_back:
  fixes KA :: "('a, 'x) Keeper" and KB :: "('b, 'y) Keeper"
  assumes "vm_ok VA MA ownA" and "wired VA MA KA" and "vm_ok VB MB ownB" and "wired VB MB KB"
    and "k_lib KA = L" and "k_lib KB = L" and "packet_codec L" and "hash_text L"
    and "newPacketData KA sA c ts a rA memoA = Ok dA"
    and "sendNftTransfer KA sA ap ac c ts a rA hA tA memoA = Ok (qA, sA1)"
    and "SenderChainIsSource ap ac (pd_ClassId dA)"
    and "IBCClassId L (ParseClassTrace L (pd_ClassId dA)) = c"
    and "CHR ''/'' \<notin> set bp" and "CHR ''/'' \<notin> set bc" and "IsValidChannelID L bc"
    and "\<not> allHops L (GetClassIdPrefix bp bc @ pd_ClassId dA)"
    and "tr = ParseClassTrace L (GetClassIdPrefix bp bc @ pd_ClassId dA)"
    and "mget (c_ClassTraces sB) (Hash L tr) \<in> {None, Some tr}"
    and "OnRecvPacket txB KB sB \<lparr>p_SourcePort = ap, p_SourceChannel = ac, p_DestPort = bp, p_DestChannel = bc,
        p_Data = GetBytes L dA\<rparr> = Ok (AckResult x, sB1)"
    and "newPacketData KB sB1 (IBCClassId L tr) ts b rB memoB = Ok dB"
    and "sendNftTransfer KB sB1 bp bc (IBCClassId L tr) ts b rB hB tB memoB = Ok (qB, sB2)"
    and "OnRecvPacket txA KA sA1 \<lparr>p_SourcePort = bp, p_SourceChannel = bc, p_DestPort = ap, p_DestChannel = ac,
        p_Data = GetBytes L dB\<rparr> = Ok (AckResult y, sA2)"
    and "ak_StringToBytes (k_auth KA) rB = Some z"
  shows "ownA (c_nft sA2) = reowned (ownA (c_nft sA)) {x. \<exists>t\<in>set ts. tokenObject VA MA (c_nft sA) c t = Some x}
      (NewAccountAddressFromBytes VA z) \<and> ownB (c_nft sB2) = ownB (c_nft sB)"
  using there_and_back [OF assms] by blast

theorem nft_there_and_back_witness:
  "tv_owner (c_nft toy_A2) = reowned (tv_owner (c_nft toy_A))
      {x. \<exists>t\<in>{''tom''}. tokenObject toy_V toy_M (c_nft toy_A) ''cats'' t = Some x} (Some ''carol'') \<and>
   tv_owner (c_nft toy_B2) = tv_owner (c_nft toy_B)"
proof -
  have k: "k_lib toy_K = toy_L" "ak_StringToBytes (k_auth toy_K) ''carol'' = Some ''carol''" "pd_ClassId toy_dA = ''cats''"
    "IsValidChannelID toy_L ''channel-1''"
    "mget (c_ClassTraces toy_B) h \<in> {None, Some tr}" for h tr
    by (simp_all add: toy_K_def toy_dA_def toy_B_def toy_chain_def) (simp add: toy_L_def)
  have hops: "\<not> allHops toy_L (GetClassIdPrefix ''nft-transfer'' ''channel-1'' @ pd_ClassId toy_dA)"
    by (simp add: k(3) allHops_def GetClassIdPrefix_def)
  have c: "SenderChainIsSource ''nft-transfer'' ''channel-0'' (pd_ClassId toy_dA)"
    "IBCClassId toy_L (ParseClassTrace toy_L (pd_ClassId toy_dA)) = ''cats''"
    "toy_tr = ParseClassTrace toy_L (GetClassIdPrefix ''nft-transfer'' ''channel-1'' @ pd_ClassId toy_dA)"
    by (simp_all add: k(3) toy_source_A toy_class_cats toy_trace)
  have b: "newPacketData toy_K toy_B1 (IBCClassId toy_L toy_tr) [''tom''] ''bob'' ''carol'' '''' = Ok toy_dB"
    "sendNftTransfer toy_K toy_B1 ''nft-transfer'' ''channel-1'' (IBCClassId toy_L toy_tr) [''tom''] ''bob'' ''carol'' (0, 0) 1 '''' =
      Ok (1, toy_B2)"
    unfolding toy_voucher(1) by (fact toy_newPacket_B, fact toy_send_B)
  show ?thesis
    using nft_there_and_back [OF toy_ok toy_wired toy_ok toy_wired k(1,1) toy_codec toy_hash_text toy_newPacket_A toy_send_A
        c(1,2) _ _ k(4) hops c(3) k(5) toy_recv_B [unfolded toy_pB_def] b toy_recv_A [unfolded toy_pA_def] k(2)]
    by simp
qed

text \<open>
  C21: a refund undoes a send. If a transfer times out or is answered with an error, and the callback
  succeeds, then every token object has the owner it had before the send, escrowed or burned alike.
\<close>

theorem refund_undoes_send:
  assumes "vm_ok V M own" and "wired V M K" and "packet_codec (k_lib K)"
    and "newPacketData K s c ts a r memo = Ok d" and "sendNftTransfer K s sp sc c ts a r h tm memo = Ok (q, s1)"
    and "IBCClassId (k_lib K) (ParseClassTrace (k_lib K) (pd_ClassId d)) = c"
    and "\<not> IsMoveClassId c \<or> SenderChainIsSource sp sc (pd_ClassId d)"
    and "ak_StringToBytes (k_auth K) (ak_String (k_auth K) a) = Some a"
    and "p_SourcePort pk = sp" and "p_SourceChannel pk = sc" and "p_Data pk = GetBytes (k_lib K) d"
    and "OnTimeoutPacket K s1 pk = Ok s2 \<or> OnAcknowledgementPacket K s1 pk (Some (AckError e)) = Ok s2"
  shows "own (c_nft s2) = own (c_nft s)"
proof -
  have "refundPacketToken K s1 pk (reshaped d) = Ok s2"
    using assms(12) timeout_refunds [OF assms(3,11)] by metis
  from nk.refund_restores(1) [OF assms(1) wired_accounts(1) [OF assms(1,2)] assms(3-10) this] show ?thesis .
qed

theorem refund_undoes_send_witness:
  "\<exists>s2. OnTimeoutPacket toy_K toy_A1 toy_pB = Ok s2 \<and> tv_owner (c_nft s2) = tv_owner (c_nft toy_A)"
proof -
  have k: "k_lib toy_K = toy_L" "k_nft toy_K = NewNftKeeper toy_V toy_M" "ak_StringToBytes (k_auth toy_K) = Some"
    "ak_String (k_auth toy_K) = (\<lambda>a. a)"
    "pd_ClassId toy_dA = ''cats''" "pd_TokenIds toy_dA = [''tom'']" "pd_Sender toy_dA = ''alice''" "p_SourcePort toy_pB = ''nft-transfer''"
    "p_SourceChannel toy_pB = ''channel-0''" "p_Data toy_pB = GetBytes toy_L toy_dA"
    by (simp_all add: toy_K_def toy_dA_def toy_pB_def)
  have "nk_Transfers (NewNftKeeper toy_V toy_M) (c_nft toy_A1) ''ics7'' ''alice'' ''cats'' [''tom''] =
      Ok ((c_nft toy_A1)\<lparr>tv_owner := (tv_owner (c_nft toy_A1))(toy_object toy_std ''cats::tom'' \<mapsto> ''alice'')\<rparr>)"
    by (simp add: NewNftKeeper_def Transfers_def registerAccount_def accountAddress_def toy_A_def toy_A1_def
        toy_chain_def toy_eval short_def HasPrefix_def toy_transfer_def)
  then have "\<exists>s2. refundPacketToken toy_K toy_A1 toy_pB (reshaped toy_dA) = Ok s2"
    by (simp add: refundPacketToken_def k reshaped_fields toy_class_cats toy_source_A toy_escrow mapFail_def)
  then obtain s2 where s2: "OnTimeoutPacket toy_K toy_A1 toy_pB = Ok s2"
    using timeout_refunds(1) [of toy_K toy_pB toy_dA toy_A1] toy_codec by (auto simp: k)
  then show ?thesis
    using refund_undoes_send [OF toy_ok toy_wired _ toy_newPacket_A toy_send_A, of toy_pB s2] toy_codec toy_source_A
    by (simp add: k toy_class_cats)
qed

text \<open>
  C22: vouchers whose URIs or data are all blank cannot be refunded. The packet is sent with those
  lists as nil, the timeout and error callbacks decode it without filling them in again, and minting
  the vouchers anew indexes a nil list: whatever the state, the callback does not succeed, so the
  vouchers burned by the send stay burned.
\<close>

theorem blank_vouchers_lost:
  assumes "wired V M K" and "packet_codec (k_lib K)" and "p_Data pk = GetBytes (k_lib K) d"
    and "pd_TokenIds d \<noteq> []" and "requireShape (pd_TokenUris d) \<or> requireShape (pd_TokenData d)"
    and "\<not> SenderChainIsSource (p_SourcePort pk) (p_SourceChannel pk) (pd_ClassId d)"
  shows "OnTimeoutPacket K s pk \<noteq> Ok s' \<and> OnAcknowledgementPacket K s pk (Some (AckError e)) \<noteq> Ok s'"
proof -
  have "k_nft K = NewNftKeeper V M" using assms(1) by (simp add: wired_def)
  then show ?thesis unfolding timeout_refunds [OF assms(2,3)] using blank_refund [OF _ assms(4-6)] by blast
qed

theorem blank_vouchers_lost_witness:
  "OnTimeoutPacket toy_K toy_B2 \<lparr>p_SourcePort = ''nft-transfer'', p_SourceChannel = ''channel-1'',
     p_DestPort = ''nft-transfer'', p_DestChannel = ''channel-0'', p_Data = GetBytes toy_L (toy_dB\<lparr>pd_TokenUris := ['''']\<rparr>)\<rparr> \<noteq> Ok toy_B1"
proof -
  have k: "k_lib toy_K = toy_L" "pd_ClassId toy_dB = ''nft-transfer/channel-1/cats''" "pd_TokenIds toy_dB = [''tom'']"
    by (simp_all add: toy_K_def toy_dB_def)
  show ?thesis
    using blank_vouchers_lost [OF toy_wired, of "\<lparr>p_SourcePort = ''nft-transfer'', p_SourceChannel = ''channel-1'',
        p_DestPort = ''nft-transfer'', p_DestChannel = ''channel-0'', p_Data = GetBytes toy_L (toy_dB\<lparr>pd_TokenUris := ['''']\<rparr>)\<rparr>"
        "toy_dB\<lparr>pd_TokenUris := ['''']\<rparr>" toy_B2 toy_B1] toy_codec toy_source_B
    by (simp add: k requireShape_def)
qed

section \<open>The store\<close>

text \<open>What changes the store of a chain: messages, callbacks and a genesis import.\<close>

inductive nft_reach :: "('n, 'i) Keeper \<Rightarrow> ('n, 'i) chain \<Rightarrow> ('n, 'i) chain \<Rightarrow> bool"
  for K :: "('n, 'i) Keeper" and s0 :: "('n, 'i) chain" where
  nft_start: "nft_reach K s0 s0"
| nft_transfer: "nft_reach K s0 s \<Longrightarrow> MsgServer_Transfer K s msg = Ok (q, s') \<Longrightarrow> nft_reach K s0 s'"
| nft_params: "nft_reach K s0 s \<Longrightarrow> MsgServer_UpdateParams K s auth p = Ok s' \<Longrightarrow> nft_reach K s0 s'"
| nft_recv: "nft_reach K s0 s \<Longrightarrow> OnRecvPacket ackText K s pk = Ok (ack, s') \<Longrightarrow> nft_reach K s0 s'"
| nft_ack: "nft_reach K s0 s \<Longrightarrow> OnAcknowledgementPacket K s pk a = Ok s' \<Longrightarrow> nft_reach K s0 s'"
| nft_timeout: "nft_reach K s0 s \<Longrightarrow> OnTimeoutPacket K s pk = Ok s' \<Longrightarrow> nft_reach K s0 s'"
| nft_genesis: "nft_reach K s0 s \<Longrightarrow> InitGenesis K s gs = Ok s' \<Longrightarrow> nft_reach K s0 s'"
| nft_others: "nft_reach K s0 s \<Longrightarrow> nft_reach K s0 (s\<lparr>c_nft := n, c_ibc := i\<rparr>)"

lemma traces_ok_frame: "c_ClassTraces s' = c_ClassTraces s \<Longrightarrow> traces_ok L s' = traces_ok L s"
  by (simp add: traces_ok_def)

lemma traces_ok_others: "traces_ok L (s\<lparr>c_nft := n, c_ibc := i\<rparr>) = traces_ok L s"
  by (rule traces_ok_frame) simp

lemma refund_traces: "refundPacketToken K s pk d = Ok s' \<Longrightarrow> c_ClassTraces s' = c_ClassTraces s"
  by (drule refund_frame, erule ssubst) simp

lemma nft_reach_traces:
  assumes "nft_reach K s0 s" and "traces_ok (k_lib K) s0"
  shows "traces_ok (k_lib K) s"
  using assms
proof induction
  case (nft_transfer s msg q s')
  then have "c_ClassTraces s' = c_ClassTraces s"
    by (auto simp: MsgServer_Transfer_def Let_def obind_Ok_iff dest: sendNftTransfer_frame(1))
  then show ?case using nft_transfer traces_ok_frame by blast
next
  case (nft_params s auth p s')
  then have "c_ClassTraces s' = c_ClassTraces s" by (auto simp: MsgServer_UpdateParams_def obind_Ok_iff)
  then show ?case using nft_params traces_ok_frame by blast
next
  case (nft_recv s tx pk ack s')
  then consider "s' = s" | d where "Keeper_OnRecvPacket K s pk d = Ok s'"
    by (auto simp: OnRecvPacket_def split: outcome.splits)
  then show ?case using nft_recv recv_traces_ok by cases auto
next
  case (nft_ack s pk a s')
  then have "c_ClassTraces s' = c_ClassTraces s"
    by (auto simp: OnAcknowledgementPacket_def Keeper_OnAcknowledgementPacket_def obind_Ok_iff refund_traces
        split: Acknowledgement.splits) (metis Acknowledgement.exhaust)
  then show ?case using nft_ack traces_ok_frame by blast
next
  case (nft_timeout s pk s')
  then have "c_ClassTraces s' = c_ClassTraces s"
    by (auto simp: OnTimeoutPacket_def Keeper_OnTimeoutPacket_def obind_Ok_iff refund_traces)
  then show ?case using nft_timeout traces_ok_frame by blast
next
  case nft_others
  then show ?case by (simp add: traces_ok_others)
qed (auto intro: InitGenesis_traces_ok)

text \<open>
  C23: in every state that messages, callbacks and genesis imports reach from an empty trace store, each
  class trace is filed under its own hash. Hence the class identifier of a stored voucher trace resolves
  to the full path of exactly that trace.
\<close>

theorem voucher_resolves:
  assumes "nft_reach K s0 s" and "c_ClassTraces s0 = mempty" and "hash_text (k_lib K)"
    and "mget (c_ClassTraces s) h = Some t" and "Path t \<noteq> ''''"
  shows "Hash (k_lib K) t = h \<and> ClassIdPathFromHash (k_lib K) s (IBCClassId (k_lib K) t) = Ok (GetFullClassIdPath t)"
proof -
  have "traces_ok (k_lib K) s" by (rule nft_reach_traces [OF assms(1)]) (simp add: traces_ok_def assms(2))
  then have "Hash (k_lib K) t = h" using assms(4) by (simp add: traces_ok_def)
  then show ?thesis using ClassIdPathFromHash_voucher [OF assms(3,5)] assms(4) by simp
qed

theorem voucher_resolves_witness:
  "mget (c_ClassTraces toy_B1) ''nft-'' = Some toy_tr \<and> ClassIdPathFromHash toy_L toy_B1 ''ibc/6E66742D'' = Ok ''nft-transfer/channel-1/cats''"
proof -
  have r: "nft_reach toy_K toy_B toy_B1" by (rule nft_recv [OF nft_start toy_recv_B])
  have m: "mget (c_ClassTraces toy_B1) ''nft-'' = Some toy_tr" by (simp add: toy_B1_def)
  have k: "k_lib toy_K = toy_L" "c_ClassTraces toy_B = mempty" "Path toy_tr \<noteq> ''''"
    "GetFullClassIdPath toy_tr = ''nft-transfer/channel-1/cats''"
    by (simp_all add: toy_K_def toy_B_def toy_chain_def toy_tr_def GetFullClassIdPath_def GetPrefix_def)
  show ?thesis using voucher_resolves [OF r k(2) _ m k(3)] toy_hash_text m by (simp add: k toy_voucher)
qed

text \<open>
  C24: an exported genesis, imported into an empty store, restores the class traces, the class and token
  data, the parameters and the port of a state that was reached from an empty trace store.
\<close>

theorem genesis_round_trip:
  assumes "nft_reach K s0 s" and "c_ClassTraces s0 = mempty"
    and "ExportGenesis s = Ok gs" and "InitGenesis K e gs = Ok s'"
    and "c_ClassTraces e = mempty" and "c_ClassData e = mempty" and "c_TokenData e = mempty"
  shows "mget (c_ClassTraces s') = mget (c_ClassTraces s) \<and> mget (c_ClassData s') = mget (c_ClassData s) \<and>
    mget (c_TokenData s') = mget (c_TokenData s) \<and> c_Params s' = c_Params s \<and> c_PortID s' = c_PortID s"
proof -
  have "traces_ok (k_lib K) s" by (rule nft_reach_traces [OF assms(1)]) (simp add: traces_ok_def assms(2))
  from export_import [OF this assms(3-7)] show ?thesis by blast
qed

theorem genesis_round_trip_witness:
  "\<exists>gs s'. ExportGenesis toy_B1 = Ok gs \<and> InitGenesis toy_K toy_A gs = Ok s' \<and>
    mget (c_ClassTraces s') ''nft-'' = Some toy_tr"
proof -
  have r: "nft_reach toy_K toy_B toy_B1" by (rule nft_recv [OF nft_start toy_recv_B])
  obtain gs where gs: "ExportGenesis toy_B1 = Ok gs"
    by (simp add: ExportGenesis_def toy_B1_def toy_B_def toy_chain_def)
  obtain s' where s': "InitGenesis toy_K toy_A gs = Ok s'"
    by (simp add: InitGenesis_def toy_K_def toy_ibc_def)
  show ?thesis
    using genesis_round_trip [OF r _ gs s'] gs s'
    by (simp add: toy_B1_def toy_B_def toy_A_def toy_chain_def)
qed

section \<open>Class paths and packets\<close>

text \<open>
  C25: parsing a class path and writing it out again gives the path back, unless the path has more than
  two components that pair up as port and channel: then no component is left for the base class, and
  the path comes back with a slash appended.
\<close>

theorem class_path_round_trip:
  "GetFullClassIdPath (ParseClassTrace L s) = (if allHops L s then s @ ''/'' else s)"
  by (rule parse_full)

text \<open>
  C26: a packet with one URI and one data string per token, which is what the sender builds, is decoded
  by the receiver to exactly the packet that was encoded, although blank lists travel as nil.
\<close>

theorem packet_round_trip:
  assumes "packet_codec L" and "length (pd_TokenUris p) = length (pd_TokenIds p)"
    and "length (pd_TokenData p) = length (pd_TokenIds p)"
  shows "DecodePacketData L (GetBytes L p) = Ok p"
  by (rule decode_bytes [OF assms])

theorem packet_round_trip_witness:
  "DecodePacketData toy_L (GetBytes toy_L (toy_dB\<lparr>pd_TokenUris := ['''']\<rparr>)) = Ok (toy_dB\<lparr>pd_TokenUris := ['''']\<rparr>)"
  by (rule packet_round_trip [OF toy_codec]) (simp_all add: toy_dB_def)

text \<open>
  C27: the Move NFT keeper implements the ownership contract of the transfer module: \<open>Transfers\<close> succeeds
  only if the sender owns every token, and then changes the owner of exactly those tokens to the
  receiver; \<open>Burns\<close> likewise leaves exactly those without an owner.
\<close>

theorem keeper_ownership:
  assumes "vm_ok V K own"
  shows "(Transfers V K m a b c ts = Ok m' \<longrightarrow>
      (\<forall>t\<in>set ts. \<exists>x. tokenObject V K m c t = Some x \<and> own m x = NewAccountAddressFromBytes V a) \<and>
      own m' = reowned (own m) {x. \<exists>t\<in>set ts. tokenObject V K m c t = Some x} (NewAccountAddressFromBytes V b)) \<and>
    (Burns V K m a c ts = Ok m' \<longrightarrow>
      (\<forall>t\<in>set ts. \<exists>x. tokenObject V K m c t = Some x \<and> own m x = NewAccountAddressFromBytes V a) \<and>
      own m' = reowned (own m) {x. \<exists>t\<in>set ts. tokenObject V K m c t = Some x} None)"
  using nk.transfers [OF assms] nk.burns [OF assms] by (simp add: NewNftKeeper_def)

theorem keeper_ownership_witness:
  "tv_owner (c_nft toy_B2) = reowned (tv_owner (c_nft toy_B1))
     {x. \<exists>t\<in>set [''tom'']. tokenObject toy_V toy_M (c_nft toy_B1) ''ibc/6E66742D'' t = Some x} None"
proof -
  have "Burns toy_V toy_M (c_nft toy_B1) ''bob'' ''ibc/6E66742D'' [''tom''] = Ok (c_nft toy_B2)"
    by (simp add: Burns_def accountAddress_def toy_B1_def toy_B2_def toy_eval short_def HasPrefix_def toy_transfer_def)
  then show ?thesis using keeper_ownership [OF toy_ok] by blast
qed

section \<open>Move data\<close>

text \<open>Every byte of a length prefix but the last has its high bit set, so a cut prefix is read past its end.\<close>

lemma readULEB128_cut: "readULEB128_loop (butlast (uleb n)) s t l = Panic"
proof (induction n arbitrary: s t l rule: uleb.induct)
  case (1 n)
  have ne: "uleb m \<noteq> []" for m by (subst uleb.simps) simp
  show ?case
  proof (cases "n < 128")
    case True
    then show ?thesis by (subst uleb.simps) simp
  next
    case False
    then show ?thesis using 1 [OF False] ne continuation_byte [of n]
      by (subst uleb.simps) (simp only: False if_False butlast.simps readULEB128_loop.simps Let_def)
  qed
qed

text \<open>
  C28: the length prefix of a BCS vector (ULEB128) decodes to the length that was encoded and the number
  of bytes of the prefix, whatever follows it; a prefix that is cut short makes the reader index past the
  end of the slice.
\<close>

theorem uleb_round_trip:
  assumes "n < 2 ^ 63"
  shows "readULEB128 (uleb n @ r) = Ok (int n, int (length (uleb n))) \<and> readULEB128 (butlast (uleb n)) = Panic"
  using readULEB128_uleb [OF assms] readULEB128_cut by (simp add: readULEB128_def)

theorem uleb_round_trip_witness:
  "readULEB128 (uleb 300 @ ''tail'') = Ok (300, 2) \<and> readULEB128 (butlast (uleb 300)) = Panic"
proof -
  have "length (uleb 300) = 2" by (simp add: uleb.simps)
  then show ?thesis using uleb_round_trip [of 300 "''tail''"] by simp
qed

text \<open>
  C29: the reader of a Move collection resource returns the creator, name, URI and description that were
  encoded, in any resource that starts with these fields.
\<close>

theorem collection_info_read:
  assumes "length creator = 32" and "NewAccountAddressFromBytes V creator = Some creator"
    and "length bz < 2 ^ 63" and "bz = creator @ bcsVec desc @ bcsVec name @ bcsVec uri @ rest"
  shows "ReadCollectionInfo V bz = Ok (creator, name, uri, desc)"
  by (rule ReadCollectionInfo_bcs [OF assms])

theorem collection_info_read_witness:
  "ReadCollectionInfo toy_V (toy_std @ bcsVec ''about cats'' @ bcsVec ''cats'' @ bcsVec ''cats.org'' @ ''rest'') =
     Ok (toy_std, ''cats'', ''cats.org'', ''about cats'')"
  by (rule collection_info_read) (simp_all add: toy_std_def toy_V_def bcsVec_def uleb.simps)

text \<open>
  C30: the reader of a Move NFT resource returns the token id, URI and description that were encoded; the
  address of the collection in front is skipped.
\<close>

theorem nft_info_read:
  assumes "length collection = 32" and "length bz < 2 ^ 63"
    and "bz = collection @ bcsVec desc @ bcsVec tokenId @ bcsVec uri @ rest"
  shows "ReadNftInfo bz = Ok (tokenId, uri, desc)"
  by (rule ReadNftInfo_bcs [OF assms])

theorem nft_info_read_witness:
  "ReadNftInfo (toy_std @ bcsVec ''a cat'' @ bcsVec ''tom'' @ bcsVec ''tom.org'') = Ok (''tom'', ''tom.org'', ''a cat'')"
  by (rule nft_info_read [where rest = "[]"]) (simp_all add: toy_std_def bcsVec_def uleb.simps)

text \<open>
  C31: the two readers of a fungible asset's metadata agree with the encoding: the name, symbol and
  decimals, and the symbol alone.
\<close>

theorem metadata_read:
  assumes "length bz < 2 ^ 63" and "bz = bcsVec name @ bcsVec symbol @ decimals # rest"
  shows "ReadFungibleAssetMetadata bz = Ok (name, symbol, decimals) \<and> ReadSymbolFromMetadata bz = Ok symbol"
  using ReadFungibleAssetMetadata_bcs [OF assms] by simp

theorem metadata_read_witness:
  "ReadFungibleAssetMetadata (bcsVec ''Initia'' @ bcsVec ''INIT'' @ CHR 0x06 # ''rest'') = Ok (''Initia'', ''INIT'', CHR 0x06) \<and>
   ReadSymbolFromMetadata (bcsVec ''Initia'' @ bcsVec ''INIT'' @ CHR 0x06 # ''rest'') = Ok ''INIT''"
  by (rule metadata_read) (simp_all add: bcsVec_def uleb.simps)



end
