(* ===== verification/Slashing.thy ===== *)
theory Slashing
  imports Go_Outcome
begin

text \<open>
  Model of \<open>x/slashing\<close>: signing infos and the chunked bitmap of missed blocks
  (\<open>keeper/signing_info.go\<close>), the liveness rule of every block (\<open>keeper/infractions.go\<close>, \<open>abci.go\<close>),
  unjailing (\<open>keeper/unjail.go\<close>), the staking hooks (\<open>keeper/hooks.go\<close>), the delegations to the staking
  keeper (\<open>keeper/keeper.go\<close>), parameters, messages and genesis.

  The state is the module store plus the state \<open>'k\<close> behind the staking keeper. Signing infos and
  parameters are kept as values, since their codec round-trips; bitmap chunks are kept as the bytes
  the code stores, because it decodes them at every access. Parameters of the model are the bitset
  library with the chunk size and chunk key of the SDK (\<open>bitsetLib\<close>) and the staking keeper interface with
  the decimal operations (\<open>stakingKeeper\<close>).
\<close>

section \<open>Parameters and state\<close>

record 'b bitsetLib =
  bs_New :: 'b
  bs_Test :: "'b \<Rightarrow> nat \<Rightarrow> bool"
  bs_Set :: "'b \<Rightarrow> nat \<Rightarrow> 'b"
  bs_Clear :: "'b \<Rightarrow> nat \<Rightarrow> 'b"
  bs_MarshalBinary :: "'b \<Rightarrow> bytes option"
  bs_UnmarshalBinary :: "'b \<Rightarrow> bytes \<Rightarrow> 'b option"
  MissedBlockBitmapChunkSize :: int
  chunkKey :: "int \<Rightarrow> bytes"

datatype slash_error =
    ErrNoSigningInfoFound
  | ErrChunkDecode
  | ErrChunkEncode
  | ErrValidatorTombstoned
  | ErrNoValidatorForAddress
  | ErrMissingSelfDelegation
  | ErrSelfDelegationTooLowToUnjail
  | ErrValidatorNotJailed
  | ErrValidatorJailed
  | ErrSlashingSigner
  | ErrSlashingParams
  | ErrSlashingAddress
  | ErrNoPubkey
  | ErrSlashingQuery
  | ErrStaking string

type_synonym 'a sres = "(slash_error, 'a) outcome"

record 'd SlashingParams =
  sp_SignedBlocksWindow :: int
  sp_MinSignedPerWindow :: 'd
  sp_DowntimeJailDuration :: int
  sp_SlashFractionDoubleSign :: 'd
  sp_SlashFractionDowntime :: 'd

datatype Infraction = INFRACTION_UNSPECIFIED | INFRACTION_DOUBLE_SIGN | INFRACTION_DOWNTIME

record ('k, 'v, 'd) stakingKeeper =
  sk_IsValidatorJailed :: "'k \<Rightarrow> bytes \<Rightarrow> bool sres"
  sk_ValidatorByConsAddr :: "'k \<Rightarrow> bytes \<Rightarrow> 'v option sres"
  sk_Validator :: "'k \<Rightarrow> bytes \<Rightarrow> 'v option sres"
  sk_Validators :: "'k \<Rightarrow> 'v list"
  sk_Delegation :: "'k \<Rightarrow> bytes \<Rightarrow> bytes \<Rightarrow> 'd option sres"
  sk_VotingPower :: "'k \<Rightarrow> 'd \<Rightarrow> int sres"
  sk_VotingPowerToConsensusPower :: "'k \<Rightarrow> int \<Rightarrow> int"
  sk_SlashWithInfractionReason :: "'k \<Rightarrow> bytes \<Rightarrow> int \<Rightarrow> 'd \<Rightarrow> Infraction \<Rightarrow> (string \<times> 'k) sres"
  sk_Jail :: "'k \<Rightarrow> bytes \<Rightarrow> 'k sres"
  sk_Unjail :: "'k \<Rightarrow> bytes \<Rightarrow> 'k sres"
  sk_AddressStringToBytes :: "string \<Rightarrow> bytes option"
  sk_AddressString :: "bytes \<Rightarrow> string"
  sk_ValAddressFromBech32 :: "string \<Rightarrow> bytes option"
  v_IsJailed :: "'v \<Rightarrow> bool"
  v_GetConsAddr :: "'v \<Rightarrow> bytes sres"
  v_ConsPubKey :: "'v \<Rightarrow> bytes sres"
  v_TokensFromShares :: "'v \<Rightarrow> 'd \<Rightarrow> 'd"
  pk_Address :: "bytes \<Rightarrow> bytes"
  dec_MulInt64_RoundInt64 :: "'d \<Rightarrow> int \<Rightarrow> int"
  sp_Validate :: "'d SlashingParams \<Rightarrow> bool"
  sp_Zero :: "'d SlashingParams"

record ValidatorSigningInfo =
  si_Address :: bytes
  si_StartHeight :: int
  si_IndexOffset :: int
  si_JailedUntil :: int
  si_Tombstoned :: bool
  si_MissedBlocksCounter :: int

datatype slash_event =
    EvLiveness bytes int int
  | EvSlash bytes int Infraction string
  | EvJail bytes

record ('k, 'd) slashing =
  ss_infos :: "(bytes, ValidatorSigningInfo) gomap"
  ss_chunks :: "(bytes \<times> int, bytes) gomap"
  ss_pubkeys :: "(bytes, bytes) gomap"
  ss_params :: "'d SlashingParams option"
  ss_staking :: 'k
  ss_events :: "slash_event list"

text \<open>The block context: height and time in nanoseconds.\<close>

record blockCtx =
  bc_Height :: int
  bc_Time :: int

text \<open>Go's \<open>/\<close> and \<open>%\<close> on \<open>int64\<close>: truncation towards zero, the remainder with the sign of the dividend.\<close>

definition goQuo :: "int \<Rightarrow> int \<Rightarrow> int" where
  "goQuo a b = sgn a * sgn b * (\<bar>a\<bar> div \<bar>b\<bar>)"

definition goRem :: "int \<Rightarrow> int \<Rightarrow> int" where
  "goRem a b = sgn a * (\<bar>a\<bar> mod \<bar>b\<bar>)"

section \<open>Parameters\<close>

definition GetParams :: "('k, 'v, 'd) stakingKeeper \<Rightarrow> ('k, 'd) slashing \<Rightarrow> 'd SlashingParams" where
  "GetParams S s = (case ss_params s of None \<Rightarrow> sp_Zero S | Some p \<Rightarrow> p)"

definition SetParams :: "('k, 'd) slashing \<Rightarrow> 'd SlashingParams \<Rightarrow> ('k, 'd) slashing" where
  "SetParams s p = s\<lparr>ss_params := Some p\<rparr>"

definition SignedBlocksWindow :: "('k, 'v, 'd) stakingKeeper \<Rightarrow> ('k, 'd) slashing \<Rightarrow> int" where
  "SignedBlocksWindow S s = sp_SignedBlocksWindow (GetParams S s)"

definition MinSignedPerWindow :: "('k, 'v, 'd) stakingKeeper \<Rightarrow> ('k, 'd) slashing \<Rightarrow> int" where
  "MinSignedPerWindow S s =
     dec_MulInt64_RoundInt64 S (sp_MinSignedPerWindow (GetParams S s)) (sp_SignedBlocksWindow (GetParams S s))"

definition DowntimeJailDuration :: "('k, 'v, 'd) stakingKeeper \<Rightarrow> ('k, 'd) slashing \<Rightarrow> int" where
  "DowntimeJailDuration S s = sp_DowntimeJailDuration (GetParams S s)"

definition SlashFractionDowntime :: "('k, 'v, 'd) stakingKeeper \<Rightarrow> ('k, 'd) slashing \<Rightarrow> 'd" where
  "SlashFractionDowntime S s = sp_SlashFractionDowntime (GetParams S s)"

section \<open>Signing infos\<close>

definition GetValidatorSigningInfo :: "('k, 'd) slashing \<Rightarrow> bytes \<Rightarrow> ValidatorSigningInfo sres" where
  "GetValidatorSigningInfo s address = orFail ErrNoSigningInfoFound (mget (ss_infos s) address)"

definition HasValidatorSigningInfo :: "('k, 'd) slashing \<Rightarrow> bytes \<Rightarrow> bool" where
  "HasValidatorSigningInfo s consAddr = (case GetValidatorSigningInfo s consAddr of Ok _ \<Rightarrow> True | _ \<Rightarrow> False)"

definition SetValidatorSigningInfo :: "('k, 'd) slashing \<Rightarrow> bytes \<Rightarrow> ValidatorSigningInfo \<Rightarrow> ('k, 'd) slashing" where
  "SetValidatorSigningInfo s address info = s\<lparr>ss_infos := mput (ss_infos s) address info\<rparr>"

definition JailUntil :: "('k, 'd) slashing \<Rightarrow> bytes \<Rightarrow> int \<Rightarrow> ('k, 'd) slashing sres" where
  "JailUntil s consAddr jailTime =
     obind (GetValidatorSigningInfo s consAddr) (\<lambda>signInfo.
     Ok (SetValidatorSigningInfo s consAddr (signInfo\<lparr>si_JailedUntil := jailTime\<rparr>)))"

definition Tombstone :: "('k, 'd) slashing \<Rightarrow> bytes \<Rightarrow> ('k, 'd) slashing sres" where
  "Tombstone s consAddr =
     obind (GetValidatorSigningInfo s consAddr) (\<lambda>signInfo.
     obind (guard (\<not> si_Tombstoned signInfo) ErrValidatorTombstoned) (\<lambda>_.
     Ok (SetValidatorSigningInfo s consAddr (signInfo\<lparr>si_Tombstoned := True\<rparr>))))"

definition IsTombstoned :: "('k, 'd) slashing \<Rightarrow> bytes \<Rightarrow> bool" where
  "IsTombstoned s consAddr =
     (case GetValidatorSigningInfo s consAddr of Ok signInfo \<Rightarrow> si_Tombstoned signInfo | _ \<Rightarrow> False)"

section \<open>The bitmap of missed blocks\<close>

definition getMissedBlockBitmapChunk :: "('k, 'd) slashing \<Rightarrow> bytes \<Rightarrow> int \<Rightarrow> bytes option" where
  "getMissedBlockBitmapChunk s addr chunkIndex = mget (ss_chunks s) (addr, chunkIndex)"

definition setMissedBlockBitmapChunk :: "('k, 'd) slashing \<Rightarrow> bytes \<Rightarrow> int \<Rightarrow> bytes \<Rightarrow> ('k, 'd) slashing" where
  "setMissedBlockBitmapChunk s addr chunkIndex chunk = s\<lparr>ss_chunks := mput (ss_chunks s) (addr, chunkIndex) chunk\<rparr>"

text \<open>A fresh bitset, filled from the chunk if there is one.\<close>

definition loadChunk :: "'b bitsetLib \<Rightarrow> bytes option \<Rightarrow> 'b sres" where
  "loadChunk B chunk =
     (case chunk of
        None \<Rightarrow> Ok (bs_New B)
      | Some c \<Rightarrow> orFail ErrChunkDecode (bs_UnmarshalBinary B (bs_New B) c))"

definition GetMissedBlockBitmapValue :: "'b bitsetLib \<Rightarrow> ('k, 'd) slashing \<Rightarrow> bytes \<Rightarrow> int \<Rightarrow> bool sres" where
  "GetMissedBlockBitmapValue B s addr idx =
     (let chunkIndex = goQuo idx (MissedBlockBitmapChunkSize B) in
      obind (loadChunk B (getMissedBlockBitmapChunk s addr chunkIndex)) (\<lambda>bs.
      let bitIndex = goRem idx (MissedBlockBitmapChunkSize B) in
      Ok (bs_Test B bs (nat (bitIndex mod 2 ^ 64)))))"

definition SetMissedBlockBitmapValue ::
    "'b bitsetLib \<Rightarrow> ('k, 'd) slashing \<Rightarrow> bytes \<Rightarrow> int \<Rightarrow> bool \<Rightarrow> ('k, 'd) slashing sres" where
  "SetMissedBlockBitmapValue B s addr idx missed =
     (let chunkIndex = goQuo idx (MissedBlockBitmapChunkSize B) in
      obind (loadChunk B (getMissedBlockBitmapChunk s addr chunkIndex)) (\<lambda>bs.
      let bitIndex = nat (goRem idx (MissedBlockBitmapChunkSize B) mod 2 ^ 64);
          bs = (if missed then bs_Set B bs bitIndex else bs_Clear B bs bitIndex) in
      obind (orFail ErrChunkEncode (bs_MarshalBinary B bs)) (\<lambda>updatedChunk.
      Ok (setMissedBlockBitmapChunk s addr chunkIndex updatedChunk))))"

definition DeleteMissedBlockBitmap :: "('k, 'd) slashing \<Rightarrow> bytes \<Rightarrow> ('k, 'd) slashing" where
  "DeleteMissedBlockBitmap s addr =
     s\<lparr>ss_chunks := foldl mdel (ss_chunks s) (filter (\<lambda>k. fst k = addr) (map fst (mitems (ss_chunks s))))\<rparr>"

text \<open>
  The iteration: the chunks of the address in the order of their store keys; the callback gets a
  running index that advances over the bits of the chunks that exist, and its \<open>stop\<close> leaves the
  chunk only.
\<close>

fun iterateBits :: "(int \<Rightarrow> bool \<Rightarrow> 's \<Rightarrow> bool \<times> 's) \<Rightarrow> ('b \<Rightarrow> nat \<Rightarrow> bool) \<Rightarrow> 'b \<Rightarrow> nat list \<Rightarrow> int \<Rightarrow> 's \<Rightarrow> int \<times> 's" where
  "iterateBits cb test bs [] idx a = (idx, a)"
| "iterateBits cb test bs (i # is) idx a =
     (let (stop, a) = cb idx (test bs i) a
      in if stop then (idx, a) else iterateBits cb test bs is (idx + 1) a)"

fun iterateChunks ::
    "'b bitsetLib \<Rightarrow> (int \<Rightarrow> bool \<Rightarrow> 's \<Rightarrow> bool \<times> 's) \<Rightarrow> bytes list \<Rightarrow> int \<Rightarrow> 's \<Rightarrow> 's sres" where
  "iterateChunks B cb [] idx a = Ok a"
| "iterateChunks B cb (c # cs) idx a =
     obind (orFail ErrChunkDecode (bs_UnmarshalBinary B (bs_New B) c)) (\<lambda>bs.
     let (idx, a) = iterateBits cb (bs_Test B) bs [0 ..< nat (MissedBlockBitmapChunkSize B)] idx a
     in iterateChunks B cb cs idx a)"

definition chunksOf :: "'b bitsetLib \<Rightarrow> ('k, 'd) slashing \<Rightarrow> bytes \<Rightarrow> (int \<times> bytes) list" where
  "chunksOf B s addr =
     sort_key (\<lambda>c. chunkKey B (fst c))
       (map (\<lambda>((_, i), c). (i, c)) (filter (\<lambda>((a, _), _). a = addr) (mitems (ss_chunks s))))"

definition IterateMissedBlockBitmap ::
    "'b bitsetLib \<Rightarrow> ('k, 'd) slashing \<Rightarrow> bytes \<Rightarrow> (int \<Rightarrow> bool \<Rightarrow> 's \<Rightarrow> bool \<times> 's) \<Rightarrow> 's \<Rightarrow> 's sres" where
  "IterateMissedBlockBitmap B s addr cb a = iterateChunks B cb (map snd (chunksOf B s addr)) 0 a"

text \<open>The result slice is made with the window as its capacity, which panics if that is negative.\<close>

definition GetValidatorMissedBlocks ::
    "'b bitsetLib \<Rightarrow> ('k, 'v, 'd) stakingKeeper \<Rightarrow> ('k, 'd) slashing \<Rightarrow> bytes \<Rightarrow> (int \<times> bool) list sres" where
  "GetValidatorMissedBlocks B S s addr =
     (if SignedBlocksWindow S s < 0 then Panic
      else IterateMissedBlockBitmap B s addr
             (\<lambda>idx missed acc. (False, if missed then acc @ [(idx, missed)] else acc)) [])"

section \<open>Pubkeys, slashing and jailing\<close>

definition AddPubkey :: "('k, 'v, 'd) stakingKeeper \<Rightarrow> ('k, 'd) slashing \<Rightarrow> bytes \<Rightarrow> ('k, 'd) slashing" where
  "AddPubkey S s pubkey = s\<lparr>ss_pubkeys := mput (ss_pubkeys s) (pk_Address S pubkey) pubkey\<rparr>"

definition GetPubkey :: "('k, 'd) slashing \<Rightarrow> bytes \<Rightarrow> bytes sres" where
  "GetPubkey s a = orFail ErrNoPubkey (mget (ss_pubkeys s) a)"

definition deleteAddrPubkeyRelation :: "('k, 'd) slashing \<Rightarrow> bytes \<Rightarrow> ('k, 'd) slashing" where
  "deleteAddrPubkeyRelation s addr = s\<lparr>ss_pubkeys := mdel (ss_pubkeys s) addr\<rparr>"

definition emit :: "('k, 'd) slashing \<Rightarrow> slash_event \<Rightarrow> ('k, 'd) slashing" where
  "emit s e = s\<lparr>ss_events := ss_events s @ [e]\<rparr>"

definition SlashWithInfractionReason ::
    "('k, 'v, 'd) stakingKeeper \<Rightarrow> ('k, 'd) slashing \<Rightarrow> bytes \<Rightarrow> 'd \<Rightarrow> int \<Rightarrow> int \<Rightarrow> Infraction \<Rightarrow> ('k, 'd) slashing sres" where
  "SlashWithInfractionReason S s consAddr fraction pwr distributionHeight infraction =
     obind (sk_SlashWithInfractionReason S (ss_staking s) consAddr distributionHeight fraction infraction)
       (\<lambda>(coinsBurned, k).
     Ok (emit (s\<lparr>ss_staking := k\<rparr>) (EvSlash consAddr pwr infraction coinsBurned)))"

definition Slash ::
    "('k, 'v, 'd) stakingKeeper \<Rightarrow> ('k, 'd) slashing \<Rightarrow> bytes \<Rightarrow> 'd \<Rightarrow> int \<Rightarrow> int \<Rightarrow> ('k, 'd) slashing sres" where
  "Slash S s consAddr fraction pwr distributionHeight =
     SlashWithInfractionReason S s consAddr fraction pwr distributionHeight INFRACTION_UNSPECIFIED"

definition Jail :: "('k, 'v, 'd) stakingKeeper \<Rightarrow> ('k, 'd) slashing \<Rightarrow> bytes \<Rightarrow> ('k, 'd) slashing sres" where
  "Jail S s consAddr =
     obind (sk_Jail S (ss_staking s) consAddr) (\<lambda>k. Ok (emit (s\<lparr>ss_staking := k\<rparr>) (EvJail consAddr)))"

section \<open>The liveness rule\<close>

text \<open>\<open>sdk.ValidatorUpdateDelay\<close> is one block.\<close>

definition ValidatorUpdateDelay :: int where
  "ValidatorUpdateDelay = 1"

text \<open>The bit of the block and the counter: the \<open>switch\<close> of \<open>HandleValidatorSignature\<close>.\<close>

definition recordSignature ::
    "'b bitsetLib \<Rightarrow> ('k, 'd) slashing \<Rightarrow> bytes \<Rightarrow> int \<Rightarrow> bool \<Rightarrow> ValidatorSigningInfo \<Rightarrow>
     (ValidatorSigningInfo \<times> ('k, 'd) slashing) sres" where
  "recordSignature B s consAddr idx missed signInfo =
     obind (GetMissedBlockBitmapValue B s consAddr idx) (\<lambda>previous.
     if \<not> previous \<and> missed then
       obind (SetMissedBlockBitmapValue B s consAddr idx True) (\<lambda>s.
       Ok (signInfo\<lparr>si_MissedBlocksCounter := i64 (si_MissedBlocksCounter signInfo + 1)\<rparr>, s))
     else if previous \<and> \<not> missed then
       obind (SetMissedBlockBitmapValue B s consAddr idx False) (\<lambda>s.
       Ok (signInfo\<lparr>si_MissedBlocksCounter := i64 (si_MissedBlocksCounter signInfo - 1)\<rparr>, s))
     else Ok (signInfo, s))"

text \<open>The punishment, once the validator is past the minimum height and missed too many blocks.\<close>

definition punishDowntime ::
    "('k, 'v, 'd) stakingKeeper \<Rightarrow> blockCtx \<Rightarrow> ('k, 'd) slashing \<Rightarrow> bytes \<Rightarrow> int \<Rightarrow> ValidatorSigningInfo \<Rightarrow>
     (ValidatorSigningInfo \<times> ('k, 'd) slashing) sres" where
  "punishDowntime S ctx s consAddr pwr signInfo =
     obind (sk_ValidatorByConsAddr S (ss_staking s) consAddr) (\<lambda>validator.
     case validator of
       None \<Rightarrow> Ok (signInfo, s)
     | Some v \<Rightarrow>
         (if v_IsJailed S v then Ok (signInfo, s)
          else
            let distributionHeight = i64 (bc_Height ctx - ValidatorUpdateDelay - 1) in
            obind (sk_SlashWithInfractionReason S (ss_staking s) consAddr distributionHeight
                     (SlashFractionDowntime S s) INFRACTION_DOWNTIME) (\<lambda>(coinsBurned, k).
            let s = emit (s\<lparr>ss_staking := k\<rparr>) (EvSlash consAddr pwr INFRACTION_DOWNTIME coinsBurned) in
            obind (sk_Jail S (ss_staking s) consAddr) (\<lambda>k.
            let s = s\<lparr>ss_staking := k\<rparr>;
                signInfo = signInfo\<lparr>si_JailedUntil := bc_Time ctx + DowntimeJailDuration S s,
                             si_MissedBlocksCounter := 0, si_IndexOffset := 0\<rparr>
            in Ok (signInfo, DeleteMissedBlockBitmap s consAddr)))))"

text \<open>The liveness event of a missed block.\<close>

definition noteMissed :: "blockCtx \<Rightarrow> ('k, 'd) slashing \<Rightarrow> bytes \<Rightarrow> bool \<Rightarrow> ValidatorSigningInfo \<Rightarrow> ('k, 'd) slashing" where
  "noteMissed ctx s consAddr missed signInfo =
     (if missed then emit s (EvLiveness consAddr (si_MissedBlocksCounter signInfo) (bc_Height ctx)) else s)"

definition HandleValidatorSignature ::
    "'b bitsetLib \<Rightarrow> ('k, 'v, 'd) stakingKeeper \<Rightarrow> blockCtx \<Rightarrow> ('k, 'd) slashing \<Rightarrow> bytes \<Rightarrow> int \<Rightarrow> bool \<Rightarrow>
     ('k, 'd) slashing sres" where
  "HandleValidatorSignature B S ctx s consAddr pwr missed =
     obind (sk_IsValidatorJailed S (ss_staking s) consAddr) (\<lambda>isJailed.
     if isJailed then Ok s
     else
       obind (GetValidatorSigningInfo s consAddr) (\<lambda>signInfo.
       let signedBlocksWindow = SignedBlocksWindow S s in
       if signedBlocksWindow = 0 then Panic
       else
         let idx = goRem (si_IndexOffset signInfo) signedBlocksWindow;
             signInfo = signInfo\<lparr>si_IndexOffset := i64 (si_IndexOffset signInfo + 1)\<rparr> in
         obind (recordSignature B s consAddr idx missed signInfo) (\<lambda>(signInfo, s).
         let minSignedPerWindow = MinSignedPerWindow S s;
             s = noteMissed ctx s consAddr missed signInfo;
             minHeight = i64 (si_StartHeight signInfo + signedBlocksWindow);
             maxMissed = i64 (signedBlocksWindow - minSignedPerWindow) in
         obind (if minHeight < bc_Height ctx \<and> maxMissed < si_MissedBlocksCounter signInfo
                then punishDowntime S ctx s consAddr pwr signInfo else Ok (signInfo, s)) (\<lambda>(signInfo, s).
         Ok (SetValidatorSigningInfo s consAddr signInfo)))))"

fun BeginBlocker ::
    "'b bitsetLib \<Rightarrow> ('k, 'v, 'd) stakingKeeper \<Rightarrow> blockCtx \<Rightarrow> ('k, 'd) slashing \<Rightarrow> (bytes \<times> int \<times> bool) list \<Rightarrow>
     ('k, 'd) slashing sres" where
  "BeginBlocker B S ctx s [] = Ok s"
| "BeginBlocker B S ctx s ((addr, pwr, missed) # votes) =
     obind (HandleValidatorSignature B S ctx s addr pwr missed) (\<lambda>s. BeginBlocker B S ctx s votes)"

section \<open>Unjailing, hooks and messages\<close>

definition Unjail ::
    "('k, 'v, 'd) stakingKeeper \<Rightarrow> blockCtx \<Rightarrow> ('k, 'd) slashing \<Rightarrow> bytes \<Rightarrow> ('k, 'd) slashing sres" where
  "Unjail S ctx s validatorAddr =
     obind (sk_Validator S (ss_staking s) validatorAddr) (\<lambda>validator.
     obind (orFail ErrNoValidatorForAddress validator) (\<lambda>validator.
     obind (sk_Delegation S (ss_staking s) validatorAddr validatorAddr) (\<lambda>selfDel.
     obind (orFail ErrMissingSelfDelegation selfDel) (\<lambda>shares.
     obind (sk_VotingPower S (ss_staking s) (v_TokensFromShares S validator shares)) (\<lambda>vp.
     obind (guard (\<not> sk_VotingPowerToConsensusPower S (ss_staking s) vp < 1) ErrSelfDelegationTooLowToUnjail) (\<lambda>_.
     obind (guard (v_IsJailed S validator) ErrValidatorNotJailed) (\<lambda>_.
     obind (v_GetConsAddr S validator) (\<lambda>consAddr.
     obind (case GetValidatorSigningInfo s consAddr of
              Ok info \<Rightarrow> guard (\<not> si_Tombstoned info \<and> \<not> bc_Time ctx < si_JailedUntil info) ErrValidatorJailed
            | _ \<Rightarrow> Ok ()) (\<lambda>_.
     obind (sk_Unjail S (ss_staking s) consAddr) (\<lambda>k.
     Ok (s\<lparr>ss_staking := k\<rparr>)))))))))))"

definition AfterValidatorBonded :: "blockCtx \<Rightarrow> ('k, 'd) slashing \<Rightarrow> bytes \<Rightarrow> ('k, 'd) slashing" where
  "AfterValidatorBonded ctx s consAddr =
     SetValidatorSigningInfo s consAddr
       (case GetValidatorSigningInfo s consAddr of
          Ok signingInfo \<Rightarrow> signingInfo\<lparr>si_StartHeight := bc_Height ctx\<rparr>
        | _ \<Rightarrow> \<lparr>si_Address = consAddr, si_StartHeight = bc_Height ctx, si_IndexOffset = 0, si_JailedUntil = 0,
                si_Tombstoned = False, si_MissedBlocksCounter = 0\<rparr>)"

definition AfterValidatorRemoved :: "('k, 'd) slashing \<Rightarrow> bytes \<Rightarrow> ('k, 'd) slashing" where
  "AfterValidatorRemoved s consAddr = deleteAddrPubkeyRelation s consAddr"

text \<open>A nil validator would be dereferenced.\<close>

definition AfterValidatorCreated ::
    "('k, 'v, 'd) stakingKeeper \<Rightarrow> ('k, 'd) slashing \<Rightarrow> bytes \<Rightarrow> ('k, 'd) slashing sres" where
  "AfterValidatorCreated S s valAddr =
     obind (sk_Validator S (ss_staking s) valAddr) (\<lambda>validator.
     obind (orPanic validator) (\<lambda>validator.
     obind (v_ConsPubKey S validator) (\<lambda>consPk.
     Ok (AddPubkey S s consPk))))"

definition msg_UpdateParams ::
    "('k, 'v, 'd) stakingKeeper \<Rightarrow> string \<Rightarrow> ('k, 'd) slashing \<Rightarrow> string \<Rightarrow> 'd SlashingParams \<Rightarrow> ('k, 'd) slashing sres" where
  "msg_UpdateParams S authority s reqAuthority p =
     obind (guard (authority = reqAuthority) ErrSlashingSigner) (\<lambda>_.
     obind (guard (sp_Validate S p) ErrSlashingParams) (\<lambda>_.
     Ok (SetParams s p)))"

definition msg_Unjail ::
    "('k, 'v, 'd) stakingKeeper \<Rightarrow> blockCtx \<Rightarrow> ('k, 'd) slashing \<Rightarrow> string \<Rightarrow> ('k, 'd) slashing sres" where
  "msg_Unjail S ctx s validatorAddr =
     obind (orFail ErrSlashingAddress (sk_ValAddressFromBech32 S validatorAddr)) (\<lambda>valAddr. Unjail S ctx s valAddr)"

definition query_SigningInfo ::
    "('k, 'v, 'd) stakingKeeper \<Rightarrow> ('k, 'd) slashing \<Rightarrow> string \<Rightarrow> ValidatorSigningInfo sres" where
  "query_SigningInfo S s reqConsAddress =
     obind (guard (reqConsAddress \<noteq> '''') ErrSlashingQuery) (\<lambda>_.
     obind (orFail ErrSlashingAddress (sk_AddressStringToBytes S reqConsAddress)) (\<lambda>consAddr.
     mapFail (\<lambda>_. ErrSlashingQuery) (GetValidatorSigningInfo s consAddr)))"

section \<open>Genesis\<close>

record 'd slashingGenesis =
  sg_Params :: "'d SlashingParams"
  sg_SigningInfos :: "(string \<times> ValidatorSigningInfo) list"
  sg_MissedBlocks :: "(string \<times> (int \<times> bool) list) list"

fun importPubkeys :: "('k, 'v, 'd) stakingKeeper \<Rightarrow> ('k, 'd) slashing \<Rightarrow> 'v list \<Rightarrow> ('k, 'd) slashing sres" where
  "importPubkeys S s [] = Ok s"
| "importPubkeys S s (v # vs) =
     (case v_ConsPubKey S v of Ok pk \<Rightarrow> importPubkeys S (AddPubkey S s pk) vs | _ \<Rightarrow> Panic)"

fun importInfos :: "('k, 'v, 'd) stakingKeeper \<Rightarrow> ('k, 'd) slashing \<Rightarrow> (string \<times> ValidatorSigningInfo) list \<Rightarrow> ('k, 'd) slashing sres" where
  "importInfos S s [] = Ok s"
| "importInfos S s ((a, info) # rest) =
     obind (orPanic (sk_AddressStringToBytes S a)) (\<lambda>address.
     importInfos S (SetValidatorSigningInfo s address info) rest)"

fun importBits :: "'b bitsetLib \<Rightarrow> ('k, 'd) slashing \<Rightarrow> bytes \<Rightarrow> (int \<times> bool) list \<Rightarrow> ('k, 'd) slashing sres" where
  "importBits B s address [] = Ok s"
| "importBits B s address ((i, missed) # rest) =
     (case SetMissedBlockBitmapValue B s address i missed of
        Ok s \<Rightarrow> importBits B s address rest
      | _ \<Rightarrow> Panic)"

fun importMissed ::
    "'b bitsetLib \<Rightarrow> ('k, 'v, 'd) stakingKeeper \<Rightarrow> ('k, 'd) slashing \<Rightarrow> (string \<times> (int \<times> bool) list) list \<Rightarrow> ('k, 'd) slashing sres" where
  "importMissed B S s [] = Ok s"
| "importMissed B S s ((a, bits) # rest) =
     obind (orPanic (sk_AddressStringToBytes S a)) (\<lambda>address.
     obind (importBits B s address bits) (\<lambda>s. importMissed B S s rest))"

definition SlashingInitGenesis ::
    "'b bitsetLib \<Rightarrow> ('k, 'v, 'd) stakingKeeper \<Rightarrow> ('k, 'd) slashing \<Rightarrow> 'd slashingGenesis \<Rightarrow> ('k, 'd) slashing sres" where
  "SlashingInitGenesis B S s gs =
     obind (importPubkeys S s (sk_Validators S (ss_staking s))) (\<lambda>s.
     obind (importInfos S s (sg_SigningInfos gs)) (\<lambda>s.
     obind (importMissed B S s (sg_MissedBlocks gs)) (\<lambda>s.
     Ok (SetParams s (sg_Params gs)))))"

fun exportMissed ::
    "'b bitsetLib \<Rightarrow> ('k, 'v, 'd) stakingKeeper \<Rightarrow> ('k, 'd) slashing \<Rightarrow> bytes list \<Rightarrow> (string \<times> (int \<times> bool) list) list sres" where
  "exportMissed B S s [] = Ok []"
| "exportMissed B S s (a # as) =
     (case GetValidatorMissedBlocks B S s a of
        Ok bits \<Rightarrow> obind (exportMissed B S s as) (\<lambda>rest. Ok ((sk_AddressString S a, bits) # rest))
      | _ \<Rightarrow> Panic)"

definition SlashingExportGenesis ::
    "'b bitsetLib \<Rightarrow> ('k, 'v, 'd) stakingKeeper \<Rightarrow> ('k, 'd) slashing \<Rightarrow> 'd slashingGenesis sres" where
  "SlashingExportGenesis B S s =
     obind (exportMissed B S s (map fst (mitems (ss_infos s)))) (\<lambda>missed.
     Ok \<lparr>sg_Params = GetParams S s,
         sg_SigningInfos = map (\<lambda>(a, info). (sk_AddressString S a, info)) (mitems (ss_infos s)),
         sg_MissedBlocks = missed\<rparr>)"

section \<open>The bitmap is a set of indices\<close>

text \<open>The documented behaviour of the bitset library, and a positive chunk size.\<close>

definition bitset_ok :: "'b bitsetLib \<Rightarrow> bool" where
  "bitset_ok B \<longleftrightarrow>
     0 < MissedBlockBitmapChunkSize B \<and> MissedBlockBitmapChunkSize B < 2 ^ 63 \<and>
     (\<forall>i. \<not> bs_Test B (bs_New B) i) \<and>
     (\<forall>b i j. bs_Test B (bs_Set B b i) j \<longleftrightarrow> j = i \<or> bs_Test B b j) \<and>
     (\<forall>b i j. bs_Test B (bs_Clear B b i) j \<longleftrightarrow> j \<noteq> i \<and> bs_Test B b j) \<and>
     (\<forall>b. \<exists>c b'. bs_MarshalBinary B b = Some c \<and> bs_UnmarshalBinary B (bs_New B) c = Some b' \<and>
        bs_Test B b' = bs_Test B b)"

definition decodable :: "'b bitsetLib \<Rightarrow> ('k, 'd) slashing \<Rightarrow> bool" where
  "decodable B s \<longleftrightarrow> (\<forall>k c. mget (ss_chunks s) k = Some c \<longrightarrow> bs_UnmarshalBinary B (bs_New B) c \<noteq> None)"

definition chunkBits :: "'b bitsetLib \<Rightarrow> ('k, 'd) slashing \<Rightarrow> bytes \<Rightarrow> int \<Rightarrow> nat \<Rightarrow> bool" where
  "chunkBits B s a k =
     (case mget (ss_chunks s) (a, k) of
        None \<Rightarrow> bs_Test B (bs_New B)
      | Some c \<Rightarrow> bs_Test B (the (bs_UnmarshalBinary B (bs_New B) c)))"

text \<open>The blocks of the window that the bitmap of a validator marks as missed.\<close>

definition missedSet :: "'b bitsetLib \<Rightarrow> ('k, 'd) slashing \<Rightarrow> bytes \<Rightarrow> int set" where
  "missedSet B s a = {i. 0 \<le> i \<and> GetMissedBlockBitmapValue B s a i = Ok True}"

lemma bitset_okD:
  assumes "bitset_ok B"
  shows "0 < MissedBlockBitmapChunkSize B" and "MissedBlockBitmapChunkSize B < 2 ^ 63" and "\<not> bs_Test B (bs_New B) i"
    and "bs_Test B (bs_Set B b i) j \<longleftrightarrow> j = i \<or> bs_Test B b j"
    and "bs_Test B (bs_Clear B b i) j \<longleftrightarrow> j \<noteq> i \<and> bs_Test B b j"
    and "\<exists>c b'. bs_MarshalBinary B b = Some c \<and> bs_UnmarshalBinary B (bs_New B) c = Some b' \<and> bs_Test B b' = bs_Test B b"
  using assms unfolding bitset_ok_def by blast+

lemma goQuo_nonneg: "0 \<le> i \<Longrightarrow> 0 < m \<Longrightarrow> goQuo i m = i div m"
  by (cases "i = 0") (simp_all add: goQuo_def)

lemma goRem_nonneg: "0 \<le> i \<Longrightarrow> 0 < m \<Longrightarrow> goRem i m = i mod m"
  by (cases "i = 0") (simp_all add: goRem_def)

lemma bitIndex:
  assumes "bitset_ok B" and "0 \<le> i"
  shows "nat (goRem i (MissedBlockBitmapChunkSize B) mod 2 ^ 64) = nat (i mod MissedBlockBitmapChunkSize B)"
proof -
  note m = bitset_okD(1,2) [OF assms(1)]
  have "i mod MissedBlockBitmapChunkSize B < MissedBlockBitmapChunkSize B" using m(1) by simp
  then have "i mod MissedBlockBitmapChunkSize B < 2 ^ 63" using m(2) by (rule less_trans)
  then have "i mod MissedBlockBitmapChunkSize B mod 2 ^ 64 = i mod MissedBlockBitmapChunkSize B"
    using m(1) by (intro mod_pos_pos_trivial) simp_all
  then show ?thesis using goRem_nonneg [OF assms(2) m(1)] by simp
qed

lemma loadChunk_bits:
  assumes "decodable B s"
  obtains b where "loadChunk B (getMissedBlockBitmapChunk s a k) = Ok b" and "bs_Test B b = chunkBits B s a k"
  using assms unfolding decodable_def loadChunk_def chunkBits_def getMissedBlockBitmapChunk_def
  by (cases "mget (ss_chunks s) (a, k)") fastforce+

lemma getMissed_bits:
  assumes "bitset_ok B" and "decodable B s" and "0 \<le> i"
  shows "GetMissedBlockBitmapValue B s a i =
    Ok (chunkBits B s a (i div MissedBlockBitmapChunkSize B) (nat (i mod MissedBlockBitmapChunkSize B)))"
proof -
  obtain b where "loadChunk B (getMissedBlockBitmapChunk s a (i div MissedBlockBitmapChunkSize B)) = Ok b"
    and "bs_Test B b = chunkBits B s a (i div MissedBlockBitmapChunkSize B)"
    by (rule loadChunk_bits [OF assms(2)])
  then show ?thesis unfolding GetMissedBlockBitmapValue_def Let_def bitIndex [OF assms(1,3)]
    using goQuo_nonneg [OF assms(3)] bitset_okD(1) [OF assms(1)] by simp
qed

lemma setMissed_bits:
  assumes "bitset_ok B" and "decodable B s" and "0 \<le> i"
  obtains s' where "SetMissedBlockBitmapValue B s a i v = Ok s'" and "decodable B s'"
    and "\<And>a' k. chunkBits B s' a' k =
      (if a' = a \<and> k = i div MissedBlockBitmapChunkSize B
       then (chunkBits B s a k)(nat (i mod MissedBlockBitmapChunkSize B) := v) else chunkBits B s a' k)"
    and "s' = s\<lparr>ss_chunks := ss_chunks s'\<rparr>"
proof -
  let ?k = "i div MissedBlockBitmapChunkSize B" and ?n = "nat (i mod MissedBlockBitmapChunkSize B)"
  obtain b where b: "loadChunk B (getMissedBlockBitmapChunk s a ?k) = Ok b" "bs_Test B b = chunkBits B s a ?k"
    by (rule loadChunk_bits [OF assms(2)])
  define b1 where "b1 = (if v then bs_Set B b ?n else bs_Clear B b ?n)"
  have t: "bs_Test B b1 = (chunkBits B s a ?k)(?n := v)"
    unfolding b1_def b(2) [symmetric] using bitset_okD(4,5) [OF assms(1)] by (auto simp: fun_eq_iff)
  obtain c b2 where c: "bs_MarshalBinary B b1 = Some c" "bs_UnmarshalBinary B (bs_New B) c = Some b2"
    "bs_Test B b2 = bs_Test B b1"
    using bitset_okD(6) [OF assms(1)] by blast
  let ?s = "setMissedBlockBitmapChunk s a ?k c"
  have "SetMissedBlockBitmapValue B s a i v = Ok ?s"
    unfolding SetMissedBlockBitmapValue_def Let_def bitIndex [OF assms(1,3)]
      goQuo_nonneg [OF assms(3) bitset_okD(1) [OF assms(1)]] b(1) obind.simps b1_def [symmetric] c(1)
    by simp
  moreover have "decodable B ?s"
    using assms(2) c(2) by (auto simp: decodable_def setMissedBlockBitmapChunk_def mget_put)
  moreover have "chunkBits B ?s a' k = (if a' = a \<and> k = ?k then (chunkBits B s a k)(?n := v) else chunkBits B s a' k)" for a' k
    using c(2,3) t by (auto simp: chunkBits_def setMissedBlockBitmapChunk_def mget_put)
  moreover have "?s = s\<lparr>ss_chunks := ss_chunks ?s\<rparr>" by (simp add: setMissedBlockBitmapChunk_def)
  ultimately show thesis by (rule that)
qed

lemma set_get_missed:
  assumes "bitset_ok B" and "decodable B s" and "0 \<le> i"
  obtains s' where "SetMissedBlockBitmapValue B s a i v = Ok s'" and "decodable B s'"
    and "\<And>a' j. 0 \<le> j \<Longrightarrow> GetMissedBlockBitmapValue B s' a' j =
      (if a' = a \<and> j = i then Ok v else GetMissedBlockBitmapValue B s a' j)"
    and "s' = s\<lparr>ss_chunks := ss_chunks s'\<rparr>"
proof -
  let ?m = "MissedBlockBitmapChunkSize B"
  obtain s' where s': "SetMissedBlockBitmapValue B s a i v = Ok s'" "decodable B s'"
    and bits: "\<And>a' k. chunkBits B s' a' k =
      (if a' = a \<and> k = i div ?m then (chunkBits B s a k)(nat (i mod ?m) := v) else chunkBits B s a' k)"
    and fr: "s' = s\<lparr>ss_chunks := ss_chunks s'\<rparr>"
    using setMissed_bits [OF assms] by blast
  have "GetMissedBlockBitmapValue B s' a' j = (if a' = a \<and> j = i then Ok v else GetMissedBlockBitmapValue B s a' j)"
    if j: "0 \<le> j" for a' j
  proof -
    have "j div ?m = i div ?m \<and> nat (j mod ?m) = nat (i mod ?m) \<longleftrightarrow> j = i"
      using bitset_okD(1) [OF assms(1)] by (metis div_mult_mod_eq eq_nat_nat_iff pos_mod_sign)
    then show ?thesis
      unfolding getMissed_bits [OF assms(1) s'(2) j] getMissed_bits [OF assms(1,2) j] bits by auto
  qed
  with s' fr that show thesis by blast
qed

lemma set_missedSet:
  assumes "bitset_ok B" and "decodable B s" and "0 \<le> i"
  obtains s' where "SetMissedBlockBitmapValue B s a i v = Ok s'" and "decodable B s'"
    and "\<And>a'. missedSet B s' a' = (if a' = a then (if v then insert i (missedSet B s a) else missedSet B s a - {i})
                                     else missedSet B s a')"
    and "s' = s\<lparr>ss_chunks := ss_chunks s'\<rparr>"
proof -
  obtain s' where s': "SetMissedBlockBitmapValue B s a i v = Ok s'" "decodable B s'"
    and g: "\<And>a' j. 0 \<le> j \<Longrightarrow> GetMissedBlockBitmapValue B s' a' j =
      (if a' = a \<and> j = i then Ok v else GetMissedBlockBitmapValue B s a' j)"
    and fr: "s' = s\<lparr>ss_chunks := ss_chunks s'\<rparr>"
    using set_get_missed [OF assms] by blast
  have "missedSet B s' a' = (if a' = a then (if v then insert i (missedSet B s a) else missedSet B s a - {i})
                              else missedSet B s a')" for a'
    unfolding missedSet_def using g assms(3) by (auto split: if_splits)
  with s' fr that show thesis by blast
qed

lemma foldl_mdel: "mget (foldl mdel m ks) k = (if k \<in> set ks then None else mget m k)"
  by (induction ks arbitrary: m) (auto simp: mget_del)

lemma delete_missedSet:
  assumes "bitset_ok B" and "decodable B s"
  shows "decodable B (DeleteMissedBlockBitmap s a)"
    and "missedSet B (DeleteMissedBlockBitmap s a) a' = (if a' = a then {} else missedSet B s a')"
proof -
  have g: "mget (ss_chunks (DeleteMissedBlockBitmap s a)) k = (if fst k = a then None else mget (ss_chunks s) k)" for k
  proof -
    have "k \<in> fst ` set (mitems (ss_chunks s)) \<longleftrightarrow> mget (ss_chunks s) k \<noteq> None"
      using gm.keys_set [of "ss_chunks s"] by auto
    then show ?thesis by (auto simp: DeleteMissedBlockBitmap_def foldl_mdel)
  qed
  show d: "decodable B (DeleteMissedBlockBitmap s a)" using assms(2) by (auto simp: decodable_def g)
  have c: "chunkBits B (DeleteMissedBlockBitmap s a) a' k = (if a' = a then bs_Test B (bs_New B) else chunkBits B s a' k)" for k
    by (simp add: chunkBits_def g)
  show "missedSet B (DeleteMissedBlockBitmap s a) a' = (if a' = a then {} else missedSet B s a')"
    unfolding missedSet_def using getMissed_bits [OF assms(1) d] getMissed_bits [OF assms] c
      bitset_okD(3) [OF assms(1)] by auto
qed

section \<open>The counter counts the bitmap\<close>

text \<open>
  The invariant of the store: every chunk decodes, the bits lie in the range of window indices, and
  the counter of a validator is the number of its set bits, none where there is no signing info.
\<close>

definition counted :: "'b bitsetLib \<Rightarrow> ('k, 'd) slashing \<Rightarrow> bytes \<Rightarrow> bool" where
  "counted B s a \<longleftrightarrow> missedSet B s a \<subseteq> {0 ..< 2 ^ 63 - 1} \<and>
     (case mget (ss_infos s) a of
        None \<Rightarrow> missedSet B s a = {}
      | Some i \<Rightarrow> si_MissedBlocksCounter i = int (card (missedSet B s a)) \<and> 0 \<le> si_IndexOffset i)"

definition slash_ok :: "'b bitsetLib \<Rightarrow> ('k, 'd) slashing \<Rightarrow> bool" where
  "slash_ok B s \<longleftrightarrow> decodable B s \<and> (\<forall>a. counted B s a)"

definition offsets_below :: "int \<Rightarrow> ('k, 'd) slashing \<Rightarrow> bool" where
  "offsets_below n s \<longleftrightarrow> (\<forall>a i. mget (ss_infos s) a = Some i \<longrightarrow> si_IndexOffset i < n)"

lemma missedSet_cong: "ss_chunks s' = ss_chunks s \<Longrightarrow> missedSet B s' = missedSet B s"
  by (simp add: missedSet_def GetMissedBlockBitmapValue_def getMissedBlockBitmapChunk_def fun_eq_iff)

lemma decodable_cong: "ss_chunks s' = ss_chunks s \<Longrightarrow> decodable B s' = decodable B s"
  by (simp add: decodable_def)

lemma window_card:
  assumes "X \<subseteq> {0 ..< 2 ^ 63 - 1 :: int}"
  shows "finite X" and "int (card X) \<le> 2 ^ 63 - 1"
proof -
  show "finite X" using assms finite_subset by blast
  have "card X \<le> card {0 ..< 2 ^ 63 - 1 :: int}" using assms by (intro card_mono) simp_all
  then show "int (card X) \<le> 2 ^ 63 - 1" by simp
qed

lemma recordSignature_set:
  assumes "bitset_ok B" and "decodable B s" and "0 \<le> idx" and "idx < 2 ^ 63 - 1"
    and "missedSet B s a \<subseteq> {0 ..< 2 ^ 63 - 1}" and "si_MissedBlocksCounter i = int (card (missedSet B s a))"
  obtains s' where
    "recordSignature B s a idx missed i =
       Ok (i\<lparr>si_MissedBlocksCounter := int (card (missedSet B s' a))\<rparr>, s')"
    and "decodable B s'" and "s' = s\<lparr>ss_chunks := ss_chunks s'\<rparr>"
    and "\<And>a'. missedSet B s' a' = (if a' = a then (if missed then insert idx (missedSet B s a) else missedSet B s a - {idx})
                                     else missedSet B s a')"
proof -
  let ?M = "missedSet B s a"
  have fin: "finite ?M" using window_card(1) [OF assms(5)] .
  obtain prev where prev: "GetMissedBlockBitmapValue B s a idx = Ok prev" "prev \<longleftrightarrow> idx \<in> ?M"
    using getMissed_bits [OF assms(1,2,3)] assms(3) by (simp add: missedSet_def)
  obtain s1 where s1: "SetMissedBlockBitmapValue B s a idx missed = Ok s1" "decodable B s1"
    and set: "\<And>a'. missedSet B s1 a' = (if a' = a then (if missed then insert idx ?M else ?M - {idx}) else missedSet B s a')"
    and fr: "s1 = s\<lparr>ss_chunks := ss_chunks s1\<rparr>"
    using set_missedSet [OF assms(1-3)] by blast
  show thesis
  proof (cases "prev = missed")
    case True
    then have r: "recordSignature B s a idx missed i = Ok (i\<lparr>si_MissedBlocksCounter := int (card ?M)\<rparr>, s)"
      unfolding recordSignature_def prev(1) using assms(6) [symmetric] by simp
    have same: "missedSet B s a' = (if a' = a then (if missed then insert idx ?M else ?M - {idx}) else missedSet B s a')" for a'
      using True prev(2) by auto
    show ?thesis by (rule that [OF r assms(2) _ same]) simp
  next
    case False
    have ms: "missedSet B s1 a = (if missed then insert idx ?M else ?M - {idx})" using set [of a] by simp
    have "missedSet B s1 a \<subseteq> {0 ..< 2 ^ 63 - 1}"
      unfolding ms using assms(3,4,5) by (cases missed) (simp_all, blast)
    then have "int (card (missedSet B s1 a)) \<le> 2 ^ 63 - 1" by (rule window_card(2))
    then have "is_i64 (int (card (missedSet B s1 a)))" unfolding is_i64_def by simp
    moreover have "int (card (missedSet B s1 a)) = si_MissedBlocksCounter i + (if missed then 1 else -1)"
    proof (cases missed)
      case True
      then show ?thesis unfolding ms assms(6) using False prev(2) fin by simp
    next
      case no: False
      then have "idx \<in> ?M" using False prev(2) by simp
      then have "card ?M = Suc (card (?M - {idx}))" by (rule card.remove [OF fin])
      then show ?thesis unfolding ms assms(6) using no by simp
    qed
    ultimately have "recordSignature B s a idx missed i = Ok (i\<lparr>si_MissedBlocksCounter := int (card (missedSet B s1 a))\<rparr>, s1)"
      unfolding recordSignature_def prev(1) using False s1(1) by (cases missed) (simp_all add: i64_id)
    then show ?thesis using that s1(2) fr set by blast
  qed
qed

lemma punishDowntime_Ok:
  assumes "punishDowntime S ctx s a p i = Ok (i', s')"
  shows "(i' = i \<and> s' = s) \<or>
    (si_MissedBlocksCounter i' = 0 \<and> si_IndexOffset i' = 0 \<and> ss_infos s' = ss_infos s \<and>
     ss_chunks s' = ss_chunks (DeleteMissedBlockBitmap s a))"
  using assms unfolding punishDowntime_def
  by (auto simp: obind_Ok_iff Let_def emit_def DeleteMissedBlockBitmap_def split: option.splits if_splits)

lemma slash_ok_set:
  assumes "slash_ok B s" and "bitset_ok B" and "decodable B s'" and "ss_infos s' = ss_infos s"
    and "\<And>a'. a' \<noteq> a \<Longrightarrow> missedSet B s' a' = missedSet B s a'"
    and "missedSet B s' a \<subseteq> {0 ..< 2 ^ 63 - 1}" and "si_MissedBlocksCounter i = int (card (missedSet B s' a))"
    and "0 \<le> si_IndexOffset i"
  shows "slash_ok B (SetValidatorSigningInfo s' a i)"
proof -
  let ?t = "SetValidatorSigningInfo s' a i"
  have c: "ss_chunks ?t = ss_chunks s'" and g: "mget (ss_infos ?t) = (mget (ss_infos s))(a \<mapsto> i)"
    by (simp_all add: SetValidatorSigningInfo_def mget_put assms(4))
  have "counted B ?t a'" for a'
  proof (cases "a' = a")
    case True
    then show ?thesis unfolding counted_def missedSet_cong [OF c] using assms(6-8) g by simp
  next
    case False
    then show ?thesis using assms(1) unfolding counted_def missedSet_cong [OF c] assms(5) [OF False] slash_ok_def g
      by simp
  qed
  then show ?thesis using assms(3) by (simp add: slash_ok_def decodable_cong [OF c])
qed

lemma handle_Ok:
  assumes "HandleValidatorSignature B S ctx s a p missed = Ok s'"
    and "sk_IsValidatorJailed S (ss_staking s) a \<noteq> Ok True"
  obtains j j1 s1 j2 s2 where "mget (ss_infos s) a = Some j"
    and "recordSignature B s a (goRem (si_IndexOffset j) (SignedBlocksWindow S s)) missed
        (j\<lparr>si_IndexOffset := i64 (si_IndexOffset j + 1)\<rparr>) = Ok (j1, s1)"
    and "(j2 = j1 \<and> s2 = noteMissed ctx s1 a missed j1) \<or>
        punishDowntime S ctx (noteMissed ctx s1 a missed j1) a p j1 = Ok (j2, s2)"
    and "s' = SetValidatorSigningInfo s2 a j2"
proof -
  from assms obtain j where j: "mget (ss_infos s) a = Some j" and w: "SignedBlocksWindow S s \<noteq> 0"
    unfolding HandleValidatorSignature_def GetValidatorSigningInfo_def Let_def
    by (fastforce simp: obind_Ok_iff split: if_splits)
  have nj: "sk_IsValidatorJailed S (ss_staking s) a = Ok False"
    using assms by (cases "sk_IsValidatorJailed S (ss_staking s) a") (auto simp: HandleValidatorSignature_def)
  show thesis
    using assms(1) j w nj that unfolding HandleValidatorSignature_def GetValidatorSigningInfo_def Let_def
    by (simp add: obind_Ok_iff split: if_splits) blast+
qed

text \<open>
  What a call does when the validator is not jailed: the bit of the block and the counter are
  recorded, then the validator may be punished, then the signing info is stored.
\<close>

lemma handle_steps:
  assumes B: "bitset_ok B" and ok: "slash_ok B s" and off: "offsets_below n s" "n \<le> 2 ^ 63 - 1"
    and w: "0 < SignedBlocksWindow S s" "SignedBlocksWindow S s < 2 ^ 63"
    and h: "HandleValidatorSignature B S ctx s a p missed = Ok s'"
    and jailed: "sk_IsValidatorJailed S (ss_staking s) a \<noteq> Ok True"
  obtains i s2 i2 s3 i3 where "mget (ss_infos s) a = Some i" and "s' = SetValidatorSigningInfo s3 a i3"
    and "decodable B s2" and "ss_infos s2 = ss_infos s"
    and "\<And>a'. missedSet B s2 a' =
      (if a' = a then (let idx = si_IndexOffset i mod SignedBlocksWindow S s
                       in if missed then insert idx (missedSet B s a) else missedSet B s a - {idx})
       else missedSet B s a')"
    and "missedSet B s2 a \<subseteq> {0 ..< 2 ^ 63 - 1}"
    and "si_MissedBlocksCounter i2 = int (card (missedSet B s2 a))" and "si_IndexOffset i2 = si_IndexOffset i + 1"
    and "(i3 = i2 \<and> s3 = s2) \<or> punishDowntime S ctx s2 a p i2 = Ok (i3, s3)"
proof -
  obtain i j1 t j2 t2 where i: "mget (ss_infos s) a = Some i"
    and rec: "recordSignature B s a (goRem (si_IndexOffset i) (SignedBlocksWindow S s)) missed
        (i\<lparr>si_IndexOffset := i64 (si_IndexOffset i + 1)\<rparr>) = Ok (j1, t)"
    and or: "(j2 = j1 \<and> t2 = noteMissed ctx t a missed j1) \<or>
        punishDowntime S ctx (noteMissed ctx t a missed j1) a p j1 = Ok (j2, t2)"
    and s': "s' = SetValidatorSigningInfo t2 a j2"
    using handle_Ok [OF h jailed] by metis
  define idx where "idx = si_IndexOffset i mod SignedBlocksWindow S s"
  define i1 where "i1 = i\<lparr>si_IndexOffset := i64 (si_IndexOffset i + 1)\<rparr>"
  have cnt: "missedSet B s a \<subseteq> {0 ..< 2 ^ 63 - 1}" "si_MissedBlocksCounter i1 = int (card (missedSet B s a))"
    "0 \<le> si_IndexOffset i" "si_IndexOffset i < n" "decodable B s"
    using ok i off(1) unfolding slash_ok_def counted_def offsets_below_def i1_def by (auto split: option.splits)
  have "idx < SignedBlocksWindow S s" using pos_mod_bound [OF w(1)] by (simp add: idx_def)
  then have idx3: "idx < 2 ^ 63 - 1" using w(2) by linarith
  have idx: "goRem (si_IndexOffset i) (SignedBlocksWindow S s) = idx" "0 \<le> idx" "idx < 2 ^ 63 - 1"
    using w(1) idx3 goRem_nonneg [OF cnt(3) w(1)] by (simp_all add: idx_def)
  have o1: "si_IndexOffset i1 = si_IndexOffset i + 1"
    unfolding i1_def using cnt(3,4) off(2) by (simp add: i64_id is_i64_def)
  obtain s1 where r: "recordSignature B s a idx missed i1 =
      Ok (i1\<lparr>si_MissedBlocksCounter := int (card (missedSet B s1 a))\<rparr>, s1)"
    and s1: "decodable B s1" "s1 = s\<lparr>ss_chunks := ss_chunks s1\<rparr>"
    and m: "\<And>a'. missedSet B s1 a' = (if a' = a then (if missed then insert idx (missedSet B s a) else missedSet B s a - {idx})
                                       else missedSet B s a')"
    using recordSignature_set [OF B cnt(5) idx(2,3) cnt(1,2)] by metis
  define i2 where "i2 = i1\<lparr>si_MissedBlocksCounter := int (card (missedSet B s1 a))\<rparr>"
  define s2 where "s2 = noteMissed ctx s1 a missed i2"
  have c2: "ss_chunks s2 = ss_chunks s1" by (simp add: s2_def noteMissed_def emit_def)
  have "ss_infos s1 = ss_infos s" by (subst s1(2)) simp
  then have i2s: "ss_infos s2 = ss_infos s" by (simp add: s2_def noteMissed_def emit_def)
  have sub: "missedSet B s2 a \<subseteq> {0 ..< 2 ^ 63 - 1}"
    unfolding missedSet_cong [OF c2] using m [of a] cnt(1) idx(2,3) by auto
  have "(j1, t) = (i2, s1)" using rec r unfolding idx(1) i1_def [symmetric] i2_def [symmetric] by simp
  then have "j1 = i2" "t = s1" by simp_all
  then have or2: "(j2 = i2 \<and> t2 = s2) \<or> punishDowntime S ctx s2 a p i2 = Ok (j2, t2)"
    using or by (simp add: s2_def)
  show thesis
    by (rule that [OF i s' _ i2s _ sub _ _ or2])
      (use s1(1) m o1 c2 in \<open>simp_all add: decodable_cong [OF c2] missedSet_cong [OF c2] i2_def Let_def idx_def\<close>)
qed

lemma handle_ok:
  assumes B: "bitset_ok B" and ok: "slash_ok B s" and off: "offsets_below n s" "n \<le> 2 ^ 63 - 1"
    and w: "0 < SignedBlocksWindow S s" "SignedBlocksWindow S s < 2 ^ 63"
    and h: "HandleValidatorSignature B S ctx s a p missed = Ok s'"
  shows "slash_ok B s' \<and> offsets_below (n + 1) s'"
proof (cases "sk_IsValidatorJailed S (ss_staking s) a = Ok True")
  case True
  then have "s' = s" using h by (simp add: HandleValidatorSignature_def)
  then show ?thesis using ok off(1) by (fastforce simp: offsets_below_def)
next
  case False
  obtain i s2 i2 s3 i3 where i: "mget (ss_infos s) a = Some i" and s': "s' = SetValidatorSigningInfo s3 a i3"
    and d: "decodable B s2" and inf: "ss_infos s2 = ss_infos s"
    and m: "\<And>a'. a' \<noteq> a \<Longrightarrow> missedSet B s2 a' = missedSet B s a'"
    and sub: "missedSet B s2 a \<subseteq> {0 ..< 2 ^ 63 - 1}"
    and c: "si_MissedBlocksCounter i2 = int (card (missedSet B s2 a))" and o: "si_IndexOffset i2 = si_IndexOffset i + 1"
    and or: "(i3 = i2 \<and> s3 = s2) \<or> punishDowntime S ctx s2 a p i2 = Ok (i3, s3)"
    by (rule handle_steps [OF assms False]) (erule that, assumption+, simp_all)
  have pos: "0 \<le> si_IndexOffset i" "si_IndexOffset i < n"
    using ok off(1) i unfolding slash_ok_def counted_def offsets_below_def by (auto split: option.splits)
  have below: "offsets_below (n + 1) s'" if "si_IndexOffset i3 \<le> n" and "ss_infos s3 = ss_infos s"
  proof -
    have "mget (ss_infos s') = (mget (ss_infos s))(a \<mapsto> i3)"
      unfolding s' SetValidatorSigningInfo_def that(2) [symmetric] by (simp add: mget_put)
    moreover have "si_IndexOffset j < n + 1" if "mget (ss_infos s) b = Some j" for b j
      using off(1) that unfolding offsets_below_def by fastforce
    ultimately show ?thesis using that(1) unfolding offsets_below_def by simp
  qed
  consider "i3 = i2" "s3 = s2"
    | "si_MissedBlocksCounter i3 = 0" "si_IndexOffset i3 = 0" "ss_infos s3 = ss_infos s2"
      "ss_chunks s3 = ss_chunks (DeleteMissedBlockBitmap s2 a)"
    using or punishDowntime_Ok by blast
  then show ?thesis
  proof cases
    case 1
    then show ?thesis using slash_ok_set [OF ok B d inf m sub c] below o pos inf s' by simp
  next
    case 2
    note del = delete_missedSet [OF B d, of a]
    have "slash_ok B s'" unfolding s'
      by (rule slash_ok_set [OF ok B])
        (use 2 del m inf in \<open>simp_all add: missedSet_cong [OF 2(4)] decodable_cong [OF 2(4)]\<close>)
    then show ?thesis using below 2 pos inf by simp
  qed
qed

section \<open>Runs of the module\<close>

text \<open>
  The ways the module's store changes: the begin blocker, the staking hooks, the calls of the
  evidence module, and the two messages. \<open>n\<close> counts the votes that were handled.
\<close>

inductive slash_reach ::
    "'b bitsetLib \<Rightarrow> ('k, 'v, 'd) stakingKeeper \<Rightarrow> string \<Rightarrow> ('k, 'd) slashing \<Rightarrow> nat \<Rightarrow> ('k, 'd) slashing \<Rightarrow> bool"
  for B S authority s0 where
  start: "slash_reach B S authority s0 0 s0"
| block: "slash_reach B S authority s0 n s \<Longrightarrow> BeginBlocker B S ctx s votes = Ok s' \<Longrightarrow>
    slash_reach B S authority s0 (n + length votes) s'"
| bonded: "slash_reach B S authority s0 n s \<Longrightarrow> slash_reach B S authority s0 n (AfterValidatorBonded ctx s a)"
| removed: "slash_reach B S authority s0 n s \<Longrightarrow> slash_reach B S authority s0 n (AfterValidatorRemoved s a)"
| created: "slash_reach B S authority s0 n s \<Longrightarrow> AfterValidatorCreated S s v = Ok s' \<Longrightarrow> slash_reach B S authority s0 n s'"
| jailUntil: "slash_reach B S authority s0 n s \<Longrightarrow> JailUntil s a t = Ok s' \<Longrightarrow> slash_reach B S authority s0 n s'"
| tombstone: "slash_reach B S authority s0 n s \<Longrightarrow> Tombstone s a = Ok s' \<Longrightarrow> slash_reach B S authority s0 n s'"
| slash: "slash_reach B S authority s0 n s \<Longrightarrow> SlashWithInfractionReason S s a f p h r = Ok s' \<Longrightarrow>
    slash_reach B S authority s0 n s'"
| jail: "slash_reach B S authority s0 n s \<Longrightarrow> Jail S s a = Ok s' \<Longrightarrow> slash_reach B S authority s0 n s'"
| unjail: "slash_reach B S authority s0 n s \<Longrightarrow> msg_Unjail S ctx s v = Ok s' \<Longrightarrow> slash_reach B S authority s0 n s'"
| params: "slash_reach B S authority s0 n s \<Longrightarrow> msg_UpdateParams S authority s req p = Ok s' \<Longrightarrow> slash_reach B S authority s0 n s'"
| staking: "slash_reach B S authority s0 n s \<Longrightarrow> slash_reach B S authority s0 n (s\<lparr>ss_staking := k\<rparr>)"

text \<open>\<open>Params.Validate\<close> of the SDK rejects a window that is not positive; windows are 64-bit.\<close>

definition params_checked :: "('k, 'v, 'd) stakingKeeper \<Rightarrow> bool" where
  "params_checked S \<longleftrightarrow> (\<forall>p. sp_Validate S p \<longrightarrow> 0 < sp_SignedBlocksWindow p \<and> sp_SignedBlocksWindow p < 2 ^ 63)"

definition window_ok :: "('k, 'v, 'd) stakingKeeper \<Rightarrow> ('k, 'd) slashing \<Rightarrow> bool" where
  "window_ok S s \<longleftrightarrow> 0 < SignedBlocksWindow S s \<and> SignedBlocksWindow S s < 2 ^ 63"

lemma slash_ok_frame:
  assumes "ss_chunks s' = ss_chunks s" and "ss_infos s' = ss_infos s"
  shows "slash_ok B s' = slash_ok B s" and "offsets_below n s' = offsets_below n s"
  unfolding slash_ok_def counted_def decodable_cong [OF assms(1)] missedSet_cong [OF assms(1)] offsets_below_def assms(2)
  by (rule refl)+

lemma slash_ok_info:
  assumes "bitset_ok B" and "slash_ok B s" and "offsets_below n s" and "0 < n"
    and "case mget (ss_infos s) a of
        None \<Rightarrow> si_MissedBlocksCounter i = 0 \<and> si_IndexOffset i = 0
      | Some j \<Rightarrow> si_MissedBlocksCounter i = si_MissedBlocksCounter j \<and> si_IndexOffset i = si_IndexOffset j"
  shows "slash_ok B (SetValidatorSigningInfo s a i)" and "offsets_below n (SetValidatorSigningInfo s a i)"
proof -
  have c: "counted B s a" and d: "decodable B s" using assms(2) by (simp_all add: slash_ok_def)
  show "slash_ok B (SetValidatorSigningInfo s a i)"
    by (rule slash_ok_set [OF assms(2,1) d])
      (use c assms(5) in \<open>auto simp: counted_def split: option.splits\<close>)
  have "mget (ss_infos (SetValidatorSigningInfo s a i)) = (mget (ss_infos s))(a \<mapsto> i)"
    by (simp add: SetValidatorSigningInfo_def mget_put)
  moreover have "si_IndexOffset i < n"
    using assms(3-5) unfolding offsets_below_def by (cases "mget (ss_infos s) a") simp_all
  ultimately show "offsets_below n (SetValidatorSigningInfo s a i)"
    using assms(3) unfolding offsets_below_def by simp
qed

lemma record_params: "recordSignature B s a i m j = Ok (j', s') \<Longrightarrow> ss_params s' = ss_params s"
  unfolding recordSignature_def SetMissedBlockBitmapValue_def Let_def
  by (auto simp: obind_Ok_iff setMissedBlockBitmapChunk_def split: if_splits)

lemma punish_params: "punishDowntime S ctx s a q j = Ok (j', s') \<Longrightarrow> ss_params s' = ss_params s"
  unfolding punishDowntime_def
  by (auto simp: obind_Ok_iff Let_def emit_def DeleteMissedBlockBitmap_def split: option.splits if_splits)

lemma handle_params:
  assumes "HandleValidatorSignature B S ctx s a p missed = Ok s'"
  shows "ss_params s' = ss_params s"
proof (cases "sk_IsValidatorJailed S (ss_staking s) a = Ok True")
  case True
  then show ?thesis using assms by (simp add: HandleValidatorSignature_def)
next
  case False
  obtain j j1 s1 j2 s2 where r: "recordSignature B s a (goRem (si_IndexOffset j) (SignedBlocksWindow S s)) missed
        (j\<lparr>si_IndexOffset := i64 (si_IndexOffset j + 1)\<rparr>) = Ok (j1, s1)"
    and s2: "(j2 = j1 \<and> s2 = noteMissed ctx s1 a missed j1) \<or>
        punishDowntime S ctx (noteMissed ctx s1 a missed j1) a p j1 = Ok (j2, s2)"
    and s': "s' = SetValidatorSigningInfo s2 a j2"
    using handle_Ok [OF assms False] by metis
  have "ss_params s2 = ss_params s1"
    using s2 by (auto simp: emit_def noteMissed_def dest: punish_params split: if_splits)
  then show ?thesis using record_params [OF r] by (simp add: s' SetValidatorSigningInfo_def)
qed

lemma window_ok_params: "ss_params s' = ss_params s \<Longrightarrow> window_ok S s' = window_ok S s"
  by (simp add: window_ok_def SignedBlocksWindow_def GetParams_def)

lemma block_ok:
  assumes "bitset_ok B" and "slash_ok B s" and "offsets_below n s" and "n + int (length votes) \<le> 2 ^ 63 - 1"
    and "window_ok S s" and "BeginBlocker B S ctx s votes = Ok s'"
  shows "slash_ok B s' \<and> offsets_below (n + int (length votes)) s' \<and> window_ok S s'"
  using assms(2-)
proof (induction votes arbitrary: s n)
  case (Cons vt votes)
  obtain a p m where vt: "vt = (a, p, m)" by (cases vt)
  from Cons(6) obtain s1 where s1: "HandleValidatorSignature B S ctx s a p m = Ok s1" and rest: "BeginBlocker B S ctx s1 votes = Ok s'"
    by (auto simp: vt obind_Ok_iff)
  have "slash_ok B s1 \<and> offsets_below (n + 1) s1"
    using handle_ok [OF assms(1) Cons(2,3) _ _ _ s1] Cons(4,5) by (simp add: window_ok_def)
  moreover have "window_ok S s1" using Cons(5) window_ok_params handle_params [OF s1] by blast
  ultimately show ?case using Cons(1) [OF _ _ _ _ rest, of "n + 1"] Cons(4) by (simp add: add.assoc)
qed simp

lemma bonded_info:
  assumes "bitset_ok B" and "slash_ok B s" and "offsets_below n s" and "0 < n"
  shows "slash_ok B (AfterValidatorBonded ctx s a)" and "offsets_below n (AfterValidatorBonded ctx s a)"
  unfolding AfterValidatorBonded_def
  by (rule slash_ok_info [OF assms];
      simp add: GetValidatorSigningInfo_def orFail_def split: option.splits)+

lemma jailUntil_tombstone_info:
  assumes "bitset_ok B" and "slash_ok B s" and "offsets_below n s" and "0 < n"
    and "JailUntil s a t = Ok s' \<or> Tombstone s a = Ok s'"
  shows "slash_ok B s'" and "offsets_below n s'" and "ss_params s' = ss_params s"
proof -
  obtain i j where i: "mget (ss_infos s) a = Some i" and s': "s' = SetValidatorSigningInfo s a j"
    and j: "si_MissedBlocksCounter j = si_MissedBlocksCounter i" "si_IndexOffset j = si_IndexOffset i"
    using assms(5) unfolding JailUntil_def Tombstone_def GetValidatorSigningInfo_def
    by (auto simp: obind_Ok_iff)
  show "slash_ok B s'" and "offsets_below n s'"
    unfolding s' by (rule slash_ok_info [OF assms(1-4)]; simp add: i j)+
  show "ss_params s' = ss_params s" by (simp add: s' SetValidatorSigningInfo_def)
qed

lemma staking_frames:
  shows "AfterValidatorCreated S s v = Ok s' \<Longrightarrow> ss_chunks s' = ss_chunks s \<and> ss_infos s' = ss_infos s \<and> ss_params s' = ss_params s"
    and "SlashWithInfractionReason S s a f p h r = Ok s' \<Longrightarrow> ss_chunks s' = ss_chunks s \<and> ss_infos s' = ss_infos s \<and> ss_params s' = ss_params s"
    and "Jail S s a = Ok s' \<Longrightarrow> ss_chunks s' = ss_chunks s \<and> ss_infos s' = ss_infos s \<and> ss_params s' = ss_params s"
    and "Unjail S ctx s a = Ok s' \<Longrightarrow> ss_chunks s' = ss_chunks s \<and> ss_infos s' = ss_infos s \<and> ss_params s' = ss_params s"
    and "ss_chunks (AfterValidatorRemoved s a) = ss_chunks s \<and> ss_infos (AfterValidatorRemoved s a) = ss_infos s \<and>
      ss_params (AfterValidatorRemoved s a) = ss_params s"
  unfolding AfterValidatorCreated_def SlashWithInfractionReason_def Jail_def Unjail_def AfterValidatorRemoved_def
    deleteAddrPubkeyRelation_def AddPubkey_def emit_def
  by (auto simp: obind_Ok_iff)

lemma slash_reach_ok:
  assumes "slash_reach B S authority s0 n s" and "bitset_ok B" and "params_checked S"
    and "ss_infos s0 = mempty" and "ss_chunks s0 = mempty" and "window_ok S s0"
    and "int n < 2 ^ 63 - 1"
  shows "slash_ok B s \<and> offsets_below (int n + 1) s \<and> window_ok S s"
  using assms(1,7)
proof induction
  case start
  have "decodable B s0" by (simp add: decodable_def assms(5))
  moreover have "missedSet B s0 a = {}" for a
    unfolding missedSet_def using getMissed_bits [OF assms(2) calculation] bitset_okD(3) [OF assms(2)]
    by (auto simp: chunkBits_def assms(5))
  ultimately show ?case using assms(6) by (simp add: slash_ok_def counted_def offsets_below_def assms(4))
next
  case (block n s ctx votes s')
  then have "slash_ok B s \<and> offsets_below (int n + 1) s \<and> window_ok S s" by simp
  then show ?case using block_ok [OF assms(2) _ _ _ _ block(2), of "int n + 1"] block(4) by (simp add: algebra_simps)
next
  case (bonded n s ctx a)
  then have "slash_ok B s \<and> offsets_below (int n + 1) s \<and> window_ok S s" by simp
  moreover have "ss_params (AfterValidatorBonded ctx s a) = ss_params s"
    by (simp add: AfterValidatorBonded_def SetValidatorSigningInfo_def)
  ultimately show ?case using bonded_info [OF assms(2), of s "int n + 1"] window_ok_params by fastforce
next
  case (removed n s a)
  then show ?case using staking_frames(5) slash_ok_frame window_ok_params by metis
next
  case (created n s v s')
  then show ?case using staking_frames(1) [OF created(2)] slash_ok_frame window_ok_params by metis
next
  case (jailUntil n s a t s')
  then have "slash_ok B s" "offsets_below (int n + 1) s" "window_ok S s" by simp_all
  with jailUntil_tombstone_info [OF assms(2), of s "int n + 1" a t s'] jailUntil(2) show ?case
    using window_ok_params by fastforce
next
  case (tombstone n s a s')
  then have "slash_ok B s" "offsets_below (int n + 1) s" "window_ok S s" by simp_all
  with jailUntil_tombstone_info [OF assms(2), of s "int n + 1" a undefined s'] tombstone(2) show ?case
    using window_ok_params by fastforce
next
  case (slash n s a f p h r s')
  then show ?case using staking_frames(2) [OF slash(2)] slash_ok_frame window_ok_params by metis
next
  case (jail n s a s')
  then show ?case using staking_frames(3) [OF jail(2)] slash_ok_frame window_ok_params by metis
next
  case (unjail n s ctx v s')
  then obtain a where "Unjail S ctx s a = Ok s'" by (auto simp: msg_Unjail_def obind_Ok_iff)
  then show ?case using staking_frames(4) unjail slash_ok_frame window_ok_params by metis
next
  case (params n s req p s')
  then have s': "s' = SetParams s p" and "sp_Validate S p" by (auto simp: msg_UpdateParams_def obind_Ok_iff)
  then have "window_ok S s'" using assms(3)
    by (simp add: window_ok_def params_checked_def SignedBlocksWindow_def GetParams_def SetParams_def)
  moreover have "ss_chunks s' = ss_chunks s" "ss_infos s' = ss_infos s" by (simp_all add: s' SetParams_def)
  moreover have "slash_ok B s" "offsets_below (int n + 1) s" using params by simp_all
  ultimately show ?case using slash_ok_frame by metis
next
  case (staking n s k)
  moreover have "ss_chunks (s\<lparr>ss_staking := k\<rparr>) = ss_chunks s" "ss_infos (s\<lparr>ss_staking := k\<rparr>) = ss_infos s"
    "ss_params (s\<lparr>ss_staking := k\<rparr>) = ss_params s" by simp_all
  ultimately show ?case using slash_ok_frame window_ok_params by metis
qed

end
