(* ===== verification/Slashing_Properties.thy ===== *)
theory Slashing_Properties
  imports Slashing
begin

text \<open>
  The properties of the slashing module, and a small bitset library and staking keeper for their witnesses.
\<close>

section \<open>The example\<close>

text \<open>A bitset is the list of its members, stored in unary.\<close>

fun unUnary :: "nat \<Rightarrow> bytes \<Rightarrow> nat list" where
  "unUnary k [] = []"
| "unUnary k (c # cs) = (if c = CHR ''1'' then unUnary (k + 1) cs else k # unUnary 0 cs)"

definition unary :: "nat list \<Rightarrow> bytes" where
  "unary b = concat (map (\<lambda>n. replicate n CHR ''1'' @ ''0'') b)"

lemma unUnary_replicate: "unUnary k (replicate n CHR ''1'' @ CHR ''0'' # r) = (k + n) # unUnary 0 r"
  by (induction n arbitrary: k) simp_all

lemma unUnary_unary: "unUnary 0 (unary b) = b"
  by (induction b) (simp_all add: unary_def unUnary_replicate)

definition ex_bits :: "nat list bitsetLib" where
  "ex_bits = \<lparr>bs_New = [], bs_Test = (\<lambda>b i. i \<in> set b), bs_Set = (\<lambda>b i. i # b), bs_Clear = (\<lambda>b i. filter (\<lambda>j. j \<noteq> i) b),
     bs_MarshalBinary = (\<lambda>b. Some (unary b)), bs_UnmarshalBinary = (\<lambda>_ c. Some (unUnary 0 c)),
     MissedBlockBitmapChunkSize = 4, chunkKey = (\<lambda>i. [char_of (nat i)])\<rparr>"

lemma ex_bits_ok: "bitset_ok ex_bits"
  by (auto simp: bitset_ok_def ex_bits_def unUnary_unary)

definition ex_params :: "int SlashingParams" where
  "ex_params = \<lparr>sp_SignedBlocksWindow = 8, sp_MinSignedPerWindow = 8, sp_DowntimeJailDuration = 100,
     sp_SlashFractionDoubleSign = 1, sp_SlashFractionDowntime = 1\<rparr>"

text \<open>The staking keeper of the example is the list of the jailed validators; a validator knows whether it is one.\<close>

definition ex_staking :: "(bytes list, bytes \<times> bool, int) stakingKeeper" where
  "ex_staking = \<lparr>sk_IsValidatorJailed = (\<lambda>k a. Ok (a \<in> set k)), sk_ValidatorByConsAddr = (\<lambda>k a. Ok (Some (a, a \<in> set k))),
     sk_Validator = (\<lambda>k a. Ok (Some (a, a \<in> set k))), sk_Validators = (\<lambda>_. []), sk_Delegation = (\<lambda>_ _ _. Ok (Some 1)),
     sk_VotingPower = (\<lambda>_ d. Ok d), sk_VotingPowerToConsensusPower = (\<lambda>_ p. p),
     sk_SlashWithInfractionReason = (\<lambda>k _ _ _ _. Ok ('''', k)), sk_Jail = (\<lambda>k a. Ok (a # k)),
     sk_Unjail = (\<lambda>k a. Ok (filter (\<lambda>b. b \<noteq> a) k)),
     sk_AddressStringToBytes = Some, sk_AddressString = (\<lambda>a. a), sk_ValAddressFromBech32 = Some,
     v_IsJailed = snd, v_GetConsAddr = (\<lambda>v. Ok (fst v)), v_ConsPubKey = (\<lambda>v. Ok (fst v)), v_TokensFromShares = (\<lambda>_ d. d),
     pk_Address = (\<lambda>p. p), dec_MulInt64_RoundInt64 = (\<lambda>d i. d),
     sp_Validate = (\<lambda>p. 0 < sp_SignedBlocksWindow p \<and> sp_SignedBlocksWindow p < 2 ^ 63), sp_Zero = ex_params\<rparr>"

definition ex_slash :: "(bytes list, int) slashing" where
  "ex_slash = \<lparr>ss_infos = mempty, ss_chunks = mempty, ss_pubkeys = mempty, ss_params = Some ex_params, ss_staking = [],
     ss_events = []\<rparr>"

lemma ex_slash_ok: "params_checked ex_staking" "ss_infos ex_slash = mempty" "ss_chunks ex_slash = mempty"
    "window_ok ex_staking ex_slash"
  by (simp_all add: params_checked_def ex_staking_def ex_slash_def window_ok_def SignedBlocksWindow_def GetParams_def
      ex_params_def)

section \<open>The missed-block counter\<close>

text \<open>
  C33: in every state that begin blockers, staking hooks, evidence handling and messages reach from an
  empty store, the missed-blocks counter of a validator is the number of set bits of its bitmap. The
  number of votes handled so far is below \<open>2 ^ 63 - 1\<close>, so the index offset has not wrapped.
\<close>

theorem missed_counter_exact:
  assumes "slash_reach B S authority s0 n s" and "bitset_ok B" and "params_checked S"
    and "ss_infos s0 = mempty" and "ss_chunks s0 = mempty" and "window_ok S s0" and "int n < 2 ^ 63 - 1"
    and "mget (ss_infos s) a = Some i"
  shows "si_MissedBlocksCounter i = int (card (missedSet B s a))"
  using slash_reach_ok [OF assms(1-7)] assms(8) by (auto simp: slash_ok_def counted_def split: option.splits)

definition ex_block :: "(bytes list, int) slashing sres" where
  "ex_block = BeginBlocker ex_bits ex_staking \<lparr>bc_Height = 2, bc_Time = 0\<rparr>
     (AfterValidatorBonded \<lparr>bc_Height = 1, bc_Time = 0\<rparr> ex_slash ''v'') [(''v'', 1, True)]"

lemma ex_block_counter:
  "(case ex_block of Ok s \<Rightarrow> map_option si_MissedBlocksCounter (mget (ss_infos s) ''v'') = Some 1 | _ \<Rightarrow> False)"
  by code_simp

theorem missed_counter_exact_witness:
  "\<exists>s. ex_block = Ok s \<and> card (missedSet ex_bits s ''v'') = 1"
proof -
  obtain s where s: "ex_block = Ok s" "map_option si_MissedBlocksCounter (mget (ss_infos s) ''v'') = Some 1"
    using ex_block_counter by (auto split: outcome.splits)
  then obtain i where i: "mget (ss_infos s) ''v'' = Some i" "si_MissedBlocksCounter i = 1" by auto
  have "slash_reach ex_bits ex_staking '''' ex_slash (0 + length [(''v'', 1 :: int, True)]) s"
    by (rule block [OF bonded [OF start]]) (rule s(1) [unfolded ex_block_def])
  from missed_counter_exact [OF this ex_bits_ok ex_slash_ok _ i(1)] have "card (missedSet ex_bits s ''v'') = 1" using i(2) by simp
  with s(1) show ?thesis by blast
qed

lemma punishDowntime_fires:
  assumes "sk_ValidatorByConsAddr S (ss_staking s) a = Ok (Some v)" and "\<not> v_IsJailed S v"
    and "sk_SlashWithInfractionReason S (ss_staking s) a (i64 (bc_Height ctx - 2)) (SlashFractionDowntime S s)
           INFRACTION_DOWNTIME = Ok (burned, k1)" and "sk_Jail S k1 a = Ok k2"
  shows "\<exists>s'. punishDowntime S ctx s a p i =
      Ok (i\<lparr>si_JailedUntil := bc_Time ctx + DowntimeJailDuration S s, si_MissedBlocksCounter := 0, si_IndexOffset := 0\<rparr>, s') \<and>
    ss_staking s' = k2 \<and> ss_chunks s' = ss_chunks (DeleteMissedBlockBitmap s a)"
  unfolding punishDowntime_def using assms
  by (simp add: ValidatorUpdateDelay_def Let_def emit_def DowntimeJailDuration_def GetParams_def DeleteMissedBlockBitmap_def)

text \<open>
  C34: the liveness rule. In a reachable state, handling the vote of a validator that is not jailed
  sets or clears the bit of its index. The validator is slashed and jailed exactly if it is past its
  first window and more of its blocks are missed than the window allows; then its bitmap is emptied
  and its counter and offset restart at zero. Otherwise the counter becomes the number of set bits,
  the offset advances by one, and the staking keeper is left alone.
\<close>

theorem downtime_rule:
  assumes "slash_reach B S authority s0 n s" and "bitset_ok B" and "params_checked S"
    and "ss_infos s0 = mempty" and "ss_chunks s0 = mempty" and "window_ok S s0" and "int n < 2 ^ 63 - 1"
    and "mget (ss_infos s) a = Some i" and "sk_IsValidatorJailed S (ss_staking s) a = Ok False"
    and "sk_ValidatorByConsAddr S (ss_staking s) a = Ok (Some v)" and "\<not> v_IsJailed S v"
    and "sk_SlashWithInfractionReason S (ss_staking s) a (i64 (bc_Height ctx - 2)) (SlashFractionDowntime S s)
           INFRACTION_DOWNTIME = Ok (burned, k1)" and "sk_Jail S k1 a = Ok k2"
    and "w = SignedBlocksWindow S s" and "0 \<le> MinSignedPerWindow S s" and "MinSignedPerWindow S s < 2 ^ 63"
    and "0 \<le> si_StartHeight i" and "si_StartHeight i + w < 2 ^ 63"
    and "M = (if missed then insert (si_IndexOffset i mod w) (missedSet B s a)
              else missedSet B s a - {si_IndexOffset i mod w})"
  shows "\<exists>s' j. HandleValidatorSignature B S ctx s a p missed = Ok s' \<and> mget (ss_infos s') a = Some j \<and>
    (if si_StartHeight i + w < bc_Height ctx \<and> w - MinSignedPerWindow S s < int (card M)
     then ss_staking s' = k2 \<and> missedSet B s' a = {} \<and>
          j = i\<lparr>si_JailedUntil := bc_Time ctx + DowntimeJailDuration S s, si_MissedBlocksCounter := 0, si_IndexOffset := 0\<rparr>
     else ss_staking s' = ss_staking s \<and> missedSet B s' a = M \<and>
          j = i\<lparr>si_MissedBlocksCounter := int (card M), si_IndexOffset := si_IndexOffset i + 1\<rparr>)"
proof -
  have ok: "slash_ok B s" "offsets_below (int n + 1) s" "window_ok S s" using slash_reach_ok [OF assms(1-7)] by auto
  then have cnt: "missedSet B s a \<subseteq> {0 ..< 2 ^ 63 - 1}" "si_MissedBlocksCounter i = int (card (missedSet B s a))"
    "0 \<le> si_IndexOffset i" "si_IndexOffset i < 2 ^ 63 - 1" "decodable B s" and w: "0 < w" "w < 2 ^ 63"
    using assms(7,8,14) unfolding slash_ok_def counted_def offsets_below_def window_ok_def
    by (force split: option.splits)+
  define idx where "idx = si_IndexOffset i mod w"
  have idx: "0 \<le> idx" "idx < w" "goRem (si_IndexOffset i) w = idx"
    using w(1) goRem_nonneg [OF cnt(3) w(1)] by (simp_all add: idx_def)
  have o: "i64 (si_IndexOffset i + 1) = si_IndexOffset i + 1" using cnt(3,4) by (simp add: i64_id is_i64_def)
  define i0 where "i0 = i\<lparr>si_IndexOffset := si_IndexOffset i + 1\<rparr>"
  have lt: "idx < 2 ^ 63 - 1" and c0: "si_MissedBlocksCounter i0 = int (card (missedSet B s a))"
    using idx(2) w(2) cnt(2) by (simp_all add: i0_def)
  obtain s1 where r: "recordSignature B s a idx missed i0 =
      Ok (i0\<lparr>si_MissedBlocksCounter := int (card (missedSet B s1 a))\<rparr>, s1)"
    and d: "decodable B s1" and s1: "s1 = s\<lparr>ss_chunks := ss_chunks s1\<rparr>"
    and ms: "\<And>a'. missedSet B s1 a' = (if a' = a then (if missed then insert idx (missedSet B s a) else missedSet B s a - {idx})
                                       else missedSet B s a')"
    by (rule recordSignature_set [OF assms(2) cnt(5) idx(1) lt cnt(1) c0, of missed]) (rule that)
  have m: "missedSet B s1 a = M" using ms [of a] unfolding assms(19) idx_def by simp
  have fr: "ss_params s1 = ss_params s" "ss_staking s1 = ss_staking s" by (subst s1, simp)+
  let ?i1 = "i0\<lparr>si_MissedBlocksCounter := int (card M)\<rparr>"
  define s2 where "s2 = noteMissed ctx s1 a missed ?i1"
  have s2: "ss_params s2 = ss_params s" "ss_staking s2 = ss_staking s" "ss_chunks s2 = ss_chunks s1"
    using fr by (simp_all add: s2_def noteMissed_def emit_def)
  have par2: "SlashFractionDowntime S s2 = SlashFractionDowntime S s" "MinSignedPerWindow S s1 = MinSignedPerWindow S s"
    "DowntimeJailDuration S s2 = DowntimeJailDuration S s"
    using s2(1) fr(1) by (simp_all add: SlashFractionDowntime_def MinSignedPerWindow_def DowntimeJailDuration_def GetParams_def)
  obtain s3 where pun: "punishDowntime S ctx s2 a p ?i1 =
      Ok (i\<lparr>si_JailedUntil := bc_Time ctx + DowntimeJailDuration S s, si_MissedBlocksCounter := 0, si_IndexOffset := 0\<rparr>, s3)"
    and s3: "ss_staking s3 = k2" "ss_chunks s3 = ss_chunks (DeleteMissedBlockBitmap s2 a)"
    using punishDowntime_fires [of S s2 a v ctx burned k1 k2 p ?i1] assms(10-13) s2(2) par2(1,3) by (auto simp: i0_def)
  have g: "mget (ss_infos (SetValidatorSigningInfo t a j)) a = Some j" "ss_staking (SetValidatorSigningInfo t a j) = ss_staking t"
    "missedSet B (SetValidatorSigningInfo t a j) = missedSet B t" for t j
    by (simp_all add: SetValidatorSigningInfo_def mget_put, rule missedSet_cong, simp)
  have "missedSet B s3 a = {}"
    unfolding missedSet_cong [OF s3(2)] using delete_missedSet(2) [OF assms(2), of s2 a a] d
    unfolding decodable_cong [OF s2(3)] by simp
  moreover note s3(1)
  moreover have "i64 (si_StartHeight i + w) = si_StartHeight i + w"
    "i64 (w - MinSignedPerWindow S s) = w - MinSignedPerWindow S s"
    using w assms(15-18) by (simp_all add: i64_id is_i64_def)
  moreover have "missedSet B s2 a = M" unfolding missedSet_cong [OF s2(3)] by (fact m)
  moreover have st: "si_StartHeight i0 = si_StartHeight i" by (simp add: i0_def)
  moreover have "HandleValidatorSignature B S ctx s a p missed =
      (if i64 (si_StartHeight i + w) < bc_Height ctx \<and> i64 (w - MinSignedPerWindow S s) < int (card M)
       then Ok (SetValidatorSigningInfo s3 a (i\<lparr>si_JailedUntil := bc_Time ctx + DowntimeJailDuration S s,
                  si_MissedBlocksCounter := 0, si_IndexOffset := 0\<rparr>))
       else Ok (SetValidatorSigningInfo s2 a ?i1))"
    unfolding HandleValidatorSignature_def GetValidatorSigningInfo_def Let_def assms(8,9) assms(14) [symmetric]
    using w(1) pun by (simp add: idx(3) o i0_def [symmetric] r m par2(2) s2_def [symmetric] st)
  moreover have "?i1 = i\<lparr>si_MissedBlocksCounter := int (card M), si_IndexOffset := si_IndexOffset i + 1\<rparr>"
    by (simp add: i0_def)
  ultimately show ?thesis using s2(2) by (simp add: g)
qed

definition ex_bonded :: "(bytes list, int) slashing" where
  "ex_bonded = AfterValidatorBonded \<lparr>bc_Height = 1, bc_Time = 0\<rparr> ex_slash ''v''"

lemma ex_bonded_reach: "slash_reach ex_bits ex_staking '''' ex_slash 0 ex_bonded"
  unfolding ex_bonded_def by (rule bonded [OF start])

lemma ex_bonded_simps:
  "ss_staking ex_bonded = []" "ss_params ex_bonded = Some ex_params" "ss_chunks ex_bonded = mempty"
  "mget (ss_infos ex_bonded) a = (if a = ''v'' then
     Some \<lparr>si_Address = ''v'', si_StartHeight = 1, si_IndexOffset = 0, si_JailedUntil = 0, si_Tombstoned = False,
           si_MissedBlocksCounter = 0\<rparr> else None)"
  by (simp_all add: ex_bonded_def ex_slash_def AfterValidatorBonded_def SetValidatorSigningInfo_def
      GetValidatorSigningInfo_def mget_put)

lemma ex_bonded_missed: "missedSet ex_bits ex_bonded a = {}"
  by (simp add: missedSet_def GetMissedBlockBitmapValue_def getMissedBlockBitmapChunk_def ex_bonded_simps loadChunk_def
      Let_def ex_bits_def)

theorem downtime_rule_witness:
  "\<exists>s' j. HandleValidatorSignature ex_bits ex_staking \<lparr>bc_Height = 20, bc_Time = 5\<rparr> ex_bonded ''v'' 1 True = Ok s' \<and>
     mget (ss_infos s') ''v'' = Some j \<and> ss_staking s' = [''v''] \<and> missedSet ex_bits s' ''v'' = {} \<and>
     si_JailedUntil j = 105"
proof -
  have w: "SignedBlocksWindow ex_staking ex_bonded = 8" "MinSignedPerWindow ex_staking ex_bonded = 8"
    "DowntimeJailDuration ex_staking ex_bonded = 100"
    by (simp_all add: SignedBlocksWindow_def MinSignedPerWindow_def DowntimeJailDuration_def GetParams_def ex_bonded_simps
        ex_params_def ex_staking_def)
  have n: "int 0 < 2 ^ 63 - 1" by simp
  have "\<exists>s' j. HandleValidatorSignature ex_bits ex_staking \<lparr>bc_Height = 20, bc_Time = 5\<rparr> ex_bonded ''v'' 1 True = Ok s' \<and>
     mget (ss_infos s') ''v'' = Some j \<and>
     (if 1 + 8 < (20 :: int) \<and> 8 - 8 < int (card {0 :: int})
      then ss_staking s' = [''v''] \<and> missedSet ex_bits s' ''v'' = {} \<and>
           j = \<lparr>si_Address = ''v'', si_StartHeight = 1, si_IndexOffset = 0, si_JailedUntil = 105, si_Tombstoned = False,
                si_MissedBlocksCounter = 0\<rparr>
      else ss_staking s' = [] \<and> missedSet ex_bits s' ''v'' = {0} \<and>
           j = \<lparr>si_Address = ''v'', si_StartHeight = 1, si_IndexOffset = 1, si_JailedUntil = 0, si_Tombstoned = False,
                si_MissedBlocksCounter = int (card {0 :: int})\<rparr>)"
    using downtime_rule [OF ex_bonded_reach ex_bits_ok ex_slash_ok n, of "''v''"
        "\<lparr>si_Address = ''v'', si_StartHeight = 1, si_IndexOffset = 0, si_JailedUntil = 0, si_Tombstoned = False,
          si_MissedBlocksCounter = 0\<rparr>" "(''v'', False)" "\<lparr>bc_Height = 20, bc_Time = 5\<rparr>" "''''" "[]" "[''v'']" 8 "{0}" True 1]
    by (simp add: w ex_bonded_simps ex_bonded_missed) (simp add: ex_staking_def)
  then show ?thesis by auto
qed

section \<open>Tombstones\<close>

lemma record_infos:
  assumes "recordSignature B s a idx missed i = Ok (j, s')"
  shows "ss_infos s' = ss_infos s" and "si_Tombstoned j = si_Tombstoned i"
  using assms unfolding recordSignature_def SetMissedBlockBitmapValue_def Let_def
  by (auto simp: obind_Ok_iff setMissedBlockBitmapChunk_def split: if_splits)

lemma punish_infos:
  assumes "punishDowntime S ctx s a p i = Ok (j, s')"
  shows "ss_infos s' = ss_infos s" and "si_Tombstoned j = si_Tombstoned i"
  using assms unfolding punishDowntime_def
  by (auto simp: obind_Ok_iff Let_def emit_def DeleteMissedBlockBitmap_def split: option.splits if_splits)

lemma IsTombstoned_infos: "IsTombstoned s a \<longleftrightarrow> (\<exists>i. mget (ss_infos s) a = Some i \<and> si_Tombstoned i)"
  by (auto simp: IsTombstoned_def GetValidatorSigningInfo_def orFail_def split: option.splits)

lemma handle_tombstoned:
  assumes "HandleValidatorSignature B S ctx s b p missed = Ok s'" and "IsTombstoned s a"
  shows "IsTombstoned s' a"
proof (cases "sk_IsValidatorJailed S (ss_staking s) b = Ok True")
  case True
  then show ?thesis using assms by (simp add: HandleValidatorSignature_def)
next
  case False
  obtain j j1 s1 j2 s2 where j: "mget (ss_infos s) b = Some j"
    and r: "recordSignature B s b (goRem (si_IndexOffset j) (SignedBlocksWindow S s)) missed
        (j\<lparr>si_IndexOffset := i64 (si_IndexOffset j + 1)\<rparr>) = Ok (j1, s1)"
    and or: "(j2 = j1 \<and> s2 = noteMissed ctx s1 b missed j1) \<or>
        punishDowntime S ctx (noteMissed ctx s1 b missed j1) b p j1 = Ok (j2, s2)"
    and s': "s' = SetValidatorSigningInfo s2 b j2"
    by (rule handle_Ok [OF assms(1) False])
  have "ss_infos (noteMissed ctx s1 b missed j1) = ss_infos s1" by (simp add: noteMissed_def emit_def)
  then have "ss_infos s2 = ss_infos s" "si_Tombstoned j2 = si_Tombstoned j"
    using or record_infos [OF r] punish_infos [of S ctx "noteMissed ctx s1 b missed j1" b p j1 j2 s2] by auto
  then show ?thesis using assms(2) j unfolding s' IsTombstoned_infos by (auto simp: SetValidatorSigningInfo_def mget_put)
qed

lemma block_tombstoned: "BeginBlocker B S ctx s votes = Ok s' \<Longrightarrow> IsTombstoned s a \<Longrightarrow> IsTombstoned s' a"
proof (induction votes arbitrary: s)
  case (Cons vt votes)
  then show ?case by (cases vt) (auto simp: obind_Ok_iff dest: handle_tombstoned)
qed simp

lemma reach_tombstoned: "slash_reach B S authority s0 n s \<Longrightarrow> IsTombstoned s0 a \<Longrightarrow> IsTombstoned s a"
proof (induction rule: slash_reach.induct)
  case (block n s ctx votes s')
  then show ?case using block_tombstoned by blast
next
  case (unjail n s ctx v s')
  then obtain b where "Unjail S ctx s b = Ok s'" by (auto simp: msg_Unjail_def obind_Ok_iff)
  then show ?case using staking_frames(4) [of S ctx s b s'] unjail by (simp add: IsTombstoned_infos)
next
  case (params n s req p s')
  then show ?case by (auto simp: msg_UpdateParams_def obind_Ok_iff SetParams_def IsTombstoned_infos)
qed (auto simp: IsTombstoned_infos AfterValidatorBonded_def JailUntil_def Tombstone_def GetValidatorSigningInfo_def
      SetValidatorSigningInfo_def mget_put obind_Ok_iff staking_frames(5) dest!: staking_frames(1-3))

text \<open>
  C35: a tombstone is for ever. From a state in which a consensus address is tombstoned, whatever the
  module does later, no unjail message for a validator with that address succeeds.
\<close>

theorem tombstone_permanent:
  assumes "slash_reach B S authority s0 n s" and "IsTombstoned s0 a"
    and "sk_ValAddressFromBech32 S addr = Some val" and "sk_Validator S (ss_staking s) val = Ok (Some v)"
    and "v_GetConsAddr S v = Ok a"
  shows "IsTombstoned s a \<and> msg_Unjail S ctx s addr \<noteq> Ok s'"
proof -
  have t: "IsTombstoned s a" using reach_tombstoned [OF assms(1,2)] .
  then show ?thesis
    using assms(3-5) by (auto simp: msg_Unjail_def Unjail_def obind_Ok_iff IsTombstoned_infos GetValidatorSigningInfo_def)
qed

definition ex_tomb :: "(bytes list, int) slashing" where
  "ex_tomb = (case Tombstone (ex_bonded\<lparr>ss_staking := [''v'']\<rparr>) ''v'' of Ok s \<Rightarrow> s | _ \<Rightarrow> ex_slash)"

theorem tombstone_permanent_witness:
  "msg_Unjail ex_staking \<lparr>bc_Height = 20, bc_Time = 5\<rparr> (AfterValidatorBonded \<lparr>bc_Height = 9, bc_Time = 1\<rparr> ex_tomb ''v'') ''v''
    \<noteq> Ok ex_slash"
proof -
  have "IsTombstoned ex_tomb ''v''" by code_simp
  from tombstone_permanent [OF bonded [OF start] this, where S = ex_staking and addr = "''v''" and val = "''v''"
      and v = "(''v'', ''v'' \<in> set (ss_staking (AfterValidatorBonded \<lparr>bc_Height = 9, bc_Time = 1\<rparr> ex_tomb ''v'')))"]
  show ?thesis by (simp add: ex_staking_def)
qed

section \<open>The bitmap\<close>

text \<open>
  C36: writing a bit of a validator's bitmap succeeds, reading it back gives what was written, every
  other bit of every validator reads as before, and nothing but the chunks changes.
\<close>

theorem bitmap_set_get:
  assumes "bitset_ok B" and "decodable B s" and "0 \<le> i"
  shows "\<exists>s'. SetMissedBlockBitmapValue B s a i v = Ok s' \<and> decodable B s' \<and> s' = s\<lparr>ss_chunks := ss_chunks s'\<rparr> \<and>
    (\<forall>b j. 0 \<le> j \<longrightarrow> GetMissedBlockBitmapValue B s' b j =
       (if b = a \<and> j = i then Ok v else GetMissedBlockBitmapValue B s b j))"
  using set_get_missed [OF assms, of a v] by metis

lemma ex_bonded_decodable: "decodable ex_bits ex_bonded"
  by (simp add: decodable_def ex_bonded_simps)

theorem bitmap_set_get_witness:
  "\<exists>s'. SetMissedBlockBitmapValue ex_bits ex_bonded ''v'' 6 True = Ok s' \<and>
     GetMissedBlockBitmapValue ex_bits s' ''v'' 6 = Ok True"
  using bitmap_set_get [OF ex_bits_ok ex_bonded_decodable, of 6 "''v''" True] by auto

text \<open>Reading a chunk out collects the running index at each set bit.\<close>

definition collectMissed :: "int \<Rightarrow> bool \<Rightarrow> (int \<times> bool) list \<Rightarrow> bool \<times> (int \<times> bool) list" where
  "collectMissed = (\<lambda>idx missed acc. (False, if missed then acc @ [(idx, missed)] else acc))"

lemma iterateBits_collect:
  "iterateBits collectMissed t b [m ..< m + n] idx acc =
     (idx + int n, acc @ map (\<lambda>i. (idx + int i - int m, True)) (filter (t b) [m ..< m + n]))"
proof (induction n arbitrary: m idx acc)
  case (Suc n)
  have u: "[m ..< m + Suc n] = m # [Suc m ..< Suc m + n]" by (simp add: upt_conv_Cons)
  have "(\<lambda>i. (idx + 1 + int i - int (Suc m), True)) = (\<lambda>i. (idx + int i - int m, True))" by (simp add: fun_eq_iff)
  with Suc [of "Suc m" "idx + 1"] show ?case by (simp only: u iterateBits.simps) (simp add: collectMissed_def Let_def)
qed simp

lemma missedSet_chunk:
  assumes "bitset_ok B" and "decodable B s" and "\<And>j. mget (ss_chunks s) (a, j) = (if j = k then Some c else None)"
    and "bs_UnmarshalBinary B (bs_New B) c = Some b" and "0 \<le> k"
  shows "missedSet B s a = (\<lambda>i. k * MissedBlockBitmapChunkSize B + int i) `
    {i. i < nat (MissedBlockBitmapChunkSize B) \<and> bs_Test B b i}"
proof -
  let ?m = "MissedBlockBitmapChunkSize B"
  have m: "0 < ?m" using bitset_okD(1) [OF assms(1)] .
  have bits: "chunkBits B s a j n \<longleftrightarrow> j = k \<and> bs_Test B b n" for j n
    using assms(3,4) bitset_okD(3) [OF assms(1)] by (simp add: chunkBits_def)
  have "i \<in> missedSet B s a \<longleftrightarrow> 0 \<le> i \<and> i div ?m = k \<and> bs_Test B b (nat (i mod ?m))" for i
    using getMissed_bits [OF assms(1,2), of i a] bits by (auto simp: missedSet_def)
  moreover have "(0 \<le> i \<and> i div ?m = k \<and> bs_Test B b (nat (i mod ?m))) \<longleftrightarrow>
      i \<in> (\<lambda>i. k * ?m + int i) ` {i. i < nat ?m \<and> bs_Test B b i}" for i
  proof
    assume "0 \<le> i \<and> i div ?m = k \<and> bs_Test B b (nat (i mod ?m))"
    moreover have "0 \<le> i mod ?m" "i mod ?m < ?m" "i = i div ?m * ?m + i mod ?m" using m by simp_all
    ultimately show "i \<in> (\<lambda>i. k * ?m + int i) ` {i. i < nat ?m \<and> bs_Test B b i}"
      by (intro image_eqI [of _ _ "nat (i mod ?m)"]) auto
  next
    assume "i \<in> (\<lambda>i. k * ?m + int i) ` {i. i < nat ?m \<and> bs_Test B b i}"
    then obtain n where n: "i = k * ?m + int n" "int n < ?m" "bs_Test B b n" by auto
    then have "i div ?m = k" "i mod ?m = int n" using m by (simp_all add: div_pos_pos_trivial)
    then show "0 \<le> i \<and> i div ?m = k \<and> bs_Test B b (nat (i mod ?m))" using n m assms(5) by simp
  qed
  ultimately show ?thesis by blast
qed

text \<open>
  C37: where only the \<open>k\<close>-th chunk of a validator is stored, the missed blocks it is reported to have,
  which the genesis export writes, are shifted: each index is too small by the size of the \<open>k\<close> chunks
  that are not stored.
\<close>

theorem missed_blocks_misreported:
  assumes "bitset_ok B" and "decodable B s" and "0 \<le> SignedBlocksWindow S s"
    and "\<And>j. mget (ss_chunks s) (a, j) = (if j = k then Some c else None)" and "chunksOf B s a = [(k, c)]" and "0 \<le> k"
  shows "\<exists>bits. GetValidatorMissedBlocks B S s a = Ok bits \<and>
    missedSet B s a = (\<lambda>(i, _). k * MissedBlockBitmapChunkSize B + i) ` set bits"
proof -
  obtain b where b: "bs_UnmarshalBinary B (bs_New B) c = Some b"
    using assms(2) assms(4) [of k] unfolding decodable_def by fastforce
  let ?n = "nat (MissedBlockBitmapChunkSize B)"
  have "GetValidatorMissedBlocks B S s a = iterateChunks B collectMissed [c] 0 []"
    using assms(3,5) by (simp add: GetValidatorMissedBlocks_def IterateMissedBlockBitmap_def collectMissed_def)
  also have "\<dots> = Ok (map (\<lambda>i. (int i, True)) (filter (bs_Test B b) [0 ..< ?n]))"
    using b iterateBits_collect [of "bs_Test B" b 0 ?n 0 "[]"] by simp
  finally show ?thesis
    unfolding missedSet_chunk [OF assms(1,2,4) b assms(6)] by (auto simp: image_iff)
qed

definition ex_far :: "(bytes list, int) slashing" where
  "ex_far = ex_bonded\<lparr>ss_chunks := mput mempty (''v'', 1) (unary [2])\<rparr>"

theorem missed_blocks_misreported_witness:
  "GetValidatorMissedBlocks ex_bits ex_staking ex_far ''v'' = Ok [(2, True)] \<and> missedSet ex_bits ex_far ''v'' = {6}"
proof -
  have g: "mget (ss_chunks ex_far) (''v'', j) = (if j = 1 then Some (unary [2]) else None)" for j
    by (simp add: ex_far_def mget_put)
  have d: "decodable ex_bits ex_far"
    by (auto simp: decodable_def ex_far_def mget_put ex_bits_def)
  have w: "0 \<le> SignedBlocksWindow ex_staking ex_far"
    by (simp add: SignedBlocksWindow_def GetParams_def ex_far_def ex_bonded_simps ex_params_def)
  have c: "chunksOf ex_bits ex_far ''v'' = [(1, unary [2])]" by code_simp
  have v: "GetValidatorMissedBlocks ex_bits ex_staking ex_far ''v'' = Ok [(2, True)]" by code_simp
  have m: "MissedBlockBitmapChunkSize ex_bits = 4" by (simp add: ex_bits_def)
  from missed_blocks_misreported [OF ex_bits_ok d w g c] v show ?thesis by (simp add: m)
qed

end
