(* ===== verification/Spec2Isabelle.thy ===== *)
theory Spec2Isabelle
  imports Mempool_Properties Nft_Properties Slashing_Properties
begin

text \<open>
  Verification of parts of the Initia chain (Go, \<open>src/\<close>): the ABCI++ priority mempool with its
  proposal and check handlers, the ICS-721 NFT transfer application with the Move NFT keeper below it,
  the readers of Move resources, and the slashing module.

  \<^bold>\<open>The program.\<close> A node keeps unconfirmed transactions in the priority mempool (\<open>src/abcipp\<close>):
  per sender, the \<^emph>\<open>active\<close> transactions with contiguous nonces wait in a priority index for the next
  block and the \<^emph>\<open>queued\<close> ones wait for a nonce gap to close. CheckTx inserts and rechecks, the
  proposal handlers build and validate blocks from the pool, a cleaning worker and block commits remove
  and promote, and two dispatchers pass events on to CometBFT and to the app. The NFT application
  (\<open>src/x/ibc/nft-transfer\<close>) moves NFTs over IBC channels by escrowing or burning them on one chain
  and minting or releasing them on the other; its NFT keeper (\<open>src/x/move/keeper/nft.go\<close>) does that
  through the Move VM, whose resources it decodes with \<open>src/x/move/types/connector.go\<close>. The
  slashing module (\<open>src/x/slashing\<close>) counts missed blocks and punishes downtime.

  \<^bold>\<open>Prelude.\<close> \<open>Initia_Prelude\<close>: Go maps (\<open>gomap\<close>, with the laws as locale \<open>go_map\<close>), 64-bit
  arithmetic (\<open>u64\<close> on \<open>nat\<close>, \<open>i64\<close> on \<open>int\<close>), shared list lemmas. \<open>Go_Strings\<close>: the functions of
  the packages \<open>strings\<close>, \<open>hex\<close> and \<open>unicode\<close> that the code calls. \<open>Go_Outcome\<close>: results that are a
  value, an error, or a panic (nil dereference, index out of range), with indexing and slicing.

  \<^bold>\<open>Mempool\<close> (\<open>src/abcipp/mempool*.go\<close>, \<open>interface.go\<close>, \<open>utils.go\<close>).
  \<^item> \<open>Mempool_Types\<close>: \<open>PriorityMempool\<close> as a record with the fields of the struct, \<open>txEntry\<close>,
    \<open>senderState\<close>, \<open>RemovalReason\<close>; the skip list, the decoder, the account keeper and the clock are
    arguments (records \<open>env\<close>, \<open>ctx\<close>), \<open>skiplist_ok\<close> says that the list keeps a sorted set of keys.
  \<^item> \<open>Mempool_Sender_State\<close>, \<open>Mempool_Tier\<close>, \<open>Mempool_Core\<close>, \<open>Mempool_Remove\<close>, \<open>Mempool_Insert\<close>,
    \<open>Mempool_Cleanup\<close>, \<open>Mempool_Query\<close>, \<open>Mempool_Events\<close>, \<open>Mempool_Invariant\<close>: one definition per
    method, in the order of the files of the same names; loops over nonce ranges are \<open>function\<close>s with
    a termination proof.
  \<^item> \<open>Mempool_Inv\<close> states the invariant \<open>sound\<close> (ranges, contiguity, counters, indexes, ranks),
    \<open>Mempool_Sound\<close>, \<open>Mempool_Remove_Proofs\<close>, \<open>Mempool_Insert_Proofs\<close> and \<open>Mempool_Ops\<close> show that
    every operation keeps it and what it does to the abstract pool (sender and nonce to transaction).
    The locale \<open>mempool_laws\<close> is the contract that the handlers rely on, interpreted for the pool.
  \<^item> \<open>Mempool_Machine\<close>: the node as a step relation; a step is one critical section of an operation
    under the pool's lock, a dispatcher delivery, or wiring and stopping. Interleavings of goroutines
    are sequences of steps (\<open>runs\<close>); \<open>node_ok\<close> is kept by every step.

  \<^bold>\<open>ABCI\<close> (\<open>proposals.go\<close>, \<open>checktx.go\<close>, \<open>query_server.go\<close>, \<open>config.go\<close>, \<open>src/tx/extension.go\<close>):
  \<open>Abci_Mempool\<close> (the interface), \<open>Abci_Proposals\<close> (prepare and process as folds over the
  iterator, the ante handler an argument), \<open>Abci_CheckTx\<close>.

  \<^bold>\<open>Move data and NFTs.\<close> \<open>Move_Bcs\<close>: the resource readers of \<open>connector.go\<close>, on 64-bit lengths and with
  the panics of slice accesses, against the BCS encoding. \<open>Move_Nft\<close>: \<open>class.go\<close>, \<open>denom.go\<close> and the
  NFT keeper over VM calls that are arguments; \<open>vm_ok\<close> states what the Move standard library does
  with owners. \<open>Nft_Types\<close>: class traces, packets, genesis, ICS-721 data. \<open>Nft_Relay\<close>: the keeper
  (send, receive, acknowledge, time out, refund), the message server, the channel handshake, queries.
  \<open>Nft_Proofs\<close>: the contract \<open>nft_laws\<close> of the NFT keeper, and what sends, receipts and refunds do to
  ownership and to the trace store.

  \<^bold>\<open>Slashing\<close> (\<open>Slashing\<close>): signing infos, the chunked bitmap, the liveness rule, hooks, messages,
  genesis; the staking keeper, the decimal arithmetic and the bitset package are arguments
  (\<open>stakingKeeper\<close>, \<open>bitsetLib\<close>, with \<open>bitset_ok\<close>). \<open>slash_reach\<close> are its runs.

  \<^bold>\<open>What is shown.\<close> Here: proposals built from a reachable pool are accepted, ordered by nonce, and
  within the limits (C5 to C8). \<open>Mempool_Properties\<close>: invariants, capacity, event mirror and delivery
  (C1 to C4), the contracts of the operations (C9 to C14), ordering and scoring (C15 to C19).
  \<open>Nft_Properties\<close>: NFTs that go there and back, refunds, the trace store, genesis, class paths,
  packets, ownership (C20 to C27), and the readers of Move data (C28 to C32). \<open>Slashing_Properties\<close>:
  counter, liveness rule, tombstones, bitmap (C33 to C37). Some of these state what the code does where
  that is not what its documentation says: C17, C19, C22, C25 and C37. \<open>Mempool_Example\<close> and
  \<open>Nft_Example\<close> hold the concrete node, chains and VM on which the properties are instantiated.

  \<^bold>\<open>Bounds.\<close> No fuel is used. The machine's properties hold for a pool without tier matchers where they
  say so (\<open>cfg_Tiers c = []\<close>, which is how the app configures it); the rest of the model has tiers.
  Nonces, scores and lengths are 64-bit as in the code; where a property needs that an offset has not
  wrapped (C33, C34), the bound is a hypothesis.

  \<^bold>\<open>Not modelled.\<close> Logging, telemetry, context plumbing, protobuf and amino registration, CLI and gRPC
  gateways, generated code; goroutine scheduling below the granularity of the pool's lock; simulation
  of the Move VM, which is not part of the repository. Of \<open>src/x/move\<close> only the NFT keeper, class and
  denom addresses and the resource readers are modelled: the rest drives the VM. The modules
  \<open>mstaking\<close>, \<open>gov\<close>, \<open>distribution\<close>, \<open>bank\<close>, \<open>reward\<close>, \<open>dynamic-fee\<close>, \<open>ibc-hooks\<close>, \<open>intertx\<close>,
  \<open>evidence\<close>, \<open>authz\<close>, \<open>genutil\<close>, the app wiring (\<open>src/app\<close>), the commands (\<open>src/cmd\<close>) and the key
  handling (\<open>src/crypto\<close>) are outside this development.
\<close>

section \<open>Proposals\<close>

lemma selected_decoded:
  assumes ok: "node_ok E dec n" and i: "i \<in> set (m_Select (PriorityMempool_iface E) (pool n))"
  shows "ti_TxBytes (tie_Info i) \<in> poolBytes (pool n)" and "tie_Tx i = dec (ti_TxBytes (tie_Info i))"
proof -
  have s: "sound E (pool n)" and d: "decoded dec (pool n)" using ok by (simp_all add: node_ok_def)
  obtain pr where h: "held (pool n) \<lparr>sender = ti_Sender (tie_Info i), nonce = ti_Sequence (tie_Info i)\<rparr> =
      Some (tie_Tx i, ti_TxBytes (tie_Info i), pr)"
    using selected(5) [OF s] i by (auto simp: PriorityMempool_iface_def)
  then show "ti_TxBytes (tie_Info i) \<in> poolBytes (pool n)" unfolding poolBytes_def by blast
  show "tie_Tx i = dec (ti_TxBytes (tie_Info i))" using d h unfolding decoded_def by blast
qed

definition ex_handler :: "(unit, unit PriorityMempool) ProposalHandler" where
  "ex_handler = \<lparr>ph_txDecoder = (\<lambda>bz. Inr (ex_dec bz)), ph_mempool = PriorityMempool_iface ex_env,
     ph_anteHandler = (\<lambda>ctx tx sim. Inr ctx)\<rparr>"

definition ex_proposal :: "unit PriorityMempool \<times> bytes list" where
  "ex_proposal = PrepareProposal (TxHash ex_env) ex_handler (ex_ctx '''' 0) 2 [] (pool ex_node)"

lemma ex_proposal_txs: "snd ex_proposal = [''a0'']"
  by (simp add: ex_proposal_def PrepareProposal_def ex_handler_def PriorityMempool_iface_def Select_all ex_pool ex_index
      prepareInit_def prepareStep_def ex_ctx_def maxBlockSize_def maxGasLimit_def i64_def u64_def infoOf_def ex_entry_def)

lemma ex_handler_ok: "ph_mempool ex_handler = PriorityMempool_iface ex_env"
    "\<forall>bz\<in>poolBytes (pool ex_node). ph_txDecoder ex_handler bz = Inr (ex_dec bz)"
  by (simp_all add: ex_handler_def)

text \<open>
  C5: what \<open>PrepareProposal\<close> builds from a reachable pool is accepted by \<open>ProcessProposal\<close> with the
  same context and handler: both run the ante handler on the same transactions in the same order and
  measure size and gas alike.
\<close>

theorem prepare_process_agree:
  assumes "skiplist_ok E" and "cfg_Tiers c = []" and "runs E dec (boot c) ls n"
    and "ph_mempool h = PriorityMempool_iface E" and "\<forall>bz\<in>poolBytes (pool n). ph_txDecoder h bz = Inr (dec bz)"
    and "1 < height" and "PrepareProposal (TxHash E) h ctx height reqTxs (pool n) = (q, txs)"
  shows "ProcessProposal h ctx height txs = None"
  using pm.prepared_accepted [OF reach_sound(3) [OF assms(1-3)] assms(4,6,7)]
    selected_decoded [OF reach_sound(1) [OF assms(1-3)]] assms(5) by metis

theorem prepare_process_agree_witness:
  "snd ex_proposal = [''a0''] \<and> ProcessProposal ex_handler (ex_ctx '''' 0) 2 [''a0''] = None"
  using prepare_process_agree [OF ex_skiplist ex_tiers ex_runs_boot ex_handler_ok,
      of 2 "ex_ctx '''' 0" "[]" "fst ex_proposal" "snd ex_proposal"] ex_proposal_txs prod.collapse [of ex_proposal]
  by (simp add: ex_proposal_def [symmetric] del: prod.collapse)





text \<open>
  C8: a proposal that \<open>ProcessProposal\<close> accepts is within the consensus limits: its bytes within the
  block size, when that is limited, and its gas within the gas limit. The gas a transaction wants is
  below \<open>2 ^ 63\<close>, as the SDK requires, so the running 64-bit total cannot wrap.
\<close>

theorem accepted_within_limits:
  assumes "ProcessProposal h ctx height txs = None" and "1 < height"
    and "GetDecodedTxs (ph_txDecoder h) txs = Inr decodedTxs" and "\<forall>tx\<in>set decodedTxs. gasOf tx < 2 ^ 63"
    and "(\<Sum>bz\<leftarrow>txs. int (length bz)) < 2 ^ 63" and "0 < maxGasLimit ctx" and "maxGasLimit ctx < 2 ^ 63"
  shows "(0 < maxBlockSize ctx \<longrightarrow> (\<Sum>bz\<leftarrow>txs. int (length bz)) \<le> maxBlockSize ctx) \<and>
    int (\<Sum>tx\<leftarrow>decodedTxs. gasOf tx) \<le> maxGasLimit ctx"
proof -
  have len: "length decodedTxs = length txs" by (rule GetDecodedTxs_length [OF assms(3)])
  obtain ctx' b' g' where p: "processLoop (ph_anteHandler h) ctx 0 0 (zip decodedTxs txs) = Inr (ctx', b', g')"
    using assms(1-3) by (auto simp: ProcessProposal_def split: sum.splits)
  have sums: "(\<Sum>(tx, bz)\<leftarrow>zip decodedTxs txs. int (length bz)) = (\<Sum>bz\<leftarrow>txs. int (length bz))"
    "(\<Sum>(tx, bz)\<leftarrow>zip decodedTxs txs. gasOf tx) = (\<Sum>tx\<leftarrow>decodedTxs. gasOf tx)"
    using len by (induction decodedTxs txs rule: list_induct2) simp_all
  have "\<forall>(tx, bz)\<in>set (zip decodedTxs txs). gasOf tx < 2 ^ 63" using assms(4) by (auto dest: set_zip_leftD)
  then show ?thesis using processLoop_bounds [OF p] assms(5-7) sums by (auto simp: order_less_imp_le)
qed

theorem accepted_within_limits_witness:
  "ProcessProposal ex_handler (ex_ctx '''' 0) 2 [''a0'', ''b1''] = None \<and> int (10 + 10) \<le> maxGasLimit (ex_ctx '''' 0)"
proof -
  have p: "ProcessProposal ex_handler (ex_ctx '''' 0) 2 [''a0'', ''b1''] = None"
    by (simp add: ProcessProposal_def ex_handler_def ex_dec_def ex_tx_def ex_ctx_def maxBlockSize_def maxGasLimit_def
        i64_def u64_def)
  have d: "GetDecodedTxs (ph_txDecoder ex_handler) [''a0'', ''b1''] = Inr [ex_dec ''a0'', ex_dec ''b1'']"
    by (simp add: ex_handler_def)
  have "gasOf (ex_dec bz) = 10" for bz by (simp add: gasOf_def ex_dec_def ex_tx_def)
  then show ?thesis using accepted_within_limits [OF p _ d] p by (simp add: ex_ctx_def maxGasLimit_def)
qed

end
